(* ===== verification/Wallet_Prelude.thy ===== *)
theory Wallet_Prelude
  imports Main "HOL-Library.Word" "HOL-Library.Signed_Division" "HOL-Library.Monad_Syntax"
begin

text \<open>
  The shared base of the development: the type names of the model, Go's signed 64-bit
  integers (\<open>wrap64\<close> is what an \<open>int64\<close> operation stores), results of fallible
  functions.

  An \<open>int64\<close> is an \<open>int\<close> in \<open>[-2^63, 2^63)\<close>; every addition, subtraction or negation of the source
  goes through \<open>wrap64\<close>, so overflow is part of the model. \<open>wrap64_word\<close> relates
  it to the 64-bit words of the library.
\<close>

section \<open>Names of the model's base types\<close>

type_synonym int64 = int
type_synonym uuid = "128 word"
type_synonym time = int

text \<open>A time is in nanoseconds since the Unix epoch; durations are nanoseconds too.\<close>

definition second :: time where "second = 1000000000"
definition minute :: time where "minute = 60 * second"
definition hour :: time where "hour = 60 * minute"

definition uuid_Nil :: uuid where "uuid_Nil = 0"

named_theorems int64_simps \<open>bounds and wrap-around of int64 values\<close>
named_theorems status_simps \<open>distinctness of the string constants of the models\<close>
named_theorems actor_simps \<open>frame and field equations of the actor operations\<close>

section \<open>Signed 64-bit integers\<close>

definition MaxInt64 :: int where "MaxInt64 = 2 ^ 63 - 1"
definition MinInt64 :: int where "MinInt64 = - (2 ^ 63)"

definition is_int64 :: "int \<Rightarrow> bool" where
  "is_int64 x \<longleftrightarrow> MinInt64 \<le> x \<and> x \<le> MaxInt64"

definition wrap64 :: "int \<Rightarrow> int64" where
  "wrap64 x = (x + 2 ^ 63) mod 2 ^ 64 - 2 ^ 63"

lemma is_int64_wrap64 [simp, int64_simps]: "is_int64 (wrap64 x)"
proof -
  have "0 \<le> (x + 2 ^ 63) mod (2 ^ 64 :: int)" and "(x + 2 ^ 63) mod (2 ^ 64 :: int) < 2 ^ 64"
    by simp_all
  then show ?thesis by (simp add: is_int64_def wrap64_def MinInt64_def MaxInt64_def)
qed

lemma wrap64_id [int64_simps]: "is_int64 x \<Longrightarrow> wrap64 x = x"
  by (simp add: is_int64_def wrap64_def MinInt64_def MaxInt64_def)

lemma wrap64_word: "wrap64 x = sint (word_of_int x :: 64 word)"
  by (simp add: wrap64_def sint_sbintrunc' signed_take_bit_eq_take_bit_shift
      take_bit_eq_mod)

lemma wrap64_add_right: "wrap64 (a + wrap64 b) = wrap64 (a + b)"
  by (simp add: wrap64_def mod_simps algebra_simps)

lemma wrap64_add_left: "wrap64 (wrap64 a + b) = wrap64 (a + b)"
  using wrap64_add_right [of b a] by (simp add: add.commute)

text \<open>
  Adding two non-negative \<open>int64\<close> values overflows exactly when the stored result is
  negative, and a stored non-negative sum is the exact sum.
\<close>

lemma wrap64_add_nonneg:
  assumes "0 \<le> a" "a \<le> MaxInt64" "0 \<le> b" "b \<le> MaxInt64" "0 \<le> wrap64 (a + b)"
  shows "wrap64 (a + b) = a + b"
proof (cases "a + b \<le> MaxInt64")
  case True
  with assms show ?thesis by (intro wrap64_id) (simp add: is_int64_def MinInt64_def)
next
  case False
  define x where "x = a + b + 2 ^ 63 - 2 ^ 64"
  have "0 \<le> x" and "x < 2 ^ 64"
    using False assms(1-4) by (simp_all add: x_def MaxInt64_def)
  then have "(x + 2 ^ 64) mod 2 ^ 64 = x" by simp
  then have "wrap64 (a + b) = a + b - 2 ^ 64" by (simp add: wrap64_def x_def algebra_simps)
  with assms show ?thesis by (simp add: MaxInt64_def)
qed

lemma wrap64_sub_nonneg:
  "0 \<le> a \<Longrightarrow> a \<le> MaxInt64 \<Longrightarrow> 0 \<le> b \<Longrightarrow> b \<le> MaxInt64 \<Longrightarrow> wrap64 (a + - b) = a - b"
  using wrap64_id [of "a - b"] by (simp add: is_int64_def MinInt64_def MaxInt64_def)

section \<open>Results\<close>

text \<open>A Go pair (value, err) with err nil is \<open>Inr\<close>; a non-nil err is \<open>Inl\<close>.\<close>

definition is_ok :: "'e + 'a \<Rightarrow> bool" where
  "is_ok r = (case r of Inl _ \<Rightarrow> False | Inr _ \<Rightarrow> True)"

lemma is_ok_simps [simp]: "is_ok (Inr x)" "\<not> is_ok (Inl e)"
  by (simp_all add: is_ok_def)

lemma is_ok_iff: "is_ok r \<longleftrightarrow> (\<exists>x. r = Inr x)"
  by (cases r) auto

end
