(* ===== verification/Currency.thy ===== *)
theory Currency
  imports Go_Strings
begin

text \<open>
  Package \<open>currency\<close> (\<open>internal/currency/currency.go\<close>): the registry of ISO 4217 currencies.
  \<open>currencies_json\<close> is the embedded \<open>currencies.json\<close>, \<open>init_registry\<close> the package's
  \<open>init\<close> loop (a panic is \<open>Inl\<close>), and \<open>registry\<close> and \<open>ordered\<close> its two variables.
  The first argument of the operations is the Unicode path of \<open>strings.ToUpper\<close>.
\<close>

record currency =
  c_Code :: string
  c_Name :: string
  c_Exponent :: nat

datatype currency_panic = NotThreeLetters string | ListedTwice string

definition Normalize :: "(string \<Rightarrow> string) \<Rightarrow> string \<Rightarrow> string" where
  "Normalize uc code = ToUpper uc (TrimSpace code)"

fun init_registry :: "(string \<Rightarrow> string) \<Rightarrow> currency list \<Rightarrow> (string \<times> currency) list \<Rightarrow>
    currency_panic + (string \<times> currency) list" where
  "init_registry uc [] reg = Inr reg"
| "init_registry uc (c # cs) reg =
     (let code = Normalize uc (c_Code c) in
      if length code \<noteq> 3 then Inl (NotThreeLetters (c_Code c))
      else if map_of reg code \<noteq> None then Inl (ListedTwice code)
      else init_registry uc cs (reg @ [(code, c\<lparr>c_Code := code\<rparr>)]))"

text \<open>The shipped data, in the order of the file.\<close>

definition currencies_json :: "currency list" where
  "currencies_json = map (\<lambda>(c, n, e). \<lparr>c_Code = c, c_Name = n, c_Exponent = e\<rparr>)
   [
    (''AED'', ''UAE Dirham'', 2), (''AFN'', ''Afghan Afghani'', 2), (''ALL'', ''Albanian Lek'', 2),
    (''AMD'', ''Armenian Dram'', 2), (''ANG'', ''Netherlands Antillean Guilder'', 2),
    (''AOA'', ''Angolan Kwanza'', 2), (''ARS'', ''Argentine Peso'', 2),
    (''AUD'', ''Australian Dollar'', 2), (''AWG'', ''Aruban Florin'', 2),
    (''AZN'', ''Azerbaijani Manat'', 2), (''BAM'', ''Bosnia and Herzegovina Convertible Mark'', 2),
    (''BBD'', ''Barbadian Dollar'', 2), (''BDT'', ''Bangladeshi Taka'', 2),
    (''BGN'', ''Bulgarian Lev'', 2), (''BHD'', ''Bahraini Dinar'', 3),
    (''BIF'', ''Burundian Franc'', 0), (''BMD'', ''Bermudian Dollar'', 2),
    (''BND'', ''Brunei Dollar'', 2), (''BOB'', ''Bolivian Boliviano'', 2),
    (''BRL'', ''Brazilian Real'', 2), (''BSD'', ''Bahamian Dollar'', 2),
    (''BTN'', ''Bhutanese Ngultrum'', 2), (''BWP'', ''Botswana Pula'', 2),
    (''BYN'', ''Belarusian Ruble'', 2), (''BZD'', ''Belize Dollar'', 2),
    (''CAD'', ''Canadian Dollar'', 2), (''CDF'', ''Congolese Franc'', 2),
    (''CHF'', ''Swiss Franc'', 2), (''CLP'', ''Chilean Peso'', 0), (''CNY'', ''Chinese Yuan'', 2),
    (''COP'', ''Colombian Peso'', 2), (''CRC'', ''Costa Rican Colon'', 2),
    (''CUP'', ''Cuban Peso'', 2), (''CVE'', ''Cape Verdean Escudo'', 2),
    (''CZK'', ''Czech Koruna'', 2), (''DJF'', ''Djiboutian Franc'', 0),
    (''DKK'', ''Danish Krone'', 2), (''DOP'', ''Dominican Peso'', 2),
    (''DZD'', ''Algerian Dinar'', 2), (''EGP'', ''Egyptian Pound'', 2),
    (''ERN'', ''Eritrean Nakfa'', 2), (''ETB'', ''Ethiopian Birr'', 2), (''EUR'', ''Euro'', 2),
    (''FJD'', ''Fijian Dollar'', 2), (''FKP'', ''Falkland Islands Pound'', 2),
    (''GBP'', ''Pound Sterling'', 2), (''GEL'', ''Georgian Lari'', 2),
    (''GHS'', ''Ghanaian Cedi'', 2), (''GIP'', ''Gibraltar Pound'', 2),
    (''GMD'', ''Gambian Dalasi'', 2), (''GNF'', ''Guinean Franc'', 0),
    (''GTQ'', ''Guatemalan Quetzal'', 2), (''GYD'', ''Guyanese Dollar'', 2),
    (''HKD'', ''Hong Kong Dollar'', 2), (''HNL'', ''Honduran Lempira'', 2),
    (''HTG'', ''Haitian Gourde'', 2), (''HUF'', ''Hungarian Forint'', 2),
    (''IDR'', ''Indonesian Rupiah'', 2), (''ILS'', ''Israeli New Shekel'', 2),
    (''INR'', ''Indian Rupee'', 2), (''IQD'', ''Iraqi Dinar'', 3), (''IRR'', ''Iranian Rial'', 2),
    (''ISK'', ''Icelandic Krona'', 0), (''JMD'', ''Jamaican Dollar'', 2),
    (''JOD'', ''Jordanian Dinar'', 3), (''JPY'', ''Japanese Yen'', 0),
    (''KES'', ''Kenyan Shilling'', 2), (''KGS'', ''Kyrgyzstani Som'', 2),
    (''KHR'', ''Cambodian Riel'', 2), (''KMF'', ''Comorian Franc'', 0),
    (''KPW'', ''North Korean Won'', 2), (''KRW'', ''South Korean Won'', 0),
    (''KWD'', ''Kuwaiti Dinar'', 3), (''KYD'', ''Cayman Islands Dollar'', 2),
    (''KZT'', ''Kazakhstani Tenge'', 2), (''LAK'', ''Lao Kip'', 2),
    (''LBP'', ''Lebanese Pound'', 2), (''LKR'', ''Sri Lankan Rupee'', 2),
    (''LRD'', ''Liberian Dollar'', 2), (''LSL'', ''Lesotho Loti'', 2),
    (''LYD'', ''Libyan Dinar'', 3), (''MAD'', ''Moroccan Dirham'', 2),
    (''MDL'', ''Moldovan Leu'', 2), (''MGA'', ''Malagasy Ariary'', 2),
    (''MKD'', ''Macedonian Denar'', 2), (''MMK'', ''Myanmar Kyat'', 2),
    (''MNT'', ''Mongolian Tugrik'', 2), (''MOP'', ''Macanese Pataca'', 2),
    (''MRU'', ''Mauritanian Ouguiya'', 2), (''MUR'', ''Mauritian Rupee'', 2),
    (''MVR'', ''Maldivian Rufiyaa'', 2), (''MWK'', ''Malawian Kwacha'', 2),
    (''MXN'', ''Mexican Peso'', 2), (''MYR'', ''Malaysian Ringgit'', 2),
    (''MZN'', ''Mozambican Metical'', 2), (''NAD'', ''Namibian Dollar'', 2),
    (''NGN'', ''Nigerian Naira'', 2), (''NIO'', ''Nicaraguan Cordoba'', 2),
    (''NOK'', ''Norwegian Krone'', 2), (''NPR'', ''Nepalese Rupee'', 2),
    (''NZD'', ''New Zealand Dollar'', 2), (''OMR'', ''Omani Rial'', 3),
    (''PAB'', ''Panamanian Balboa'', 2), (''PEN'', ''Peruvian Sol'', 2),
    (''PGK'', ''Papua New Guinean Kina'', 2), (''PHP'', ''Philippine Peso'', 2),
    (''PKR'', ''Pakistani Rupee'', 2), (''PLN'', ''Polish Zloty'', 2),
    (''PYG'', ''Paraguayan Guarani'', 0), (''QAR'', ''Qatari Riyal'', 2),
    (''RON'', ''Romanian Leu'', 2), (''RSD'', ''Serbian Dinar'', 2),
    (''RUB'', ''Russian Ruble'', 2), (''RWF'', ''Rwandan Franc'', 0), (''SAR'', ''Saudi Riyal'', 2),
    (''SBD'', ''Solomon Islands Dollar'', 2), (''SCR'', ''Seychellois Rupee'', 2),
    (''SDG'', ''Sudanese Pound'', 2), (''SEK'', ''Swedish Krona'', 2),
    (''SGD'', ''Singapore Dollar'', 2), (''SHP'', ''Saint Helena Pound'', 2),
    (''SLE'', ''Sierra Leonean Leone'', 2), (''SOS'', ''Somali Shilling'', 2),
    (''SRD'', ''Surinamese Dollar'', 2), (''SSP'', ''South Sudanese Pound'', 2),
    (''STN'', ''Sao Tome and Principe Dobra'', 2), (''SVC'', ''Salvadoran Colon'', 2),
    (''SYP'', ''Syrian Pound'', 2), (''SZL'', ''Swazi Lilangeni'', 2), (''THB'', ''Thai Baht'', 2),
    (''TJS'', ''Tajikistani Somoni'', 2), (''TMT'', ''Turkmenistani Manat'', 2),
    (''TND'', ''Tunisian Dinar'', 3), (''TOP'', ''Tongan Pa'anga'', 2),
    (''TRY'', ''Turkish Lira'', 2), (''TTD'', ''Trinidad and Tobago Dollar'', 2),
    (''TWD'', ''New Taiwan Dollar'', 2), (''TZS'', ''Tanzanian Shilling'', 2),
    (''UAH'', ''Ukrainian Hryvnia'', 2), (''UGX'', ''Ugandan Shilling'', 0),
    (''USD'', ''US Dollar'', 2), (''UYU'', ''Uruguayan Peso'', 2),
    (''UZS'', ''Uzbekistani Som'', 2), (''VES'', ''Venezuelan Bolivar'', 2),
    (''VND'', ''Vietnamese Dong'', 0), (''VUV'', ''Vanuatu Vatu'', 0),
    (''WST'', ''Samoan Tala'', 2), (''XAF'', ''Central African CFA Franc'', 0),
    (''XCD'', ''East Caribbean Dollar'', 2), (''XOF'', ''West African CFA Franc'', 0),
    (''XPF'', ''CFP Franc'', 0), (''YER'', ''Yemeni Rial'', 2),
    (''ZAR'', ''South African Rand'', 2), (''ZMW'', ''Zambian Kwacha'', 2),
    (''ZWG'', ''Zimbabwe Gold'', 2)]"

definition registry :: "(string \<Rightarrow> string) \<Rightarrow> (string \<times> currency) list" where
  "registry uc = (case init_registry uc currencies_json [] of Inr reg \<Rightarrow> reg | Inl _ \<Rightarrow> [])"

definition ordered :: "(string \<Rightarrow> string) \<Rightarrow> currency list" where
  "ordered uc = sort_key c_Code (map snd (registry uc))"

definition Lookup :: "(string \<Rightarrow> string) \<Rightarrow> string \<Rightarrow> currency option" where
  "Lookup uc code = map_of (registry uc) (Normalize uc code)"

definition Supported :: "(string \<Rightarrow> string) \<Rightarrow> string \<Rightarrow> bool" where
  "Supported uc code \<longleftrightarrow> Lookup uc code \<noteq> None"

definition All :: "(string \<Rightarrow> string) \<Rightarrow> currency list" where
  "All uc = ordered uc"

definition Codes :: "(string \<Rightarrow> string) \<Rightarrow> string list" where
  "Codes uc = map c_Code (ordered uc)"

section \<open>Initialisation\<close>

text \<open>A code that \<open>Normalize\<close> leaves as it is: three ASCII capital letters.\<close>

definition iso_code :: "string \<Rightarrow> bool" where
  "iso_code s \<longleftrightarrow> length s = 3 \<and> list_all (\<lambda>c. (65 :: nat) \<le> of_char c \<and> of_char c \<le> (90 :: nat)) s"

lemma iso_code_Normalize:
  assumes "iso_code s"
  shows "Normalize uc s = s"
proof -
  have all: "\<forall>c \<in> set s. (65 :: nat) \<le> of_char c \<and> of_char c \<le> (90 :: nat)" and ne: "s \<noteq> []"
    using assms by (auto simp: iso_code_def list_all_iff)
  have "\<forall>c \<in> set s. plain_char c" using all by (fastforce simp: plain_char_def)
  then have "TrimSpace s = s" using ne by (intro TrimSpace_id) simp_all
  moreover have "list_all is_ascii s" using all by (auto simp: list_all_iff is_ascii_def)
  moreover have "map ascii_upper s = s" using all by (intro map_idI) (auto simp: ascii_upper_def)
  ultimately show ?thesis by (simp add: Normalize_def ToUpper_def)
qed

lemma init_registry_iso:
  assumes "list_all (\<lambda>c. iso_code (c_Code c)) cs"
    and "distinct (map fst reg @ map c_Code cs)"
  shows "init_registry uc cs reg = Inr (reg @ map (\<lambda>c. (c_Code c, c)) cs)"
  using assms
proof (induction cs arbitrary: reg)
  case Nil
  then show ?case by simp
next
  case (Cons c cs)
  have n: "Normalize uc (c_Code c) = c_Code c" and l: "length (c_Code c) = 3"
    using Cons.prems(1) by (auto intro: iso_code_Normalize simp: iso_code_def)
  have fresh: "map_of reg (c_Code c) = None"
    using Cons.prems(2) by (auto simp: map_of_eq_None_iff)
  have "init_registry uc cs (reg @ [(c_Code c, c)]) =
      Inr ((reg @ [(c_Code c, c)]) @ map (\<lambda>c. (c_Code c, c)) cs)"
    using Cons.prems by (intro Cons.IH) auto
  then show ?case using n l fresh by (simp add: Let_def)
qed

lemma currencies_iso: "list_all (\<lambda>c. iso_code (c_Code c)) currencies_json"
  by code_simp

lemma currencies_ascending: "successively (<) (map c_Code currencies_json)"
  by code_simp

lemma currencies_distinct: "distinct (map c_Code currencies_json)"
  using currencies_ascending by (simp add: successively_conv_sorted_wrt strict_sorted_iff)

lemma currencies_exponents: "list_all (\<lambda>c. c_Exponent c \<le> 3) currencies_json"
  by code_simp

lemma init_registry_shipped:
  "init_registry uc currencies_json [] = Inr (map (\<lambda>c. (c_Code c, c)) currencies_json)"
  using init_registry_iso [OF currencies_iso, of "[]" uc] currencies_distinct by simp

lemma registry_eq: "registry uc = map (\<lambda>c. (c_Code c, c)) currencies_json"
  by (simp add: registry_def init_registry_shipped)

section \<open>Lookup\<close>

lemma Lookup_Some:
  assumes "Lookup uc code = Some c"
  shows "c \<in> set currencies_json" "c_Code c = Normalize uc code" "iso_code (c_Code c)" "c_Exponent c \<le> 3"
proof -
  have "(Normalize uc code, c) \<in> set (map (\<lambda>c. (c_Code c, c)) currencies_json)"
    using assms by (auto simp: Lookup_def registry_eq dest: map_of_SomeD)
  then show mem: "c \<in> set currencies_json" and "c_Code c = Normalize uc code" by auto
  show "iso_code (c_Code c)" using mem currencies_iso by (simp add: list_all_iff)
  show "c_Exponent c \<le> 3" using mem currencies_exponents by (simp add: list_all_iff)
qed

lemma Lookup_code:
  assumes "c \<in> set currencies_json" "Normalize uc code = c_Code c"
  shows "Lookup uc code = Some c"
  using assms currencies_distinct
  by (auto simp: Lookup_def registry_eq comp_def intro!: map_of_is_SomeI)



text \<open>One currency of the list, for examples.\<close>

definition demo_KES :: currency where "demo_KES = \<lparr>c_Code = ''KES'', c_Name = ''Kenyan Shilling'', c_Exponent = 2\<rparr>"

lemma demo_KES_mem: "demo_KES \<in> set currencies_json"
  by (simp add: currencies_json_def demo_KES_def)

lemma demo_KES_Lookup: "Lookup uc ''KES'' = Some demo_KES"
  using demo_KES_mem iso_code_Normalize [of "''KES''" uc] currencies_iso
  by (intro Lookup_code) (auto simp: list_all_iff demo_KES_def)

lemma demo_KES_Normalize: "Normalize uc ''KES'' = ''KES''"
  using demo_KES_mem iso_code_Normalize [of "''KES''" uc] currencies_iso by (auto simp: list_all_iff demo_KES_def)

end
