(* ===== verification/Money.thy ===== *)
theory Money
  imports Currency
begin

text \<open>
  \<open>types.Money\<close> (\<open>internal/types/money.go\<close>): decimal amounts of the API and their conversion
  to \<open>int64\<close> minor units. \<open>ParseMoney\<close>, \<open>money_String\<close>, \<open>UnmarshalJSON\<close>, \<open>MarshalJSON\<close> and \<open>Minor\<close>
  follow the source branch by branch; scales and exponents are the number of decimals and
  therefore \<open>nat\<close>. The lemmas give the two round trips (text and JSON), and that \<open>Minor\<close> is exact
  and fails only when no \<open>int64\<close> minor amount exists.
\<close>

record money =
  m_units :: int64
  m_scale :: nat
  m_set :: bool

datatype money_error =
    AmountEmpty
  | NotANumber
  | NotPlainDecimal string
  | TooManyDecimalPlaces string
  | AmountOutOfRange string
  | ExponentNotation string
  | MinorOutOfRange
  | MoreDecimalsThan string nat

definition money_zero :: money where
  "money_zero = \<lparr>m_units = 0, m_scale = 0, m_set = False\<rparr>"

definition MoneyFromMinor :: "int64 \<Rightarrow> nat \<Rightarrow> money" where
  "MoneyFromMinor minor exponent = \<lparr>m_units = minor, m_scale = exponent, m_set = True\<rparr>"

definition ParseMoney :: "string \<Rightarrow> money_error + money" where
  "ParseMoney s0 =
     (let s1 = TrimSpace s0 in
      if s1 = [] then Inl AmountEmpty else
      let signed = (hd s1 = CHR ''-'' \<or> hd s1 = CHR ''+'');
          neg = (hd s1 = CHR ''-'');
          s = (if signed then tl s1 else s1);
          (intPart0, fracPart, found) = Cut s (CHR ''.'') in
      if intPart0 = [] \<and> fracPart = [] then Inl NotANumber else
      let intPart = (if intPart0 = [] then ''0'' else intPart0) in
      if \<not> list_all is_digit (intPart @ fracPart) then Inl (NotPlainDecimal s) else
      if length fracPart > 8 then Inl (TooManyDecimalPlaces s) else
      (case ParseInt (intPart @ fracPart) of
         None \<Rightarrow> Inl (AmountOutOfRange s)
       | Some units \<Rightarrow> Inr \<lparr>m_units = (if neg then wrap64 (- units) else units),
                            m_scale = length fracPart, m_set = True\<rparr>))"

text \<open>The padding loop of \<open>String\<close>.\<close>

function pad_digits :: "nat \<Rightarrow> string \<Rightarrow> string" where
  "pad_digits scale digits =
     (if length digits \<le> scale then pad_digits scale (CHR ''0'' # digits) else digits)"
  by pat_completeness auto
termination
  by (relation "measure (\<lambda>(scale, digits). Suc scale - length digits)") auto

declare pad_digits.simps [simp del]

definition money_String :: "money \<Rightarrow> string" where
  "money_String m =
     (let neg = (m_units m < 0);
          abs = (if neg then wrap64 (- m_units m) else m_units m);
          digits = FormatInt abs in
      if m_scale m = 0 then (if neg then ''-'' @ digits else digits) else
      let padded = pad_digits (m_scale m) digits;
          out = take (length padded - m_scale m) padded @ ''.'' @ drop (length padded - m_scale m) padded
      in if neg then ''-'' @ out else out)"

text \<open>\<open>strings.Trim(s, quote)\<close>, then the rules for null and exponents.\<close>

definition trim_quotes :: "string \<Rightarrow> string" where
  "trim_quotes s = rev (dropWhile (\<lambda>c. c = CHR 0x22) (rev (dropWhile (\<lambda>c. c = CHR 0x22) s)))"

definition UnmarshalJSON :: "money \<Rightarrow> string \<Rightarrow> money_error + money" where
  "UnmarshalJSON m b =
     (let s = trim_quotes b in
      if s = ''null'' then Inr m
      else if CHR ''e'' \<in> set s \<or> CHR ''E'' \<in> set s then Inl (ExponentNotation s)
      else ParseMoney s)"

definition MarshalJSON :: "money \<Rightarrow> string" where
  "MarshalJSON m = money_String m"

definition IsSet :: "money \<Rightarrow> bool" where "IsSet m = m_set m"
definition IsZero :: "money \<Rightarrow> bool" where "IsZero m \<longleftrightarrow> m_units m = 0"
definition Negative :: "money \<Rightarrow> bool" where "Negative m \<longleftrightarrow> m_units m < 0"

text \<open>
  \<open>int64(math.Pow10(n))\<close>: exact up to \<open>10^18\<close>; beyond that the conversion overflows to the
  least \<open>int64\<close> (amd64). The service only reaches exponents up to 8.
\<close>

definition pow10 :: "nat \<Rightarrow> int64" where
  "pow10 n = (if n \<le> 18 then 10 ^ n else MinInt64)"

definition Minor :: "money \<Rightarrow> nat \<Rightarrow> money_error + int64" where
  "Minor m exponent =
     (if m_scale m = exponent then Inr (m_units m)
      else if m_scale m < exponent then
        (let factor = pow10 (exponent - m_scale m) in
         if m_units m > MaxInt64 sdiv factor \<or> m_units m < MinInt64 sdiv factor then Inl MinorOutOfRange
         else Inr (wrap64 (m_units m * factor)))
      else
        (let factor = pow10 (m_scale m - exponent) in
         if m_units m smod factor \<noteq> 0 then Inl (MoreDecimalsThan (money_String m) exponent)
         else Inr (m_units m sdiv factor)))"

section \<open>Text and back\<close>

lemma pad_digits_eq: "pad_digits scale digits = replicate (Suc scale - length digits) (CHR ''0'') @ digits"
proof (induction scale digits rule: pad_digits.induct)
  case (1 scale digits)
  show ?case
  proof (cases "length digits \<le> scale")
    case True
    then have "Suc scale - length digits = Suc (scale - length digits)" by simp
    with True "1" show ?thesis
      by (simp add: pad_digits.simps [of scale digits] replicate_append_same [symmetric])
  next
    case False
    then show ?thesis by (simp add: pad_digits.simps [of scale digits])
  qed
qed

lemma digits_value_zeros [simp]: "digits_value (replicate k (CHR ''0'') @ s) = digits_value s"
  by (induction k) simp_all

lemma pad_digits_props:
  assumes "list_all is_digit ds" "ds \<noteq> []"
  shows "list_all is_digit (pad_digits sc ds)" "digits_value (pad_digits sc ds) = digits_value ds"
    "length (pad_digits sc ds) > sc"
  using assms by (auto simp: pad_digits_eq list_all_iff is_digit_def)

lemma Cut_digits:
  assumes "list_all is_digit a"
  shows "Cut (a @ ''.'' @ b) (CHR ''.'') = (a, b, True)"
proof -
  have "\<forall>c \<in> set a. c \<noteq> CHR ''.''" using assms is_digit_not_sign by (auto simp: list_all_iff)
  then show ?thesis by (simp add: Cut_def takeWhile_append2 dropWhile_append2)
qed

lemma Cut_no_dot: "list_all is_digit a \<Longrightarrow> Cut a (CHR ''.'') = (a, [], False)"
  using is_digit_not_sign by (auto simp: Cut_def list_all_iff)

text \<open>Parsing an optional minus sign, an integer part and a fraction.\<close>

lemma ParseMoney_decimal:
  assumes i: "list_all is_digit i" "i \<noteq> []" and f: "list_all is_digit f" "length f \<le> 8"
    and rng: "int (digits_value (i @ f)) \<le> MaxInt64"
    and dot: "dot = (if f = [] then [] else ''.'')" and that: "sg = [] \<or> sg = ''-''"
  shows "ParseMoney (sg @ i @ dot @ f) = Inr \<lparr>m_units = (if sg = [] then 1 else - 1) * int (digits_value (i @ f)),
      m_scale = length f, m_set = True\<rparr>"
proof -
  let ?body = "i @ dot @ f"
  have body: "?body \<noteq> []" "is_digit (hd ?body)" "is_digit (last ?body)"
    using i f dot by (auto simp: list_all_iff last_append)
  have trim: "TrimSpace (sg @ ?body) = sg @ ?body"
    using that body is_digit_plain by (intro TrimSpace_id) (auto simp: plain_char_def)
  have cut: "\<exists>b. Cut ?body (CHR ''.'') = (i, f, b)"
    using Cut_digits [OF i(1), of f] Cut_no_dot [OF i(1)] dot by auto
  have pi: "ParseInt (i @ f) = Some (int (digits_value (i @ f)))"
    using i f rng by (simp add: ParseInt_digits)
  have wr: "wrap64 (- int (digits_value (i @ f))) = - int (digits_value (i @ f))"
    using rng by (intro wrap64_id) (simp add: is_int64_def MinInt64_def MaxInt64_def)
  have hd: "hd ?body \<noteq> CHR ''-''" "hd ?body \<noteq> CHR ''+''" using body(2) is_digit_not_sign by blast+
  from that show ?thesis
  proof
    assume "sg = []"
    with trim cut pi hd body(1) i f show ?thesis by (auto simp: ParseMoney_def Let_def)
  next
    assume "sg = ''-''"
    with trim cut pi wr body(1) i f show ?thesis by (auto simp: ParseMoney_def Let_def)
  qed
qed

lemma money_String_shape:
  assumes "is_int64 (m_units m)" "m_units m \<noteq> MinInt64"
  obtains i f where "money_String m = (if m_units m < 0 then ''-'' else []) @ i @ (if f = [] then [] else ''.'') @ f"
    "list_all is_digit i" "i \<noteq> []" "list_all is_digit f" "length f = m_scale m"
    "int (digits_value (i @ f)) = \<bar>m_units m\<bar>"
proof -
  define ds where "ds = nat_digits (nat \<bar>m_units m\<bar>)"
  have abs: "(if m_units m < 0 then wrap64 (- m_units m) else m_units m) = \<bar>m_units m\<bar>"
    using assms by (auto simp: is_int64_def MinInt64_def MaxInt64_def intro!: wrap64_id)
  have fmt: "m_units m < 0 \<Longrightarrow> FormatInt (wrap64 (- m_units m)) = ds"
    "\<not> m_units m < 0 \<Longrightarrow> FormatInt (m_units m) = ds"
    using abs by (auto simp: FormatInt_def ds_def)
  have ds: "list_all is_digit ds" "ds \<noteq> []" "int (digits_value ds) = \<bar>m_units m\<bar>"
    by (simp_all add: ds_def nat_digits_digits)
  show thesis
  proof (cases "m_scale m = 0")
    case True
    show thesis
      by (rule that [of ds "[]"]) (use True ds fmt in \<open>auto simp: money_String_def Let_def\<close>)
  next
    case False
    define p where "p = pad_digits (m_scale m) ds"
    have p: "list_all is_digit p" "digits_value p = digits_value ds" "length p > m_scale m"
      using pad_digits_props [OF ds(1,2)] by (simp_all add: p_def)
    define i f where "i = take (length p - m_scale m) p" and "f = drop (length p - m_scale m) p"
    have if_p: "i @ f = p" by (simp add: i_def f_def)
    have "length f = m_scale m" "i \<noteq> []" using p(3) by (auto simp: i_def f_def)
    moreover have "list_all is_digit i" "list_all is_digit f"
      using p(1) if_p by (metis list_all_append)+
    moreover have "money_String m = (if m_units m < 0 then ''-'' else []) @ i @ ''.'' @ f"
      using False fmt by (auto simp: money_String_def Let_def p_def i_def f_def)
    moreover have "int (digits_value (i @ f)) = \<bar>m_units m\<bar>" using if_p p(2) ds(3) by simp
    ultimately show thesis using False by (intro that [of i f]) auto
  qed
qed

lemma trim_quotes_id: "CHR 0x22 \<notin> set s \<Longrightarrow> trim_quotes s = s"
proof -
  have drop: "x \<notin> set t \<Longrightarrow> dropWhile (\<lambda>c. c = x) t = t" for x :: char and t
    by (cases t) auto
  assume "CHR 0x22 \<notin> set s"
  then show ?thesis by (simp add: trim_quotes_def drop)
qed

text \<open>
  Claim C28. Printing an amount and parsing the text gives the amount back, for every value except
  the least \<open>int64\<close> and every scale the parser accepts; the same holds for its JSON form.
\<close>

theorem money_text_roundtrip:
  assumes "is_int64 (m_units m)" "m_units m \<noteq> MinInt64" "m_scale m \<le> 8"
  shows "ParseMoney (money_String m) = Inr (m\<lparr>m_set := True\<rparr>) \<and>
    UnmarshalJSON m0 (MarshalJSON m) = Inr (m\<lparr>m_set := True\<rparr>)"
proof -
  obtain i f where sh: "money_String m = (if m_units m < 0 then ''-'' else []) @ i @ (if f = [] then [] else ''.'') @ f"
    and i: "list_all is_digit i" "i \<noteq> []" and f: "list_all is_digit f" "length f = m_scale m"
    and v: "int (digits_value (i @ f)) = \<bar>m_units m\<bar>"
    using money_String_shape [OF assms(1,2)] .
  have "\<bar>m_units m\<bar> \<le> MaxInt64"
    using assms(1,2) by (auto simp: is_int64_def MinInt64_def MaxInt64_def)
  with v have "int (digits_value (i @ f)) \<le> MaxInt64" by simp
  note P = ParseMoney_decimal [OF i f(1) _ this refl, of "if m_units m < 0 then ''-'' else []"]
  have parse: "ParseMoney (money_String m) = Inr (m\<lparr>m_set := True\<rparr>)"
    unfolding sh using P assms(3) f v by (auto split: if_splits)
  have chars: "\<forall>c \<in> set (money_String m). is_digit c \<or> c = CHR ''-'' \<or> c = CHR ''.''"
    using i(1) f(1) unfolding sh by (auto simp: list_all_iff split: if_splits)
  then have "CHR 0x22 \<notin> set (money_String m)" "CHR ''e'' \<notin> set (money_String m)"
    "CHR ''E'' \<notin> set (money_String m)" "CHR ''n'' \<notin> set (money_String m)"
    by (auto simp: is_digit_def)
  then have "trim_quotes (money_String m) = money_String m" "money_String m \<noteq> ''null''"
    by (auto intro: trim_quotes_id)
  with parse \<open>CHR ''e'' \<notin> _\<close> \<open>CHR ''E'' \<notin> _\<close> show ?thesis
    by (simp add: UnmarshalJSON_def MarshalJSON_def Let_def)
qed

theorem money_text_roundtrip_witness:
  "is_int64 (- 11005) \<and> money_String \<lparr>m_units = - 11005, m_scale = 2, m_set = True\<rparr> = ''-110.05'' \<and>
   ParseMoney ''-110.05'' = Inr \<lparr>m_units = - 11005, m_scale = 2, m_set = True\<rparr>"
proof -
  let ?m = "\<lparr>m_units = - 11005, m_scale = 2, m_set = True\<rparr>"
  have s: "money_String ?m = ''-110.05''"
    by (simp add: money_String_def Let_def FormatInt_def wrap64_def pad_digits.simps nat_digits.simps)
  have "ParseMoney (money_String ?m) = Inr (?m\<lparr>m_set := True\<rparr>)"
    using money_text_roundtrip [of ?m money_zero] by (simp add: is_int64_def MinInt64_def MaxInt64_def)
  then show ?thesis using s by (simp add: is_int64_def MinInt64_def MaxInt64_def)
qed

section \<open>Minor units\<close>

lemma pow10_pos: "n \<le> 18 \<Longrightarrow> pow10 n = 10 ^ n \<and> 0 < pow10 n"
  by (simp add: pow10_def)

lemma le_div_iff_int: "0 < f \<Longrightarrow> (u :: int) \<le> m div f \<longleftrightarrow> u * f \<le> m"
  by (smt (verit) div_mult_mod_eq mult_less_cancel_right nonzero_mult_div_cancel_right pos_mod_sign zdiv_mono1)

lemma sdiv_pos_bounds:
  fixes u f :: int
  assumes "0 < f"
  shows "u \<le> MaxInt64 sdiv f \<and> MinInt64 sdiv f \<le> u \<longleftrightarrow> is_int64 (u * f)"
proof -
  have "MaxInt64 sdiv f = MaxInt64 div f"
    using assms by (simp add: signed_divide_int_def MaxInt64_def sgn_if)
  moreover have "MinInt64 sdiv f = - ((2 ^ 63) div f)"
    using assms by (simp add: signed_divide_int_def MinInt64_def sgn_if)
  moreover have "u \<le> MaxInt64 div f \<longleftrightarrow> u * f \<le> MaxInt64"
    using assms by (simp add: le_div_iff_int)
  moreover have "- ((2 ^ 63) div f) \<le> u \<longleftrightarrow> - (2 ^ 63) \<le> u * f"
    using assms le_div_iff_int [of f "- u" "2 ^ 63"] by (simp add: minus_le_iff)
  ultimately show ?thesis by (auto simp: is_int64_def MinInt64_def)
qed

lemma smod_zero_iff: "0 < f \<Longrightarrow> (u :: int) smod f = 0 \<longleftrightarrow> f dvd u"
  by (auto simp: signed_modulo_int_def signed_divide_int_def sgn_if dvd_div_mult_self)

text \<open>
  Claim C27. The conversion to minor units is exact and complete: it yields \<open>v\<close> precisely when \<open>v\<close> is
  the one \<open>int64\<close> whose value at the currency's exponent equals the decimal amount, and it fails
  precisely when there is none (excess precision or overflow). In particular it depends on the
  amount's value only, not on how many decimals the caller wrote.
\<close>

theorem Minor_exact:
  assumes "is_int64 (m_units m)" "m_scale m \<le> 18" "e \<le> 18"
  shows "(Minor m e = Inr v) = (is_int64 v \<and> v * 10 ^ m_scale m = m_units m * 10 ^ e)"
proof -
  consider "m_scale m = e" | "m_scale m < e" | "e < m_scale m" by linarith
  then show ?thesis
  proof cases
    case 1
    with assms show ?thesis by (auto simp: Minor_def)
  next
    case 2
    define f where "f = pow10 (e - m_scale m)"
    have f: "f = 10 ^ (e - m_scale m)" "0 < f" using assms pow10_pos [of "e - m_scale m"] by (simp_all add: f_def)
    have "(10 :: int) ^ e = f * 10 ^ m_scale m" using 2 by (simp add: f power_add [symmetric])
    then have rhs: "v * 10 ^ m_scale m = m_units m * 10 ^ e \<longleftrightarrow> v = m_units m * f" by simp
    have "Minor m e = (if is_int64 (m_units m * f) then Inr (wrap64 (m_units m * f)) else Inl MinorOutOfRange)"
      using 2 sdiv_pos_bounds [OF f(2), of "m_units m"]
      by (auto simp: Minor_def Let_def f_def [symmetric] not_less not_le)
    then show ?thesis using rhs by (auto simp: wrap64_id)
  next
    case 3
    define f where "f = pow10 (m_scale m - e)"
    have f: "f = 10 ^ (m_scale m - e)" "0 < f" using assms pow10_pos [of "m_scale m - e"] by (simp_all add: f_def)
    have "(10 :: int) ^ m_scale m = f * 10 ^ e" using 3 by (simp add: f power_add [symmetric])
    then have rhs: "v * 10 ^ m_scale m = m_units m * 10 ^ e \<longleftrightarrow> m_units m = v * f" by auto
    have min: "Minor m e = (if f dvd m_units m then Inr (m_units m sdiv f)
        else Inl (MoreDecimalsThan (money_String m) e))"
      using 3 smod_zero_iff [OF f(2)] by (simp add: Minor_def Let_def f_def [symmetric])
    show ?thesis
    proof (cases "f dvd m_units m")
      case True
      then obtain k where k: "m_units m = f * k" ..
      have "m_units m sdiv f = k"
        using f(2) by (auto simp: k signed_divide_int_def sgn_if abs_mult zero_less_mult_iff mult_less_0_iff)
      moreover have "is_int64 k"
        using assms(1) f(2) k unfolding is_int64_def MinInt64_def MaxInt64_def
        by (smt (verit) mult_le_cancel_right1 mult_less_cancel_right1 mult.commute)
      ultimately show ?thesis using min True rhs k f(2) by auto
    next
      case False
      with min rhs show ?thesis by auto
    qed
  qed
qed

theorem Minor_exact_witness:
  "Minor \<lparr>m_units = 110, m_scale = 0, m_set = True\<rparr> 2 = Inr 11000"
  using Minor_exact [of "\<lparr>m_units = 110, m_scale = 0, m_set = True\<rparr>" 2 11000]
  by (simp add: is_int64_def MinInt64_def MaxInt64_def)

end
