(* ===== verification/Models.thy ===== *)
theory Models
  imports Money
begin

text \<open>
  The rows and enumerations of \<open>internal/models\<close> and the actor messages of \<open>proto/actors\<close>.
  Go's string types stay strings, because the code converts unchecked strings into them;
  their constants are definitions with the distinctness facts in \<open>status_simps\<close>. A pointer that may
  be nil is an \<open>option\<close>. The \<open>transactions.transfers\<close> column is JSONB, so it holds a
  \<open>json\<close> value; \<open>EncodeTransferLegs\<close> and \<open>DecodeTransferLegs\<close> translate legs to and from it.
\<close>

section \<open>Enumerations\<close>

type_synonym ledger_type = string
type_synonym wallet_status = string
type_synonym transaction_type = string
type_synonym transaction_status = string
type_synonym profile_type = string

definition LedgerTypeDebit :: ledger_type where "LedgerTypeDebit = ''debit''"
definition LedgerTypeCredit :: ledger_type where "LedgerTypeCredit = ''credit''"

definition Opposite :: "ledger_type \<Rightarrow> ledger_type" where
  "Opposite t = (if t = LedgerTypeDebit then LedgerTypeCredit else LedgerTypeDebit)"

definition WalletStatusActive :: wallet_status where "WalletStatusActive = ''active''"
definition WalletStatusSuspended :: wallet_status where "WalletStatusSuspended = ''suspended''"
definition WalletStatusFrozen :: wallet_status where "WalletStatusFrozen = ''frozen''"
definition WalletStatusClosed :: wallet_status where "WalletStatusClosed = ''closed''"

definition TransactionTypeTransfer :: transaction_type where "TransactionTypeTransfer = ''transfer''"
definition TransactionTypeReversal :: transaction_type where "TransactionTypeReversal = ''reversal''"

definition TransactionStatusPending :: transaction_status where "TransactionStatusPending = ''pending''"
definition TransactionStatusProcessing :: transaction_status where "TransactionStatusProcessing = ''processing''"
definition TransactionStatusSuccess :: transaction_status where "TransactionStatusSuccess = ''success''"
definition TransactionStatusFailed :: transaction_status where "TransactionStatusFailed = ''failed''"
definition TransactionStatusReversed :: transaction_status where "TransactionStatusReversed = ''reversed''"

lemma ledger_type_distinct [simp, status_simps]:
  "LedgerTypeDebit \<noteq> LedgerTypeCredit" "LedgerTypeCredit \<noteq> LedgerTypeDebit"
  by (simp_all add: LedgerTypeDebit_def LedgerTypeCredit_def)

lemma Opposite_simps [simp]:
  "Opposite LedgerTypeDebit = LedgerTypeCredit" "Opposite LedgerTypeCredit = LedgerTypeDebit"
  by (simp_all add: Opposite_def)

lemma Opposite_neq [simp]: "Opposite t \<noteq> t" "t \<noteq> Opposite t"
  by (auto simp: Opposite_def)

lemma transaction_status_distinct [simp, status_simps]:
  "TransactionStatusPending \<noteq> TransactionStatusProcessing" "TransactionStatusProcessing \<noteq> TransactionStatusPending"
  "TransactionStatusPending \<noteq> TransactionStatusSuccess" "TransactionStatusSuccess \<noteq> TransactionStatusPending"
  "TransactionStatusPending \<noteq> TransactionStatusFailed" "TransactionStatusFailed \<noteq> TransactionStatusPending"
  "TransactionStatusProcessing \<noteq> TransactionStatusSuccess" "TransactionStatusSuccess \<noteq> TransactionStatusProcessing"
  "TransactionStatusProcessing \<noteq> TransactionStatusFailed" "TransactionStatusFailed \<noteq> TransactionStatusProcessing"
  "TransactionStatusSuccess \<noteq> TransactionStatusFailed" "TransactionStatusFailed \<noteq> TransactionStatusSuccess"
  "TransactionStatusSuccess \<noteq> TransactionStatusReversed" "TransactionStatusReversed \<noteq> TransactionStatusSuccess"
  "TransactionStatusFailed \<noteq> TransactionStatusReversed" "TransactionStatusReversed \<noteq> TransactionStatusFailed"
  by (simp_all add: TransactionStatusPending_def TransactionStatusProcessing_def TransactionStatusSuccess_def
      TransactionStatusFailed_def TransactionStatusReversed_def)

section \<open>Rows\<close>

record profile =
  p_ID :: uuid
  p_ExternalID :: string
  p_Type :: profile_type
  p_FullName :: string
  p_Email :: string
  p_Phone :: "string option"
  p_Metadata :: string
  p_CreatedAt :: time
  p_UpdatedAt :: time

record wallet =
  w_ID :: uuid
  w_Number :: string
  w_ProfileID :: uuid
  w_MerchantID :: "uuid option"
  w_Status :: wallet_status
  w_Currency :: string
  w_AvailableBalance :: int64
  w_ProcessingBalance :: int64
  w_ActualBalance :: int64
  w_Checksum :: string
  w_Version :: int64
  w_CreatedAt :: time
  w_UpdatedAt :: time
  w_Profile :: profile
  w_Merchant :: "profile option"

record ledger =
  l_ID :: int64
  l_WalletID :: uuid
  l_TransactionID :: uuid
  l_IdempotencyKey :: "uuid option"
  l_Type :: ledger_type
  l_Purpose :: string
  l_Amount :: int64
  l_Currency :: string
  l_InitialBalance :: int64
  l_UpdatedBalance :: int64
  l_CreatedAt :: time

record wallet_movement =
  mv_WalletID :: uuid
  mv_Currency :: string
  mv_InitialBalance :: int64
  mv_UpdatedBalance :: int64
  mv_Entries :: int

record transfer_leg =
  tl_WalletID :: uuid
  tl_Action :: ledger_type
  tl_Amount :: int64
  tl_Purpose :: string
  tl_IsFee :: bool
  tl_IsInitial :: bool
  tl_IdempotencyKey :: uuid
  tl_ReversalKey :: "uuid option"

datatype json = JNull | JBool bool | JInt int | JStr string | JArr "json list" | JObj "(string \<times> json) list"

record transaction =
  tx_ID :: uuid
  tx_MerchantID :: "uuid option"
  tx_MerchantFrom :: "uuid option"
  tx_MerchantTo :: "uuid option"
  tx_ProfileFrom :: "uuid option"
  tx_ProfileTo :: "uuid option"
  tx_SenderName :: "string option"
  tx_ReceiverName :: "string option"
  tx_SenderMerchant :: "string option"
  tx_ReceiverMerchant :: "string option"
  tx_AccountFrom :: "string option"
  tx_AccountTo :: "string option"
  tx_WalletFrom :: "uuid option"
  tx_WalletTo :: "uuid option"
  tx_Amount :: int64
  tx_Currency :: string
  tx_Fee :: int64
  tx_Type :: transaction_type
  tx_Status :: transaction_status
  tx_Purpose :: "string option"
  tx_RRN :: string
  tx_OrderID :: "string option"
  tx_ProviderRef :: "string option"
  tx_CallbackURL :: "string option"
  tx_Transfers :: "json option"
  tx_Narration :: string
  tx_Description :: "string option"
  tx_IsCompleted :: bool
  tx_DateCompleted :: "time option"
  tx_CreatedAt :: time
  tx_UpdatedAt :: time

section \<open>Actor messages\<close>

record TransferEntry =
  te_WalletId :: string
  te_Action :: string
  te_Amount :: int64
  te_Purpose :: string
  te_IdempotencyKey :: string
  te_ReversalKey :: string
  te_IsFee :: bool
  te_IsInitial :: bool

record StartTransactionMsg =
  sm_TransactionId :: string
  sm_CreatedAtUnix :: int64
  sm_Transfers :: "TransferEntry list"
  sm_Resume :: bool

text \<open>The fields shared by \<open>CreditWalletMsg\<close> and \<open>DebitWalletMsg\<close>.\<close>

record wallet_op =
  wo_WalletId :: string
  wo_Amount :: int64
  wo_Purpose :: string
  wo_TransactionId :: string
  wo_IdempotencyKey :: string

datatype wallet_msg = CreditWalletMsg wallet_op | DebitWalletMsg wallet_op

record WalletResultMsg =
  rm_TransactionId :: string
  rm_WalletId :: string
  rm_IdempotencyKey :: string
  rm_InitialBalance :: int64
  rm_UpdatedBalance :: int64
  rm_Amount :: int64
  rm_ErrorCode :: string
  rm_ErrorMessage :: string

text \<open>The message the TransactionActor sends itself, with its \<open>transaction_id\<close>.\<close>

datatype self_msg = FinalizeTransactionMsg string

primrec wallet_msg_op :: "wallet_msg \<Rightarrow> wallet_op" where
  "wallet_msg_op (CreditWalletMsg m) = m"
| "wallet_msg_op (DebitWalletMsg m) = m"

primrec wallet_msg_action :: "wallet_msg \<Rightarrow> ledger_type" where
  "wallet_msg_action (CreditWalletMsg m) = LedgerTypeCredit"
| "wallet_msg_action (DebitWalletMsg m) = LedgerTypeDebit"

section \<open>Legs as JSON\<close>

text \<open>\<open>uuid.UUID\<close> is marshalled through its text form.\<close>

definition encode_leg :: "(uuid \<Rightarrow> string) \<Rightarrow> transfer_leg \<Rightarrow> json" where
  "encode_leg str l = JObj
     ([(''wallet_id'', JStr (str (tl_WalletID l))),
       (''action'', JStr (tl_Action l)),
       (''amount'', JInt (tl_Amount l)),
       (''purpose'', JStr (tl_Purpose l)),
       (''is_fee'', JBool (tl_IsFee l)),
       (''is_initial'', JBool (tl_IsInitial l)),
       (''idempotency_key'', JStr (str (tl_IdempotencyKey l)))]
      @ (case tl_ReversalKey l of None \<Rightarrow> [] | Some k \<Rightarrow> [(''reversal_key'', JStr (str k))]))"

definition EncodeTransferLegs :: "(uuid \<Rightarrow> string) \<Rightarrow> transfer_leg list \<Rightarrow> json" where
  "EncodeTransferLegs str legs = JArr (map (encode_leg str) legs)"

text \<open>
  Decoding one struct field: an absent or null field keeps the zero value, a value of another JSON
  type is an error (\<open>None\<close>).
\<close>

definition dec_field :: "(string \<times> json) list \<Rightarrow> string \<Rightarrow> 'a \<Rightarrow> (json \<Rightarrow> 'a option) \<Rightarrow> 'a option" where
  "dec_field obj k zero dec = (case map_of (rev obj) k of
      None \<Rightarrow> Some zero | Some JNull \<Rightarrow> Some zero | Some v \<Rightarrow> dec v)"

definition dec_str :: "json \<Rightarrow> string option" where
  "dec_str v = (case v of JStr s \<Rightarrow> Some s | _ \<Rightarrow> None)"

definition dec_bool :: "json \<Rightarrow> bool option" where
  "dec_bool v = (case v of JBool b \<Rightarrow> Some b | _ \<Rightarrow> None)"

definition dec_int :: "json \<Rightarrow> int64 option" where
  "dec_int v = (case v of JInt i \<Rightarrow> if is_int64 i then Some i else None | _ \<Rightarrow> None)"

definition dec_uuid :: "(string \<Rightarrow> uuid option) \<Rightarrow> json \<Rightarrow> uuid option" where
  "dec_uuid parse v = (case v of JStr s \<Rightarrow> parse s | _ \<Rightarrow> None)"

definition decode_leg :: "(string \<Rightarrow> uuid option) \<Rightarrow> json \<Rightarrow> transfer_leg option" where
  "decode_leg parse v = (case v of
      JObj obj \<Rightarrow> do {
        w \<leftarrow> dec_field obj ''wallet_id'' uuid_Nil (dec_uuid parse);
        a \<leftarrow> dec_field obj ''action'' [] dec_str;
        n \<leftarrow> dec_field obj ''amount'' 0 dec_int;
        p \<leftarrow> dec_field obj ''purpose'' [] dec_str;
        f \<leftarrow> dec_field obj ''is_fee'' False dec_bool;
        i \<leftarrow> dec_field obj ''is_initial'' False dec_bool;
        k \<leftarrow> dec_field obj ''idempotency_key'' uuid_Nil (dec_uuid parse);
        r \<leftarrow> dec_field obj ''reversal_key'' None (\<lambda>v. map_option Some (dec_uuid parse v));
        Some \<lparr>tl_WalletID = w, tl_Action = a, tl_Amount = n, tl_Purpose = p, tl_IsFee = f, tl_IsInitial = i,
              tl_IdempotencyKey = k, tl_ReversalKey = r\<rparr> }
    | JNull \<Rightarrow> Some \<lparr>tl_WalletID = uuid_Nil, tl_Action = [], tl_Amount = 0, tl_Purpose = [], tl_IsFee = False,
              tl_IsInitial = False, tl_IdempotencyKey = uuid_Nil, tl_ReversalKey = None\<rparr>
    | _ \<Rightarrow> None)"

fun decode_legs :: "(string \<Rightarrow> uuid option) \<Rightarrow> json list \<Rightarrow> transfer_leg list option" where
  "decode_legs parse [] = Some []"
| "decode_legs parse (v # vs) = do { l \<leftarrow> decode_leg parse v; ls \<leftarrow> decode_legs parse vs; Some (l # ls) }"

definition DecodeTransferLegs :: "(string \<Rightarrow> uuid option) \<Rightarrow> json option \<Rightarrow> transfer_leg list option" where
  "DecodeTransferLegs parse raw = (case raw of
      None \<Rightarrow> Some []
    | Some JNull \<Rightarrow> Some []
    | Some (JArr vs) \<Rightarrow> decode_legs parse vs
    | Some _ \<Rightarrow> None)"

lemma decode_encode_leg:
  assumes "\<And>u. parse (str u) = Some u" "is_int64 (tl_Amount l)"
  shows "decode_leg parse (encode_leg str l) = Some l"
  using assms
  by (cases l; cases "tl_ReversalKey l")
    (simp_all add: decode_leg_def encode_leg_def dec_field_def dec_uuid_def dec_str_def dec_int_def dec_bool_def)

lemma DecodeTransferLegs_Encode:
  assumes "\<And>u. parse (str u) = Some u" "\<forall>l \<in> set legs. is_int64 (tl_Amount l)"
  shows "DecodeTransferLegs parse (Some (EncodeTransferLegs str legs)) = Some legs"
proof -
  have "decode_legs parse (map (encode_leg str) legs) = Some legs"
    using assms(2) by (induction legs) (simp_all add: decode_encode_leg assms(1))
  then show ?thesis by (simp add: DecodeTransferLegs_def EncodeTransferLegs_def)
qed

end
