(* ===== verification/Store.thy ===== *)
theory Store
  imports Models
begin

text \<open>
  What the components share: the outside world of a handler (\<open>ctx\<close>), the state they
  act on (\<open>world\<close>: the database tables and the effects sent out), the error values of
  \<open>internal/actors/types.go\<close> and the cache keys of \<open>dpk/cache/keys.go\<close>.

  A \<open>ctx\<close> holds the functions of code outside the repository (UUID text form, SHA-256, Unicode case
  mapping) and the choices the environment makes while a handler runs: fresh UUIDs and reference numbers, whether the
  cluster can place an actor (\<open>placed\<close>, by lookup and identity), the outcome of every database and cache round trip, and out-of-band writes
  to the wallets table. The environment's choices are indexed by counters of the world, so
  one \<open>ctx\<close> describes an arbitrary sequence of outcomes. A round trip may fail before it has an
  effect (\<open>Failed\<close>), or commit and lose its acknowledgement (\<open>LostAck\<close>).
\<close>

section \<open>The environment\<close>

datatype fault = NoFault | Failed string | LostAck string

type_synonym wallet_table = "uuid \<Rightarrow> wallet option"

record ctx =
  parse_uuid :: "string \<Rightarrow> uuid option"
  str_uuid :: "uuid \<Rightarrow> string"
  unicode_upper :: "string \<Rightarrow> string"
  unicode_lower :: "string \<Rightarrow> string"
  sha256_hex :: "string \<Rightarrow> string"
  new_uuid :: "nat \<Rightarrow> uuid"
  new_rrn :: "nat \<Rightarrow> string"
  placed :: "nat \<Rightarrow> uuid \<Rightarrow> bool"
  fault :: "nat \<Rightarrow> fault"
  cache_fault :: "nat \<Rightarrow> fault"
  interfere :: "nat \<Rightarrow> wallet_table \<Rightarrow> wallet_table"
  now :: time

text \<open>The documented behaviour of \<open>uuid.Parse\<close> and \<open>UUID.String\<close> the code relies on.\<close>

definition uuid_codec :: "ctx \<Rightarrow> bool" where
  "uuid_codec c \<longleftrightarrow> (\<forall>u. parse_uuid c (str_uuid c u) = Some u \<and> str_uuid c u \<noteq> [] \<and>
      CHR '':'' \<notin> set (str_uuid c u))"

text \<open>No out-of-band writes; no database errors.\<close>

definition quiet :: "ctx \<Rightarrow> bool" where "quiet c \<longleftrightarrow> (\<forall>n t. interfere c n t = t)"
definition faultless :: "ctx \<Rightarrow> bool" where "faultless c \<longleftrightarrow> (\<forall>n. fault c n = NoFault)"

lemma uuid_codecD:
  assumes "uuid_codec c"
  shows "parse_uuid c (str_uuid c u) = Some u" "str_uuid c u \<noteq> []" "CHR '':'' \<notin> set (str_uuid c u)"
  using assms by (simp_all add: uuid_codec_def)

lemma str_uuid_inject: "uuid_codec c \<Longrightarrow> str_uuid c u = str_uuid c v \<longleftrightarrow> u = v"
  using uuid_codecD(1) by (metis option.inject)

section \<open>The world\<close>

record world =
  wallets :: wallet_table
  ledgers :: "ledger list"
  txns :: "transaction list"
  outbox :: "(uuid \<times> wallet_msg) list"
  selfbox :: "self_msg list"
  txbox :: "(uuid \<times> StartTransactionMsg) list"
  notices :: "(transaction \<times> wallet_movement list option) list"
  evicted :: "string list"
  poisoned :: bool
  n_db :: nat
  n_pid :: nat
  n_uuid :: nat
  n_rrn :: nat

text \<open>One database round trip: its outcome, and the counter moves on.\<close>

definition db_call :: "ctx \<Rightarrow> world \<Rightarrow> fault \<times> world" where
  "db_call c w = (fault c (n_db w), w\<lparr>n_db := Suc (n_db w)\<rparr>)"

text \<open>\<open>UPDATE transactions SET f WHERE P\<close>: the rows affected and the new table.\<close>

definition update_txns :: "(transaction \<Rightarrow> bool) \<Rightarrow> (transaction \<Rightarrow> transaction) \<Rightarrow> world \<Rightarrow> nat \<times> world" where
  "update_txns P f w = (length (filter P (txns w)),
     w\<lparr>txns := map (\<lambda>t. if P t then f t else t) (txns w)\<rparr>)"

text \<open>\<open>cache.Delete(keys...)\<close> as a request to the cache.\<close>

definition cache_Delete :: "string list \<Rightarrow> world \<Rightarrow> world" where
  "cache_Delete ks w = w\<lparr>evicted := evicted w @ ks\<rparr>"

definition WalletKey :: "string \<Rightarrow> string" where "WalletKey i = ''wallet:id:'' @ i"
definition WalletNumberKey :: "string \<Rightarrow> string" where "WalletNumberKey n = ''wallet:number:'' @ n"
definition WalletMetaKey :: "string \<Rightarrow> string" where "WalletMetaKey i = ''wallet:meta:'' @ i"
definition ProfileKey :: "string \<Rightarrow> string" where "ProfileKey i = ''profile:id:'' @ i"
definition ProfileUsernameKey :: "string \<Rightarrow> string" where "ProfileUsernameKey u = ''profile:username:'' @ u"
definition TransactionKey :: "string \<Rightarrow> string" where "TransactionKey i = ''txn:id:'' @ i"
definition TransactionRRNKey :: "string \<Rightarrow> string" where "TransactionRRNKey r = ''txn:rrn:'' @ r"
definition TransactionOrderKey :: "string \<Rightarrow> string" where "TransactionOrderKey d = ''txn:order:'' @ d"

section \<open>Error codes\<close>

type_synonym error_code = string

definition CodeInsufficientFunds :: error_code where "CodeInsufficientFunds = ''insufficient_funds''"
definition CodeInactiveWallet :: error_code where "CodeInactiveWallet = ''inactive_wallet''"
definition CodeWalletNotFound :: error_code where "CodeWalletNotFound = ''wallet_not_found''"
definition CodeWalletMismatch :: error_code where "CodeWalletMismatch = ''wallet_mismatch''"
definition CodeChecksumMismatch :: error_code where "CodeChecksumMismatch = ''checksum_mismatch''"
definition CodeVersionConflict :: error_code where "CodeVersionConflict = ''version_conflict''"
definition CodeInvalidMessage :: error_code where "CodeInvalidMessage = ''invalid_message''"
definition CodeClusterUnavailable :: error_code where "CodeClusterUnavailable = ''cluster_unavailable''"
definition CodeUndeliverable :: error_code where "CodeUndeliverable = ''undeliverable''"
definition CodeTimeout :: error_code where "CodeTimeout = ''timeout''"
definition CodeInternal :: error_code where "CodeInternal = ''internal_error''"

lemmas error_code_defs = CodeInsufficientFunds_def CodeInactiveWallet_def CodeWalletNotFound_def
  CodeWalletMismatch_def CodeChecksumMismatch_def CodeVersionConflict_def CodeInvalidMessage_def
  CodeClusterUnavailable_def CodeUndeliverable_def CodeTimeout_def CodeInternal_def

definition Definitive :: "error_code \<Rightarrow> bool" where
  "Definitive code \<longleftrightarrow> code \<in> {CodeInsufficientFunds, CodeInactiveWallet, CodeWalletNotFound,
     CodeWalletMismatch, CodeChecksumMismatch, CodeInvalidMessage}"

record wallet_error =
  e_Code :: error_code
  e_Message :: string

text \<open>A Go \<open>error\<close> value: a \<open>*WalletError\<close> or another error with its text.\<close>

datatype go_error = WalletErr wallet_error | OtherErr string

definition newWalletError :: "error_code \<Rightarrow> string \<Rightarrow> go_error" where
  "newWalletError code msg = WalletErr \<lparr>e_Code = code, e_Message = msg\<rparr>"

definition wallet_error_Error :: "wallet_error \<Rightarrow> string" where
  "wallet_error_Error e = (if e_Message e = [] then e_Code e else e_Code e @ '': '' @ e_Message e)"

fun go_error_text :: "go_error \<Rightarrow> string" where
  "go_error_text (WalletErr e) = wallet_error_Error e"
| "go_error_text (OtherErr s) = s"

fun wrapInternal :: "go_error \<Rightarrow> wallet_error" where
  "wrapInternal (WalletErr e) = e"
| "wrapInternal (OtherErr s) = \<lparr>e_Code = CodeInternal, e_Message = s\<rparr>"

definition humanMessage :: "error_code \<Rightarrow> string \<Rightarrow> string" where
  "humanMessage code msg =
     (if code = CodeInsufficientFunds then ''insufficient funds''
      else if code = CodeInactiveWallet then ''inactive wallet''
      else if code = CodeWalletNotFound then ''wallet not found''
      else if code = CodeChecksumMismatch then ''wallet integrity check failed''
      else if code = CodeVersionConflict then ''wallet was modified concurrently''
      else if code = CodeClusterUnavailable then ''wallet actor unavailable''
      else if code = CodeUndeliverable then ''wallet message could not be delivered''
      else if code = CodeTimeout then ''wallet did not respond in time''
      else if msg \<noteq> [] then msg else code)"

lemma Definitive_nonempty: "Definitive code \<Longrightarrow> code \<noteq> []"
  by (auto simp: Definitive_def error_code_defs)

lemma not_Definitive [simp]:
  "\<not> Definitive CodeInternal" "\<not> Definitive CodeVersionConflict" "\<not> Definitive CodeUndeliverable" "\<not> Definitive []"
  by (simp_all add: Definitive_def error_code_defs)

lemma code_nonempty [simp]: "CodeInternal \<noteq> []" "CodeVersionConflict \<noteq> []" "CodeUndeliverable \<noteq> []" "CodeInvalidMessage \<noteq> []"
  by (simp_all add: error_code_defs)

section \<open>A concrete environment\<close>

text \<open>
  An instance of the outside functions, used to show that the hypotheses on them can hold: UUIDs in
  decimal, the identity for the digest, no failures. \<open>empty_world\<close> is a database with no rows.
\<close>

definition demo_ctx :: ctx where
  "demo_ctx = \<lparr>parse_uuid = (\<lambda>s. if s \<noteq> [] \<and> list_all is_digit s then Some (of_nat (digits_value s)) else None),
     str_uuid = (\<lambda>u. nat_digits (unat u)), unicode_upper = (\<lambda>s. s), unicode_lower = (\<lambda>s. s), sha256_hex = (\<lambda>s. s),
     new_uuid = (\<lambda>n. of_nat (1000 + n)), new_rrn = (\<lambda>n. ''RRN'' @ nat_digits n), placed = (\<lambda>n u. True), fault = (\<lambda>n. NoFault), cache_fault = (\<lambda>n. NoFault), interfere = (\<lambda>n t. t), now = 0\<rparr>"

definition empty_world :: world where
  "empty_world = \<lparr>wallets = (\<lambda>i. None), ledgers = [], txns = [], outbox = [], selfbox = [], txbox = [], notices = [], evicted = [],
     poisoned = False, n_db = 0, n_pid = 0, n_uuid = 0, n_rrn = 0\<rparr>"

definition demo_profile :: profile where
  "demo_profile = \<lparr>p_ID = 9, p_ExternalID = [], p_Type = [], p_FullName = ''Ann'', p_Email = [], p_Phone = None,
     p_Metadata = [], p_CreatedAt = 0, p_UpdatedAt = 0\<rparr>"

lemma demo_codec: "uuid_codec demo_ctx"
  by (simp add: uuid_codec_def demo_ctx_def nat_digits_digits nat_digits_no_colon)

lemma demo_env [simp]: "fault demo_ctx n = NoFault" "cache_fault demo_ctx n = NoFault" "interfere demo_ctx n t = t" "now demo_ctx = 0" "placed demo_ctx n i"
  by (simp_all add: demo_ctx_def)

lemma demo_quiet: "quiet demo_ctx" and demo_faultless: "faultless demo_ctx"
  by (simp_all add: quiet_def faultless_def demo_ctx_def)

end
