(* ===== verification/Keyed_Service.thy ===== *)
theory Keyed_Service
  imports Main
begin

text \<open>
  The contract of a service whose operations carry an idempotency key, as the TransactionActor
  relies on it when it re-sends a leg: a remembered key answers with the remembered result or an
  error and moves nothing, a success is remembered, and nothing remembered is forgotten.
  \<open>core\<close> is the part of the state the operations are meant to move.
\<close>

definition run_all :: "('m \<Rightarrow> 's \<Rightarrow> 'x \<times> 's) \<Rightarrow> 'm list \<Rightarrow> 's \<Rightarrow> 's" where
  "run_all exec ms s = fold (\<lambda>m s. snd (exec m s)) ms s"

lemma run_all_simps [simp]:
  "run_all exec [] s = s" "run_all exec (m # ms) s = run_all exec ms (snd (exec m s))"
  by (simp_all add: run_all_def)

locale keyed_service =
  fixes exec :: "'m \<Rightarrow> 's \<Rightarrow> ('e + 'r) \<times> 's"
    and valid :: "'m \<Rightarrow> bool"
    and key :: "'m \<Rightarrow> 'k option"
    and memo :: "'s \<Rightarrow> 'k \<Rightarrow> 'r option"
    and core :: "'s \<Rightarrow> 'v"
    and inv :: "'s \<Rightarrow> bool"
  assumes inv_exec: "inv s \<Longrightarrow> valid m \<Longrightarrow> inv (snd (exec m s))"
    and memo_hit: "inv s \<Longrightarrow> valid m \<Longrightarrow> key m = Some k \<Longrightarrow> memo s k = Some r \<Longrightarrow>
      core (snd (exec m s)) = core s \<and> (\<forall>r'. fst (exec m s) = Inr r' \<longrightarrow> r' = r)"
    and memo_store: "inv s \<Longrightarrow> valid m \<Longrightarrow> fst (exec m s) = Inr r \<Longrightarrow>
      \<exists>k. key m = Some k \<and> memo (snd (exec m s)) k = Some r"
    and memo_keep: "inv s \<Longrightarrow> valid m \<Longrightarrow> memo s k = Some r \<Longrightarrow> memo (snd (exec m s)) k = Some r"
begin

lemma run_inv: "inv s \<Longrightarrow> list_all valid ms \<Longrightarrow> inv (run_all exec ms s)"
  by (induction ms arbitrary: s) (auto intro: inv_exec)

lemma run_keep: "inv s \<Longrightarrow> list_all valid ms \<Longrightarrow> memo s k = Some r \<Longrightarrow> memo (run_all exec ms s) k = Some r"
  by (induction ms arbitrary: s) (auto intro: inv_exec memo_keep)

text \<open>Once answered, a key is settled: whatever ran in between, repeating it moves nothing.\<close>

lemma settled:
  assumes "inv s" "valid m" "fst (exec m s) = Inr r" "list_all valid ms" "valid m'" "key m' = key m"
  shows "core (snd (exec m' (run_all exec ms (snd (exec m s))))) = core (run_all exec ms (snd (exec m s))) \<and>
    (\<forall>r'. fst (exec m' (run_all exec ms (snd (exec m s)))) = Inr r' \<longrightarrow> r' = r)"
proof -
  let ?s = "snd (exec m s)"
  obtain k where k: "key m = Some k" "memo ?s k = Some r" using memo_store [OF assms(1-3)] by blast
  have i: "inv ?s" using assms by (simp add: inv_exec)
  have "memo (run_all exec ms ?s) k = Some r" using run_keep [OF i assms(4) k(2)] .
  then show ?thesis using memo_hit [OF run_inv [OF i assms(4)] assms(5)] assms(6) k(1) by simp
qed

end

end
