(* ===== verification/Wallet_Actor.thy ===== *)
theory Wallet_Actor
  imports Store Keyed_Service
begin

text \<open>
  The WalletActor (\<open>internal/actors/wallet.go\<close>). \<open>wallet_actor\<close> is its struct; \<open>load\<close>, \<open>current\<close>,
  \<open>findLedger\<close>, \<open>persist\<close>, \<open>wa_apply\<close> and \<open>wa_handle\<close> are its methods, \<open>wa_attempts\<close> the loop of \<open>apply\<close>
  over \<open>maxVersionRetries\<close>. \<open>wa_Receive\<close> dispatches the two wallet messages and the grain's
  initialisation.

  The lemmas: every handler keeps the books (balances are the opening balance plus the ledger, the
  three balances agree, nothing is negative, checksums are valid, keys are unique), a key is applied
  at most once, refusals move nothing, and no arithmetic overflow is ever stored.
\<close>

section \<open>Model\<close>

definition maxVersionRetries :: nat where "maxVersionRetries = 3"

record wallet_actor =
  wa_walletID :: uuid
  wa_wallet :: "wallet option"

record apply_result =
  ar_initial :: int64
  ar_updated :: int64

definition NewWalletActor :: wallet_actor where
  "NewWalletActor = \<lparr>wa_walletID = uuid_Nil, wa_wallet = None\<rparr>"

definition NewWalletActorFor :: "uuid \<Rightarrow> wallet_actor" where
  "NewWalletActorFor walletID = \<lparr>wa_walletID = walletID, wa_wallet = None\<rparr>"

definition checksum_payload :: "ctx \<Rightarrow> wallet \<Rightarrow> string" where
  "checksum_payload c wl = str_uuid c (w_ID wl) @ '':'' @ FormatInt (w_ActualBalance wl) @ '':'' @
     FormatInt (w_AvailableBalance wl) @ '':'' @ FormatInt (w_ProcessingBalance wl) @ '':'' @
     FormatInt (w_Version wl)"

definition ComputeChecksum :: "ctx \<Rightarrow> wallet \<Rightarrow> string" where
  "ComputeChecksum c wl = sha256_hex c (checksum_payload c wl)"

definition load :: "ctx \<Rightarrow> uuid \<Rightarrow> world \<Rightarrow> (go_error + wallet) \<times> world" where
  "load c walletID w0 =
     (let (f, w) = db_call c w0 in
      (case f of
         NoFault \<Rightarrow>
           (case wallets w walletID of
              None \<Rightarrow> Inl (newWalletError CodeWalletNotFound (str_uuid c walletID))
            | Some wl \<Rightarrow>
                if w_Status wl \<noteq> WalletStatusActive then Inl (newWalletError CodeInactiveWallet (w_Status wl))
                else if w_Checksum wl \<noteq> [] \<and> w_Checksum wl \<noteq> ComputeChecksum c wl
                then Inl (newWalletError CodeChecksumMismatch (str_uuid c walletID))
                else Inr wl)
       | Failed m \<Rightarrow> Inl (WalletErr (wrapInternal (OtherErr m)))
       | LostAck m \<Rightarrow> Inl (WalletErr (wrapInternal (OtherErr m))), w))"

definition current :: "ctx \<Rightarrow> uuid \<Rightarrow> wallet_actor \<Rightarrow> world \<Rightarrow> (go_error + wallet) \<times> wallet_actor \<times> world" where
  "current c walletID a w =
     (case wa_wallet a of
        Some wl \<Rightarrow>
          if w_ID wl = walletID then
            (if w_Status wl \<noteq> WalletStatusActive then (Inl (newWalletError CodeInactiveWallet (w_Status wl)), a, w)
             else (Inr wl, a, w))
          else (case load c walletID w of
                  (Inl e, w') \<Rightarrow> (Inl e, a, w')
                | (Inr wl', w') \<Rightarrow> (Inr wl', a\<lparr>wa_wallet := Some wl'\<rparr>, w'))
      | None \<Rightarrow>
          (case load c walletID w of
             (Inl e, w') \<Rightarrow> (Inl e, a, w')
           | (Inr wl', w') \<Rightarrow> (Inr wl', a\<lparr>wa_wallet := Some wl'\<rparr>, w')))"

definition findLedger :: "ctx \<Rightarrow> uuid \<Rightarrow> uuid \<Rightarrow> world \<Rightarrow> (go_error + ledger option) \<times> world" where
  "findLedger c walletID key w0 =
     (let (f, w) = db_call c w0 in
      (case f of
         NoFault \<Rightarrow> Inr (find (\<lambda>l. l_WalletID l = walletID \<and> l_IdempotencyKey l = Some key) (ledgers w))
       | Failed m \<Rightarrow> Inl (OtherErr m)
       | LostAck m \<Rightarrow> Inl (OtherErr m), w))"

text \<open>The in-memory successor of the wallet, as \<open>persist\<close> computes it.\<close>

definition next_wallet :: "ctx \<Rightarrow> wallet \<Rightarrow> ledger_type \<Rightarrow> int64 \<Rightarrow> wallet" where
  "next_wallet c wl action amount =
     (let delta = (if action = LedgerTypeDebit then wrap64 (- amount) else amount);
          nx = wl\<lparr>w_AvailableBalance := wrap64 (w_AvailableBalance wl + delta),
                  w_ActualBalance := wrap64 (w_ActualBalance wl + delta),
                  w_Version := wrap64 (w_Version wl + 1)\<rparr>
      in nx\<lparr>w_Checksum := ComputeChecksum c nx\<rparr>)"

text \<open>The row the version-guarded \<open>UPDATE\<close> writes, and the ledger row of the same transaction.\<close>

definition write_wallet :: "ctx \<Rightarrow> wallet \<Rightarrow> wallet \<Rightarrow> wallet" where
  "write_wallet c nx row = row\<lparr>w_AvailableBalance := w_AvailableBalance nx, w_ActualBalance := w_ActualBalance nx,
     w_Version := w_Version nx, w_Checksum := w_Checksum nx, w_UpdatedAt := now c\<rparr>"

definition ledger_row :: "ctx \<Rightarrow> world \<Rightarrow> wallet \<Rightarrow> wallet \<Rightarrow> ledger_type \<Rightarrow> uuid \<Rightarrow> uuid \<Rightarrow> int64 \<Rightarrow> string \<Rightarrow> ledger" where
  "ledger_row c w wl nx action txID key amount purpose =
     \<lparr>l_ID = int (length (ledgers w)) + 1, l_WalletID = w_ID wl, l_TransactionID = txID, l_IdempotencyKey = Some key,
      l_Type = action, l_Purpose = purpose, l_Amount = amount, l_Currency = w_Currency wl,
      l_InitialBalance = w_ActualBalance wl, l_UpdatedBalance = w_ActualBalance nx, l_CreatedAt = now c\<rparr>"

definition persist :: "ctx \<Rightarrow> wallet \<Rightarrow> ledger_type \<Rightarrow> uuid \<Rightarrow> uuid \<Rightarrow> int64 \<Rightarrow> string \<Rightarrow> wallet_actor \<Rightarrow> world \<Rightarrow>
    (go_error + apply_result) \<times> wallet_actor \<times> world" where
  "persist c wl action txID key amount purpose a w0 =
     (let nx = next_wallet c wl action amount in
      if w_AvailableBalance nx < 0 \<or> w_ActualBalance nx < 0
      then (Inl (newWalletError CodeInsufficientFunds ''balance would go negative''), a, w0) else
      let (f, w1) = db_call c w0;
          w = w1\<lparr>wallets := interfere c (n_db w0) (wallets w1)\<rparr> in
      (case f of
         Failed m \<Rightarrow> (Inl (OtherErr m), a, w)
       | _ \<Rightarrow>
           (case wallets w (w_ID wl) of
              Some row \<Rightarrow>
                if w_Version row \<noteq> w_Version wl then
                  (Inl (newWalletError CodeVersionConflict
                     (''wallet '' @ str_uuid c (w_ID wl) @ '' version '' @ FormatInt (w_Version wl) @ '' is stale'')), a, w)
                else
                  (let w' = w\<lparr>wallets := (wallets w)(w_ID wl \<mapsto> write_wallet c nx row),
                              ledgers := ledgers w @ [ledger_row c w wl nx action txID key amount purpose]\<rparr> in
                   (case f of
                      LostAck m \<Rightarrow> (Inl (OtherErr m), a, w')
                    | _ \<Rightarrow> (Inr \<lparr>ar_initial = w_ActualBalance wl, ar_updated = w_ActualBalance nx\<rparr>,
                            a\<lparr>wa_wallet := Some (nx\<lparr>w_UpdatedAt := now c\<rparr>)\<rparr>,
                            cache_Delete [WalletKey (str_uuid c (w_ID wl)), WalletNumberKey (w_Number wl)] w')))
            | None \<Rightarrow>
                (Inl (newWalletError CodeVersionConflict
                   (''wallet '' @ str_uuid c (w_ID wl) @ '' version '' @ FormatInt (w_Version wl) @ '' is stale'')), a, w))))"

fun wa_attempts :: "ctx \<Rightarrow> nat \<Rightarrow> go_error \<Rightarrow> ledger_type \<Rightarrow> uuid \<Rightarrow> uuid \<Rightarrow> uuid \<Rightarrow> int64 \<Rightarrow> string \<Rightarrow>
    wallet_actor \<Rightarrow> world \<Rightarrow> (go_error + apply_result) \<times> wallet_actor \<times> world" where
  "wa_attempts c 0 lastErr action walletID txID key amount purpose a w = (Inl (WalletErr (wrapInternal lastErr)), a, w)"
| "wa_attempts c (Suc n) lastErr action walletID txID key amount purpose a w =
     (case current c walletID a w of
        (Inl e, a1, w1) \<Rightarrow> (Inl e, a1, w1)
      | (Inr wl, a1, w1) \<Rightarrow>
          if action = LedgerTypeDebit \<and> w_AvailableBalance wl < amount then
            (Inl (newWalletError CodeInsufficientFunds
               (''available '' @ FormatInt (w_AvailableBalance wl) @ '' < requested '' @ FormatInt amount)), a1, w1)
          else
            (case persist c wl action txID key amount purpose a1 w1 of
               (Inr res, a2, w2) \<Rightarrow> (Inr res, a2, w2)
             | (Inl err, a2, w2) \<Rightarrow>
                 (let a3 = a2\<lparr>wa_wallet := None\<rparr> in
                  if e_Code (wrapInternal err) \<noteq> CodeVersionConflict then (Inl (WalletErr (wrapInternal err)), a3, w2)
                  else wa_attempts c n err action walletID txID key amount purpose a3 w2)))"

definition wa_apply :: "ctx \<Rightarrow> ledger_type \<Rightarrow> string \<Rightarrow> string \<Rightarrow> string \<Rightarrow> int64 \<Rightarrow> string \<Rightarrow>
    wallet_actor \<Rightarrow> world \<Rightarrow> (go_error + apply_result) \<times> wallet_actor \<times> world" where
  "wa_apply c action walletIDStr txIDStr keyStr amount purpose a w =
     (case parse_uuid c walletIDStr of None \<Rightarrow> (Inl (newWalletError CodeInvalidMessage ''wallet_id is not a UUID''), a, w)
      | Some walletID \<Rightarrow>
     (case parse_uuid c txIDStr of None \<Rightarrow> (Inl (newWalletError CodeInvalidMessage ''transaction_id is not a UUID''), a, w)
      | Some txID \<Rightarrow>
     (case parse_uuid c keyStr of None \<Rightarrow> (Inl (newWalletError CodeInvalidMessage ''idempotency_key is not a UUID''), a, w)
      | Some key \<Rightarrow>
        if amount \<le> 0 then (Inl (newWalletError CodeInvalidMessage ''amount must be positive''), a, w)
        else if wa_walletID a \<noteq> uuid_Nil \<and> wa_walletID a \<noteq> walletID then
          (Inl (newWalletError CodeWalletMismatch
             (''message for '' @ str_uuid c walletID @ '' delivered to actor for '' @ str_uuid c (wa_walletID a))), a, w)
        else
          (case findLedger c walletID key w of
             (Inl e, w1) \<Rightarrow> (Inl (WalletErr (wrapInternal e)), a, w1)
           | (Inr (Some prior), w1) \<Rightarrow>
               (Inr \<lparr>ar_initial = l_InitialBalance prior, ar_updated = l_UpdatedBalance prior\<rparr>, a, w1)
           | (Inr None, w1) \<Rightarrow>
               wa_attempts c maxVersionRetries (OtherErr []) action walletID txID key amount purpose a w1))))"

definition wa_handle :: "ctx \<Rightarrow> ledger_type \<Rightarrow> wallet_op \<Rightarrow> wallet_actor \<Rightarrow> world \<Rightarrow>
    WalletResultMsg \<times> wallet_actor \<times> world" where
  "wa_handle c action m a w =
     (let reply = \<lparr>rm_TransactionId = wo_TransactionId m, rm_WalletId = wo_WalletId m,
                   rm_IdempotencyKey = wo_IdempotencyKey m, rm_InitialBalance = 0, rm_UpdatedBalance = 0,
                   rm_Amount = wo_Amount m, rm_ErrorCode = [], rm_ErrorMessage = []\<rparr> in
      (case wa_apply c action (wo_WalletId m) (wo_TransactionId m) (wo_IdempotencyKey m) (wo_Amount m) (wo_Purpose m) a w of
         (Inl err, a', w') \<Rightarrow>
           (reply\<lparr>rm_ErrorCode := e_Code (wrapInternal err), rm_ErrorMessage := e_Message (wrapInternal err)\<rparr>, a', w')
       | (Inr res, a', w') \<Rightarrow>
           (reply\<lparr>rm_InitialBalance := ar_initial res, rm_UpdatedBalance := ar_updated res\<rparr>, a', w')))"

datatype wa_event = ClusterInit string | WalletMessage bool wallet_msg

text \<open>\<open>Receive\<close>: the reply is sent only when the message has a sender (the flag).\<close>

fun wa_Receive :: "ctx \<Rightarrow> wa_event \<Rightarrow> wallet_actor \<Rightarrow> world \<Rightarrow> WalletResultMsg option \<times> wallet_actor \<times> world" where
  "wa_Receive c (ClusterInit identity) a w =
     (None, case parse_uuid c identity of Some i \<Rightarrow> a\<lparr>wa_walletID := i\<rparr> | None \<Rightarrow> a, w)"
| "wa_Receive c (WalletMessage sender m) a w =
     (let (reply, a', w') = wa_handle c (wallet_msg_action m) (wallet_msg_op m) a w
      in (if sender then Some reply else None, a', w'))"

section \<open>The books\<close>

definition signed_amount :: "ledger_type \<Rightarrow> int64 \<Rightarrow> int" where
  "signed_amount action amount = (if action = LedgerTypeDebit then - amount else amount)"

definition net :: "uuid \<Rightarrow> ledger list \<Rightarrow> int" where
  "net i ls = sum_list (map (\<lambda>l. signed_amount (l_Type l) (l_Amount l)) (filter (\<lambda>l. l_WalletID l = i) ls))"

definition wallet_ok :: "ctx \<Rightarrow> wallet \<Rightarrow> bool" where
  "wallet_ok c wl \<longleftrightarrow> 0 \<le> w_AvailableBalance wl \<and> 0 \<le> w_ProcessingBalance wl \<and>
     w_ActualBalance wl = w_AvailableBalance wl + w_ProcessingBalance wl \<and> w_ActualBalance wl \<le> MaxInt64 \<and>
     (w_Checksum wl = [] \<or> w_Checksum wl = ComputeChecksum c wl)"

definition unique_keys :: "ledger list \<Rightarrow> bool" where
  "unique_keys ls \<longleftrightarrow> distinct (map (\<lambda>l. (l_WalletID l, l_IdempotencyKey l)) (filter (\<lambda>l. l_IdempotencyKey l \<noteq> None) ls))"

definition books :: "ctx \<Rightarrow> (uuid \<Rightarrow> int) \<Rightarrow> world \<Rightarrow> bool" where
  "books c opening w \<longleftrightarrow>
     (\<forall>i row. wallets w i = Some row \<longrightarrow> w_ID row = i \<and> wallet_ok c row \<and>
        w_ActualBalance row = opening i + net i (ledgers w)) \<and>
     unique_keys (ledgers w)"

text \<open>The actor's copy is the row.\<close>

definition coherent :: "wallet_actor \<Rightarrow> world \<Rightarrow> bool" where
  "coherent a w \<longleftrightarrow> (\<forall>x. wa_wallet a = Some x \<longrightarrow> wallets w (w_ID x) = Some x)"

definition has_key :: "uuid \<Rightarrow> uuid \<Rightarrow> ledger list \<Rightarrow> bool" where
  "has_key i k ls \<longleftrightarrow> (\<exists>l \<in> set ls. l_WalletID l = i \<and> l_IdempotencyKey l = Some k)"

text \<open>One application of an operation: the row and the ledger move together.\<close>

definition applied_to :: "ctx \<Rightarrow> wallet \<Rightarrow> ledger_type \<Rightarrow> uuid \<Rightarrow> uuid \<Rightarrow> int64 \<Rightarrow> string \<Rightarrow> world \<Rightarrow> world \<Rightarrow> bool" where
  "applied_to c wl action txID key amount purpose w w' \<longleftrightarrow>
     (let nx = next_wallet c wl action amount in
      wallets w (w_ID wl) = Some wl \<and> 0 \<le> w_AvailableBalance nx \<and> 0 \<le> w_ActualBalance nx \<and>
      wallets w' = (wallets w)(w_ID wl \<mapsto> nx\<lparr>w_UpdatedAt := now c\<rparr>) \<and>
      ledgers w' = ledgers w @ [ledger_row c w wl nx action txID key amount purpose])"

definition same_tables :: "world \<Rightarrow> world \<Rightarrow> bool" where
  "same_tables w w' \<longleftrightarrow> wallets w' = wallets w \<and> ledgers w' = ledgers w"

lemma same_tables_refl [simp]: "same_tables w w"
  by (simp add: same_tables_def)

lemma same_tables_trans: "same_tables u v \<Longrightarrow> same_tables v w \<Longrightarrow> same_tables u w"
  by (simp add: same_tables_def)

lemma same_tables_books: "same_tables w w' \<Longrightarrow> books c op w' = books c op w"
  by (simp add: same_tables_def books_def)

lemma same_tables_coherent: "same_tables w w' \<Longrightarrow> coherent a w' = coherent a w"
  by (simp add: same_tables_def coherent_def)

lemma net_snoc [simp]:
  "net i (ls @ [l]) = net i ls + (if l_WalletID l = i then signed_amount (l_Type l) (l_Amount l) else 0)"
  by (simp add: net_def)

lemma unique_keys_snoc:
  assumes "unique_keys ls" "l_IdempotencyKey l = Some k" "\<not> has_key (l_WalletID l) k ls"
  shows "unique_keys (ls @ [l])"
  using assms by (auto simp: unique_keys_def has_key_def)

lemma find_key_None: "find (\<lambda>l. l_WalletID l = i \<and> l_IdempotencyKey l = Some k) ls = None \<longleftrightarrow> \<not> has_key i k ls"
  by (auto simp: find_None_iff has_key_def)

lemma has_key_append [simp]: "has_key i k (xs @ ys) \<longleftrightarrow> has_key i k xs \<or> has_key i k ys"
  by (auto simp: has_key_def)

section \<open>Arithmetic of one operation\<close>

lemma ComputeChecksum_frame [simp]:
  "ComputeChecksum c (wl\<lparr>w_Checksum := x\<rparr>) = ComputeChecksum c wl"
  "ComputeChecksum c (wl\<lparr>w_UpdatedAt := t\<rparr>) = ComputeChecksum c wl"
  by (simp_all add: ComputeChecksum_def checksum_payload_def)

lemma next_wallet_frame [simp]:
  "w_ID (next_wallet c wl action amount) = w_ID wl"
  "w_Status (next_wallet c wl action amount) = w_Status wl"
  "w_ProcessingBalance (next_wallet c wl action amount) = w_ProcessingBalance wl"
  "w_Version (next_wallet c wl action amount) = wrap64 (w_Version wl + 1)"
  by (simp_all add: next_wallet_def Let_def)

lemma next_wallet_checksum [simp]:
  "w_Checksum (next_wallet c wl action amount) = ComputeChecksum c (next_wallet c wl action amount)"
  by (simp add: next_wallet_def Let_def)

lemma ledger_row_frame [simp]:
  "ledger_row c (w\<lparr>n_db := n\<rparr>) wl nx action txID key amount purpose = ledger_row c w wl nx action txID key amount purpose"
  "l_WalletID (ledger_row c w wl nx action txID key amount purpose) = w_ID wl"
  "l_IdempotencyKey (ledger_row c w wl nx action txID key amount purpose) = Some key"
  "l_Type (ledger_row c w wl nx action txID key amount purpose) = action"
  "l_Amount (ledger_row c w wl nx action txID key amount purpose) = amount"
  "l_TransactionID (ledger_row c w wl nx action txID key amount purpose) = txID"
  "l_InitialBalance (ledger_row c w wl nx action txID key amount purpose) = w_ActualBalance wl"
  "l_UpdatedBalance (ledger_row c w wl nx action txID key amount purpose) = w_ActualBalance nx"
  by (simp_all add: ledger_row_def)

lemma write_wallet_self: "write_wallet c (next_wallet c wl action amount) wl = (next_wallet c wl action amount)\<lparr>w_UpdatedAt := now c\<rparr>"
  by (simp add: write_wallet_def next_wallet_def Let_def)

lemma next_wallet_exact:
  assumes ok: "wallet_ok c wl" and amt: "0 < amount" "amount \<le> MaxInt64"
    and nn: "0 \<le> w_AvailableBalance (next_wallet c wl action amount)"
      "0 \<le> w_ActualBalance (next_wallet c wl action amount)"
  shows "w_AvailableBalance (next_wallet c wl action amount) = w_AvailableBalance wl + signed_amount action amount"
    and "w_ActualBalance (next_wallet c wl action amount) = w_ActualBalance wl + signed_amount action amount"
    and "wallet_ok c (next_wallet c wl action amount)"
proof -
  have b: "0 \<le> w_AvailableBalance wl" "w_AvailableBalance wl \<le> MaxInt64" "0 \<le> w_ActualBalance wl"
    "w_ActualBalance wl \<le> MaxInt64"
    using ok by (auto simp: wallet_ok_def)
  have neg: "wrap64 (- amount) = - amount"
    using amt by (intro wrap64_id) (simp add: is_int64_def MinInt64_def MaxInt64_def)
  show av: "w_AvailableBalance (next_wallet c wl action amount) = w_AvailableBalance wl + signed_amount action amount"
    using nn(1) b amt neg wrap64_sub_nonneg [of "w_AvailableBalance wl" amount]
    by (auto simp: next_wallet_def Let_def signed_amount_def intro!: wrap64_add_nonneg split: if_splits)
  show ac: "w_ActualBalance (next_wallet c wl action amount) = w_ActualBalance wl + signed_amount action amount"
    using nn(2) b amt neg wrap64_sub_nonneg [of "w_ActualBalance wl" amount]
    by (auto simp: next_wallet_def Let_def signed_amount_def intro!: wrap64_add_nonneg split: if_splits)
  have "is_int64 (w_ActualBalance (next_wallet c wl action amount))"
    by (simp add: next_wallet_def Let_def)
  then show "wallet_ok c (next_wallet c wl action amount)"
    using ok av ac nn by (simp add: wallet_ok_def is_int64_def)
qed

lemma applied_to_books:
  assumes "books c op w" "applied_to c wl action txID key amount purpose w w'" "0 < amount" "amount \<le> MaxInt64"
    "\<not> has_key (w_ID wl) key (ledgers w)"
  shows "books c op w'"
proof -
  let ?nx = "next_wallet c wl action amount"
  have wl: "wallets w (w_ID wl) = Some wl" "wallet_ok c wl" "w_ActualBalance wl = op (w_ID wl) + net (w_ID wl) (ledgers w)"
    using assms(1,2) by (auto simp: books_def applied_to_def Let_def)
  have nx: "w_ActualBalance ?nx = w_ActualBalance wl + signed_amount action amount" "wallet_ok c ?nx"
    using next_wallet_exact [OF wl(2) assms(3,4)] assms(2) by (auto simp: applied_to_def Let_def)
  have fresh: "unique_keys (ledgers w')"
  proof -
    have "ledgers w' = ledgers w @ [ledger_row c w wl ?nx action txID key amount purpose]" "unique_keys (ledgers w)"
      using assms(1,2) by (simp_all add: books_def applied_to_def Let_def)
    then show ?thesis using assms(5) by (simp add: unique_keys_snoc [where k = key])
  qed
  have "w_ID row = i \<and> wallet_ok c row \<and> w_ActualBalance row = op i + net i (ledgers w')"
    if row: "wallets w' i = Some row" for i row
  proof (cases "i = w_ID wl")
    case True
    with row assms(2) have "row = ?nx\<lparr>w_UpdatedAt := now c\<rparr>"
      "ledgers w' = ledgers w @ [ledger_row c w wl ?nx action txID key amount purpose]"
      by (simp_all add: applied_to_def Let_def)
    with True nx wl show ?thesis by (simp add: wallet_ok_def)
  next
    case False
    with row assms(1,2) show ?thesis by (simp add: books_def applied_to_def Let_def)
  qed
  with fresh show ?thesis by (simp add: books_def)
qed

section \<open>Specifications of the methods\<close>

lemma load_tables: "load c i w = (r, w') \<Longrightarrow> same_tables w w'"
  by (auto simp: load_def db_call_def Let_def same_tables_def)

lemma load_Inr: "load c i w = (Inr wl, w') \<Longrightarrow> wallets w i = Some wl \<and> w_Status wl = WalletStatusActive"
  by (auto simp: load_def db_call_def Let_def split: fault.splits option.splits if_splits)

lemma current_spec:
  assumes "current c i a w = (r, a', w')" "coherent a w" "books c op w"
  shows "same_tables w w' \<and> coherent a' w' \<and> wa_walletID a' = wa_walletID a \<and>
    (\<forall>wl. r = Inr wl \<longrightarrow> wallets w i = Some wl \<and> w_ID wl = i \<and> w_Status wl = WalletStatusActive)"
proof (cases "\<exists>x. wa_wallet a = Some x \<and> w_ID x = i")
  case True
  with assms show ?thesis by (auto simp: current_def coherent_def split: if_splits)
next
  case False
  obtain rl wl where l: "load c i w = (rl, wl)" by fastforce
  have cur: "current c i a w = (case rl of Inl e \<Rightarrow> (Inl e, a, wl) | Inr x \<Rightarrow> (Inr x, a\<lparr>wa_wallet := Some x\<rparr>, wl))"
    using False l by (auto simp: current_def split: option.splits sum.splits)
  have same: "same_tables w wl" using load_tables [OF l] .
  show ?thesis
  proof (cases rl)
    case (Inl e)
    with cur same assms show ?thesis by (auto simp: same_tables_coherent)
  next
    case (Inr x)
    with l have x: "wallets w i = Some x" "w_Status x = WalletStatusActive" by (simp_all add: load_Inr)
    moreover from x(1) assms(3) have "w_ID x = i" by (simp add: books_def)
    ultimately show ?thesis using cur same assms(1) Inr by (auto simp: coherent_def same_tables_def)
  qed
qed

lemma findLedger_spec:
  assumes "findLedger c i k w = (r, w')"
  shows "same_tables w w'"
    and "r = Inr None \<Longrightarrow> \<not> has_key i k (ledgers w)"
    and "r = Inr (Some l) \<Longrightarrow> find (\<lambda>l. l_WalletID l = i \<and> l_IdempotencyKey l = Some k) (ledgers w) = Some l"
  using assms find_key_None [of i k "ledgers w"]
  by (auto simp: findLedger_def db_call_def Let_def same_tables_def split: fault.splits)

lemma persist_quiet:
  assumes "quiet c" "wallets w (w_ID wl) = Some wl"
    and "persist c wl action txID key amount purpose a w = (r, a', w')"
  obtains (refused) "r = Inl (newWalletError CodeInsufficientFunds ''balance would go negative'')" "same_tables w w'"
  | (failed) m where "r = Inl (OtherErr m)" "same_tables w w'"
  | (lost) m where "r = Inl (OtherErr m)" "applied_to c wl action txID key amount purpose w w'"
  | (stored) "r = Inr \<lparr>ar_initial = w_ActualBalance wl, ar_updated = w_ActualBalance (next_wallet c wl action amount)\<rparr>"
      "applied_to c wl action txID key amount purpose w w'"
      "wa_wallet a' = Some ((next_wallet c wl action amount)\<lparr>w_UpdatedAt := now c\<rparr>)"
proof -
  have q: "interfere c n t = t" for n t using assms(1) by (simp add: quiet_def)
  show thesis
    using assms(2,3) refused failed lost stored
    by (auto simp: persist_def Let_def db_call_def q same_tables_def applied_to_def write_wallet_self cache_Delete_def
        not_less split: if_splits fault.splits)
qed

lemma persist_walletID: "persist c wl action txID key amount purpose a w = (r, a', w') \<Longrightarrow> wa_walletID a' = wa_walletID a"
  by (auto simp: persist_def Let_def db_call_def split: if_splits fault.splits option.splits)

lemma applied_to_same: "same_tables w w1 \<Longrightarrow> applied_to c wl action txID key amount purpose w1 w' = applied_to c wl action txID key amount purpose w w'"
  by (simp add: applied_to_def same_tables_def ledger_row_def Let_def)

text \<open>
  What one operation can do to the tables: nothing, with an error; one application, reported as such;
  or one application whose acknowledgement was lost, reported as an internal error.
\<close>

definition op_outcome :: "ctx \<Rightarrow> ledger_type \<Rightarrow> uuid \<Rightarrow> uuid \<Rightarrow> uuid \<Rightarrow> int64 \<Rightarrow> string \<Rightarrow> world \<Rightarrow>
    (go_error + apply_result) \<Rightarrow> world \<Rightarrow> bool" where
  "op_outcome c action i txID key amount purpose w r w' \<longleftrightarrow>
     (\<exists>e. r = Inl e \<and> same_tables w w') \<or>
     (\<exists>wl. wallets w i = Some wl \<and> w_ID wl = i \<and> w_Status wl = WalletStatusActive \<and>
        applied_to c wl action txID key amount purpose w w' \<and>
        (r = Inr \<lparr>ar_initial = w_ActualBalance wl, ar_updated = w_ActualBalance (next_wallet c wl action amount)\<rparr> \<or>
         (\<exists>m. r = Inl (WalletErr (wrapInternal (OtherErr m))))))"

lemma wa_attempts_outcome:
  assumes q: "quiet c" and b: "books c op w" and co: "coherent a w"
    and run: "wa_attempts c n lastErr action i txID key amount purpose a w = (r, a', w')"
  shows "op_outcome c action i txID key amount purpose w r w' \<and> coherent a' w' \<and> wa_walletID a' = wa_walletID a"
proof (cases n)
  case 0
  with run co show ?thesis by (auto simp: op_outcome_def)
next
  case (Suc n')
  obtain rc a1 w1 where cur: "current c i a w = (rc, a1, w1)" by (metis prod_cases3)
  have c1: "same_tables w w1" "coherent a1 w1" "wa_walletID a1 = wa_walletID a"
    "\<And>wl. rc = Inr wl \<Longrightarrow> wallets w i = Some wl \<and> w_ID wl = i \<and> w_Status wl = WalletStatusActive"
    using current_spec [OF cur co b] by auto
  show ?thesis
  proof (cases rc)
    case (Inl e)
    with run Suc cur c1 show ?thesis by (auto simp: op_outcome_def)
  next
    case (Inr wl)
    note wl = c1(4) [OF Inr]
    have w1: "wallets w1 (w_ID wl) = Some wl" using wl c1(1) by (simp add: same_tables_def)
    show ?thesis
    proof (cases "action = LedgerTypeDebit \<and> w_AvailableBalance wl < amount")
      case True
      with run Suc cur Inr c1 show ?thesis by (auto simp: op_outcome_def)
    next
      case False
      obtain rp a2 w2 where p: "persist c wl action txID key amount purpose a1 w1 = (rp, a2, w2)" by (metis prod_cases3)
      note id2 = persist_walletID [OF p]
      from q w1 p show ?thesis
      proof (cases rule: persist_quiet)
        case refused
        with run Suc cur Inr False p c1 id2 show ?thesis
          by (auto simp: op_outcome_def newWalletError_def error_code_defs Let_def coherent_def intro: same_tables_trans)
      next
        case failed
        with run Suc cur Inr False p c1 id2 show ?thesis
          by (auto simp: op_outcome_def error_code_defs Let_def coherent_def intro: same_tables_trans)
      next
        case lost
        with run Suc cur Inr False p c1 id2 wl show ?thesis
          by (auto simp: op_outcome_def error_code_defs Let_def coherent_def applied_to_same [OF c1(1)])
      next
        case stored
        have "r = rp" "a' = a2" "w' = w2" using run Suc cur Inr False p stored(1) by auto
        moreover have "coherent a2 w2" using stored(2,3) by (simp add: coherent_def applied_to_def Let_def)
        ultimately show ?thesis using stored(1,2) c1 id2 wl by (auto simp: op_outcome_def applied_to_same [OF c1(1)])
      qed
    qed
  qed
qed

lemma wa_apply_outcome:
  assumes q: "quiet c" and b: "books c op w" and co: "coherent a w"
    and run: "wa_apply c action ws ts ks amount purpose a w = (r, a', w')"
  obtains (rejected) e where "r = Inl e" "same_tables w w'" "coherent a' w'"
  | (duplicate) i k l where "parse_uuid c ws = Some i" "parse_uuid c ks = Some k"
      "find (\<lambda>l. l_WalletID l = i \<and> l_IdempotencyKey l = Some k) (ledgers w) = Some l"
      "r = Inr \<lparr>ar_initial = l_InitialBalance l, ar_updated = l_UpdatedBalance l\<rparr>" "same_tables w w'" "coherent a' w'"
  | (fresh) i t k where "parse_uuid c ws = Some i" "parse_uuid c ts = Some t" "parse_uuid c ks = Some k"
      "\<not> has_key i k (ledgers w)" "0 < amount" "op_outcome c action i t k amount purpose w r w'" "coherent a' w'"
proof (cases "\<exists>i t k. parse_uuid c ws = Some i \<and> parse_uuid c ts = Some t \<and> parse_uuid c ks = Some k \<and> 0 < amount \<and>
    (wa_walletID a = uuid_Nil \<or> wa_walletID a = i)")
  case False
  then have "\<exists>e. r = Inl e \<and> a' = a \<and> w' = w"
    using run by (auto simp: wa_apply_def not_le split: option.splits if_splits)
  then show thesis using rejected co by auto
next
  case True
  then obtain i t k where p: "parse_uuid c ws = Some i" "parse_uuid c ts = Some t" "parse_uuid c ks = Some k"
    and amt: "0 < amount" and who: "wa_walletID a = uuid_Nil \<or> wa_walletID a = i" by blast
  obtain rf w1 where fl: "findLedger c i k w = (rf, w1)" by fastforce
  note f = findLedger_spec [OF fl]
  have ap: "(r, a', w') = (case rf of Inl e \<Rightarrow> (Inl (WalletErr (wrapInternal e)), a, w1)
      | Inr (Some l) \<Rightarrow> (Inr \<lparr>ar_initial = l_InitialBalance l, ar_updated = l_UpdatedBalance l\<rparr>, a, w1)
      | Inr None \<Rightarrow> wa_attempts c maxVersionRetries (OtherErr []) action i t k amount purpose a w1)"
    using run p amt who fl by (auto simp: wa_apply_def split: sum.splits option.splits)
  have co1: "coherent a w1" and b1: "books c op w1"
    using co b f(1) by (simp_all add: same_tables_coherent same_tables_books)
  consider e where "rf = Inl e" | l where "rf = Inr (Some l)" | "rf = Inr None"
    by (metis sum.exhaust option.exhaust)
  then show thesis
  proof cases
    case 1
    then show thesis using ap rejected f(1) co1 by auto
  next
    case 2
    then show thesis using ap duplicate [OF p(1,3) f(3)] f(1) co1 by auto
  next
    case 3
    then have at: "wa_attempts c maxVersionRetries (OtherErr []) action i t k amount purpose a w1 = (r, a', w')"
      using ap by simp
    from wa_attempts_outcome [OF q b1 co1 at]
    have o: "op_outcome c action i t k amount purpose w1 r w'" and co': "coherent a' w'" by auto
    have "op_outcome c action i t k amount purpose w r w'"
      using o f(1) by (auto simp: op_outcome_def applied_to_same [OF f(1)] same_tables_def)
    then show thesis using fresh [OF p f(2) [OF 3] amt] co' by blast
  qed
qed

section \<open>The actor as a keyed service\<close>

text \<open>One message against the actor and the tables, with the result before it is put into a reply.\<close>

definition wa_exec :: "ctx \<Rightarrow> wallet_msg \<Rightarrow> wallet_actor \<times> world \<Rightarrow> (go_error + apply_result) \<times> (wallet_actor \<times> world)" where
  "wa_exec c m s = (case s of (a, w) \<Rightarrow>
     (let req = wallet_msg_op m in
      wa_apply c (wallet_msg_action m) (wo_WalletId req) (wo_TransactionId req) (wo_IdempotencyKey req)
        (wo_Amount req) (wo_Purpose req) a w))"

definition wa_valid :: "wallet_msg \<Rightarrow> bool" where
  "wa_valid m \<longleftrightarrow> is_int64 (wo_Amount (wallet_msg_op m))"

definition wa_key :: "ctx \<Rightarrow> wallet_msg \<Rightarrow> (uuid \<times> uuid) option" where
  "wa_key c m = do { i \<leftarrow> parse_uuid c (wo_WalletId (wallet_msg_op m));
                     k \<leftarrow> parse_uuid c (wo_IdempotencyKey (wallet_msg_op m)); Some (i, k) }"

definition ledger_memo :: "ledger list \<Rightarrow> uuid \<times> uuid \<Rightarrow> apply_result option" where
  "ledger_memo ls k = map_option (\<lambda>l. \<lparr>ar_initial = l_InitialBalance l, ar_updated = l_UpdatedBalance l\<rparr>)
     (find (\<lambda>l. l_WalletID l = fst k \<and> l_IdempotencyKey l = Some (snd k)) ls)"

definition wa_memo :: "wallet_actor \<times> world \<Rightarrow> uuid \<times> uuid \<Rightarrow> apply_result option" where
  "wa_memo s k = ledger_memo (ledgers (snd s)) k"

definition wa_core :: "wallet_actor \<times> world \<Rightarrow> wallet_table \<times> ledger list" where
  "wa_core s = (wallets (snd s), ledgers (snd s))"

definition wa_inv :: "ctx \<Rightarrow> (uuid \<Rightarrow> int) \<Rightarrow> wallet_actor \<times> world \<Rightarrow> bool" where
  "wa_inv c op s \<longleftrightarrow> quiet c \<and> books c op (snd s) \<and> coherent (fst s) (snd s)"

lemma find_append_None: "find P (xs @ ys) = (case find P xs of None \<Rightarrow> find P ys | Some x \<Rightarrow> Some x)"
  by (induction xs) auto

lemma op_outcome_books:
  assumes "books c op w" "op_outcome c action i t k amount purpose w r w'" "\<not> has_key i k (ledgers w)"
    "0 < amount" "amount \<le> MaxInt64"
  shows "books c op w'"
  using assms applied_to_books [OF assms(1)] by (auto simp: op_outcome_def same_tables_books)

lemma op_outcome_ledgers:
  assumes "op_outcome c action i t k amount purpose w r w'"
  obtains (same) e where "r = Inl e" "same_tables w w'"
  | (one) l where "ledgers w' = ledgers w @ [l]" "l_WalletID l = i" "l_IdempotencyKey l = Some k"
      "\<And>res. r = Inr res \<Longrightarrow> res = \<lparr>ar_initial = l_InitialBalance l, ar_updated = l_UpdatedBalance l\<rparr>"
proof -
  consider e where "r = Inl e" "same_tables w w'" | wl where "w_ID wl = i" "applied_to c wl action t k amount purpose w w'"
    "\<And>res. r = Inr res \<Longrightarrow> res = \<lparr>ar_initial = w_ActualBalance wl, ar_updated = w_ActualBalance (next_wallet c wl action amount)\<rparr>"
    using assms by (auto simp: op_outcome_def)
  then show thesis
  proof cases
    case 1
    then show thesis by (rule same)
  next
    case 2
    then show thesis by (intro one [of "ledger_row c w wl (next_wallet c wl action amount) action t k amount purpose"])
        (auto simp: applied_to_def Let_def)
  qed
qed

lemma wa_exec_outcome:
  assumes "wa_inv c op s" "wa_exec c m s = (r, s')"
  obtains (rejected) e where "r = Inl e" "wa_core s' = wa_core s" "coherent (fst s') (snd s')"
  | (duplicate) k l where "wa_key c m = Some k" "wa_memo s k = Some l" "r = Inr l" "wa_core s' = wa_core s"
      "coherent (fst s') (snd s')"
  | (fresh) i t k where "wa_key c m = Some (i, k)" "\<not> has_key i k (ledgers (snd s))" "0 < wo_Amount (wallet_msg_op m)"
      "op_outcome c (wallet_msg_action m) i t k (wo_Amount (wallet_msg_op m)) (wo_Purpose (wallet_msg_op m)) (snd s) r (snd s')"
      "coherent (fst s') (snd s')"
proof -
  obtain a w a' w' where s: "s = (a, w)" "s' = (a', w')" by (metis surj_pair)
  let ?q = "wallet_msg_op m"
  have q: "quiet c" and b: "books c op w" and co: "coherent a w" using assms(1) by (simp_all add: wa_inv_def s)
  have ap: "wa_apply c (wallet_msg_action m) (wo_WalletId ?q) (wo_TransactionId ?q) (wo_IdempotencyKey ?q) (wo_Amount ?q)
      (wo_Purpose ?q) a w = (r, a', w')"
    using assms(2) s by (simp add: wa_exec_def Let_def)
  from q b co ap show thesis
  proof (cases rule: wa_apply_outcome)
    case (rejected e)
    then show thesis using that(1) by (simp add: s wa_core_def same_tables_def)
  next
    case (duplicate i k l)
    then show thesis
      using that(2) [of "(i, k)"] by (simp add: s wa_core_def same_tables_def wa_key_def wa_memo_def ledger_memo_def)
  next
    case (fresh i t k)
    then show thesis using that(3) [of i k t] by (simp add: s wa_key_def)
  qed
qed

lemma wa_exec_inv:
  assumes "wa_inv c op s" "wa_valid m"
  shows "wa_inv c op (snd (wa_exec c m s))"
proof -
  obtain r s' where e: "wa_exec c m s = (r, s')" by (cases "wa_exec c m s")
  have b: "quiet c" "books c op (snd s)" using assms(1) by (simp_all add: wa_inv_def)
  from assms(1) e show ?thesis
  proof (cases rule: wa_exec_outcome)
    case (fresh i t k)
    then show ?thesis
      using b assms(2) op_outcome_books [OF b(2)] by (simp add: wa_inv_def e wa_valid_def is_int64_def)
  qed (use b in \<open>auto simp: wa_inv_def e wa_core_def books_def\<close>)
qed

lemma wa_memo_has_key: "wa_memo s k = Some r \<Longrightarrow> has_key (fst k) (snd k) (ledgers (snd s))"
  using find_key_None [of "fst k" "snd k" "ledgers (snd s)"] by (auto simp: wa_memo_def ledger_memo_def)

lemma wa_exec_hit:
  assumes "wa_inv c op s" "wa_key c m = Some k" "wa_memo s k = Some r"
  shows "wa_core (snd (wa_exec c m s)) = wa_core s \<and> (\<forall>r'. fst (wa_exec c m s) = Inr r' \<longrightarrow> r' = r)"
proof -
  obtain r1 s' where e: "wa_exec c m s = (r1, s')" by (cases "wa_exec c m s")
  from assms(1) e show ?thesis
    using assms(2,3) wa_memo_has_key [OF assms(3)] by (cases rule: wa_exec_outcome) (auto simp: e)
qed

lemma ledger_memo_snoc:
  "ledger_memo (ls @ [l]) k = (case ledger_memo ls k of
     None \<Rightarrow> if l_WalletID l = fst k \<and> l_IdempotencyKey l = Some (snd k)
             then Some \<lparr>ar_initial = l_InitialBalance l, ar_updated = l_UpdatedBalance l\<rparr> else None
   | Some r \<Rightarrow> Some r)"
  by (simp add: ledger_memo_def find_append_None split: option.split)

lemma wa_exec_store:
  assumes "wa_inv c op s" "fst (wa_exec c m s) = Inr r"
  shows "\<exists>k. wa_key c m = Some k \<and> wa_memo (snd (wa_exec c m s)) k = Some r"
proof -
  obtain s' where e: "wa_exec c m s = (Inr r, s')" using assms(2) by (metis prod.collapse)
  from assms(1) e show ?thesis
  proof (cases rule: wa_exec_outcome)
    case (fresh i t k)
    have none: "ledger_memo (ledgers (snd s)) (i, k) = None"
      using fresh(2) by (simp add: ledger_memo_def find_key_None)
    from fresh(4) have "wa_memo s' (i, k) = Some r"
      using none by (cases rule: op_outcome_ledgers) (auto simp: wa_memo_def ledger_memo_snoc)
    with fresh(1) show ?thesis by (auto simp: e)
  qed (auto simp: e wa_memo_def wa_core_def)
qed

lemma wa_exec_keep:
  assumes "wa_inv c op s" "wa_memo s k = Some r"
  shows "wa_memo (snd (wa_exec c m s)) k = Some r"
proof -
  obtain r1 s' where e: "wa_exec c m s = (r1, s')" by (cases "wa_exec c m s")
  from assms(1) e show ?thesis
  proof (cases rule: wa_exec_outcome)
    case (fresh i t k')
    from fresh(4) show ?thesis
      using assms(2) by (cases rule: op_outcome_ledgers) (auto simp: wa_memo_def ledger_memo_snoc e same_tables_def)
  qed (use assms(2) in \<open>auto simp: e wa_memo_def wa_core_def\<close>)
qed

interpretation wallet_service: keyed_service "wa_exec c" wa_valid "wa_key c" wa_memo wa_core "wa_inv c op"
proof (unfold_locales, goal_cases)
  case 1 then show ?case by (rule wa_exec_inv)
next
  case 2 then show ?case by (intro wa_exec_hit)
next
  case 3 then show ?case by (intro wa_exec_store)
next
  case 4 then show ?case by (intro wa_exec_keep)
qed

section \<open>Properties of the WalletActor\<close>

text \<open>
  Claim C5. Whatever messages a wallet's mailbox delivers, in whatever order and with whatever database
  failures and lost acknowledgements, the books stay right: every wallet's actual balance is its
  opening balance plus its ledger, equals available plus processing, is never negative and never above
  the largest \<open>int64\<close>, its checksum is valid, and no idempotency key has two ledger rows.
\<close>

theorem wallet_books_invariant:
  assumes "quiet c" "books c op0 w" "coherent a w" "list_all wa_valid ms"
  shows "books c op0 (snd (run_all (wa_exec c) ms (a, w))) \<and>
    coherent (fst (run_all (wa_exec c) ms (a, w))) (snd (run_all (wa_exec c) ms (a, w)))"
  using wallet_service.run_inv [where c = c and op = op0 and s = "(a, w)" and ms = ms] assms by (simp add: wa_inv_def)

text \<open>An active wallet with 500 minor units and its stamped row in an otherwise empty database.\<close>

definition demo_wallet :: wallet where
  "demo_wallet = (let wl = \<lparr>w_ID = 1, w_Number = ''W100000'', w_ProfileID = 9, w_MerchantID = Some 9, w_Status = WalletStatusActive,
       w_Currency = ''KES'', w_AvailableBalance = 500, w_ProcessingBalance = 0, w_ActualBalance = 500, w_Checksum = [],
       w_Version = 0, w_CreatedAt = 0, w_UpdatedAt = 0, w_Profile = demo_profile, w_Merchant = Some demo_profile\<rparr>
     in wl\<lparr>w_Checksum := ComputeChecksum demo_ctx wl\<rparr>)"

lemma demo_wallet_fields [simp]:
  "w_Status demo_wallet = WalletStatusActive" "w_Checksum demo_wallet = ComputeChecksum demo_ctx demo_wallet"
  "w_AvailableBalance demo_wallet = 500" "w_ActualBalance demo_wallet = 500" "w_ProcessingBalance demo_wallet = 0"
  "w_ID demo_wallet = 1" "w_Version demo_wallet = 0"
  by (simp_all add: demo_wallet_def Let_def ComputeChecksum_def checksum_payload_def)

definition demo_world :: world where
  "demo_world = empty_world\<lparr>wallets := [1 \<mapsto> demo_wallet]\<rparr>"

definition demo_debit :: wallet_msg where
  "demo_debit = DebitWalletMsg \<lparr>wo_WalletId = ''1'', wo_Amount = 200, wo_Purpose = ''pay'', wo_TransactionId = ''7'',
     wo_IdempotencyKey = ''42''\<rparr>"

definition demo_opening :: "uuid \<Rightarrow> int" where "demo_opening = (\<lambda>i. 500)"

lemma demo_books: "books demo_ctx demo_opening demo_world"
  by (simp add: books_def demo_world_def empty_world_def demo_opening_def wallet_ok_def net_def
      unique_keys_def MaxInt64_def)

lemma demo_coherent: "coherent NewWalletActor demo_world"
  by (simp add: coherent_def NewWalletActor_def)

lemma demo_debit_valid: "wa_valid demo_debit"
  by (simp add: wa_valid_def demo_debit_def is_int64_def MinInt64_def MaxInt64_def)

theorem wallet_books_invariant_witness:
  "books demo_ctx demo_opening (snd (run_all (wa_exec demo_ctx) [demo_debit, demo_debit] (NewWalletActor, demo_world)))"
  using wallet_books_invariant [OF demo_quiet demo_books demo_coherent, of "[demo_debit, demo_debit]"] demo_debit_valid by simp

text \<open>
  Claim C6. An operation is applied at most once. After a message was answered with success, any message
  with the same wallet and key, after any other messages and failures, leaves all wallets and the whole
  ledger as they are, and if it answers with success it reports the same balances.
\<close>

theorem wallet_op_exactly_once:
  assumes "quiet c" "books c op0 w" "coherent a w" "wa_valid m" "list_all wa_valid ms" "wa_valid m'"
    and "fst (wa_exec c m (a, w)) = Inr r" "wa_key c m' = wa_key c m"
  shows "let s = run_all (wa_exec c) ms (snd (wa_exec c m (a, w))) in
    wa_core (snd (wa_exec c m' s)) = wa_core s \<and> (\<forall>r'. fst (wa_exec c m' s) = Inr r' \<longrightarrow> r' = r)"
  using wallet_service.settled [where c = c and op = op0 and s = "(a, w)" and m = m and m' = m' and ms = ms and r = r] assms by (simp add: wa_inv_def Let_def)

lemma demo_parse [simp]:
  "parse_uuid demo_ctx ''1'' = Some 1" "parse_uuid demo_ctx ''7'' = Some 7" "parse_uuid demo_ctx ''42'' = Some 42"
  by (simp_all add: demo_ctx_def is_digit_def digits_value_def digit_val_def)

lemma demo_debit_result: "fst (wa_exec demo_ctx demo_debit (NewWalletActor, demo_world)) = Inr \<lparr>ar_initial = 500, ar_updated = 300\<rparr>"
proof -
  have f: "fault demo_ctx n = NoFault" "interfere demo_ctx n t = t" for n t by (simp_all add: demo_ctx_def)
  show ?thesis
    by (simp add: wa_exec_def demo_debit_def wa_apply_def NewWalletActor_def uuid_Nil_def findLedger_def db_call_def f
        maxVersionRetries_def numeral_3_eq_3 current_def load_def demo_world_def empty_world_def persist_def
        next_wallet_def Let_def wrap64_def cache_Delete_def)
qed

theorem wallet_op_exactly_once_witness:
  "let s = run_all (wa_exec demo_ctx) [] (snd (wa_exec demo_ctx demo_debit (NewWalletActor, demo_world))) in
   wa_core (snd (wa_exec demo_ctx demo_debit s)) = wa_core s"
  using wallet_op_exactly_once [OF demo_quiet demo_books demo_coherent demo_debit_valid _ demo_debit_valid demo_debit_result,
      where ms = "[]"]
  by (simp add: Let_def)

text \<open>
  Claim C18. A definitive refusal moves nothing: when a WalletActor answers with one of the codes the
  TransactionActor treats as final, the wallets and the ledger are what they were before the message.
  (An operation that was stored but whose acknowledgement was lost answers with a code that is not final.)
\<close>

theorem wallet_refusal_moves_nothing:
  assumes "quiet c" "books c op0 w" "coherent a w" "wa_handle c action m a w = (reply, a', w')"
    and "Definitive (rm_ErrorCode reply)"
  shows "wallets w' = wallets w \<and> ledgers w' = ledgers w"
proof -
  obtain r where ap: "wa_apply c action (wo_WalletId m) (wo_TransactionId m) (wo_IdempotencyKey m) (wo_Amount m)
      (wo_Purpose m) a w = (r, a', w')" and code: "rm_ErrorCode reply = (case r of Inl e \<Rightarrow> e_Code (wrapInternal e) | Inr _ \<Rightarrow> [])"
    using assms(4) by (auto simp: wa_handle_def Let_def split: prod.splits sum.splits)
  obtain e where e: "r = Inl e" "Definitive (e_Code (wrapInternal e))"
    using code assms(5) by (cases r) auto
  from assms(1-3) ap show ?thesis
  proof (cases rule: wa_apply_outcome)
    case fresh
    with e show ?thesis by (auto simp: op_outcome_def same_tables_def)
  qed (auto simp: same_tables_def)
qed

text \<open>A debit of more than the wallet holds.\<close>

definition demo_big_debit :: wallet_op where
  "demo_big_debit = \<lparr>wo_WalletId = ''1'', wo_Amount = 900, wo_Purpose = ''pay'', wo_TransactionId = ''7'', wo_IdempotencyKey = ''42''\<rparr>"

theorem wallet_refusal_moves_nothing_witness:
  "rm_ErrorCode (fst (wa_handle demo_ctx LedgerTypeDebit demo_big_debit NewWalletActor demo_world)) = CodeInsufficientFunds \<and>
   wallets (snd (snd (wa_handle demo_ctx LedgerTypeDebit demo_big_debit NewWalletActor demo_world))) = wallets demo_world"
proof -
  let ?h = "wa_handle demo_ctx LedgerTypeDebit demo_big_debit NewWalletActor demo_world"
  have code: "rm_ErrorCode (fst ?h) = CodeInsufficientFunds"
    by (simp add: wa_handle_def demo_big_debit_def wa_apply_def NewWalletActor_def uuid_Nil_def findLedger_def db_call_def
        maxVersionRetries_def numeral_3_eq_3 current_def load_def demo_world_def empty_world_def Let_def newWalletError_def)
  then have "Definitive (rm_ErrorCode (fst ?h))" by (simp add: Definitive_def)
  then show ?thesis
    using code wallet_refusal_moves_nothing [OF demo_quiet demo_books demo_coherent, of LedgerTypeDebit demo_big_debit "fst ?h"
        "fst (snd ?h)" "snd (snd ?h)"]
    by simp
qed

text \<open>The branch structure of a working environment, step by step.\<close>

lemma current_active:
  assumes "faultless c" "books c op0 w" "coherent a w" "wallets w i = Some wl" "w_Status wl = WalletStatusActive"
  shows "\<exists>a1 w1. current c i a w = (Inr wl, a1, w1) \<and> same_tables w w1"
proof -
  have f: "fault c n = NoFault" for n using assms(1) by (simp add: faultless_def)
  have wl: "w_ID wl = i" "w_Checksum wl = [] \<or> w_Checksum wl = ComputeChecksum c wl"
    using assms(2,4) by (auto simp: books_def wallet_ok_def)
  have load: "load c i w = (Inr wl, w\<lparr>n_db := Suc (n_db w)\<rparr>)"
    using assms(4,5) wl(2) f by (auto simp: load_def db_call_def)
  show ?thesis
  proof (cases "\<exists>x. wa_wallet a = Some x \<and> w_ID x = i")
    case True
    with assms(3,4) have "wa_wallet a = Some wl" by (auto simp: coherent_def)
    with assms(5) wl(1) show ?thesis by (auto simp: current_def)
  next
    case False
    with load show ?thesis by (auto simp: current_def same_tables_def split: option.splits)
  qed
qed

lemma persist_faultless:
  assumes "quiet c" "faultless c" "wallets w (w_ID wl) = Some wl"
  shows "\<exists>a' w'. persist c wl action txID key amount purpose a w =
     (if w_AvailableBalance (next_wallet c wl action amount) < 0 \<or> w_ActualBalance (next_wallet c wl action amount) < 0
      then Inl (newWalletError CodeInsufficientFunds ''balance would go negative'')
      else Inr \<lparr>ar_initial = w_ActualBalance wl, ar_updated = w_ActualBalance (next_wallet c wl action amount)\<rparr>, a', w') \<and>
     (if w_AvailableBalance (next_wallet c wl action amount) < 0 \<or> w_ActualBalance (next_wallet c wl action amount) < 0
      then same_tables w w' else applied_to c wl action txID key amount purpose w w')"
proof -
  have f: "fault c n = NoFault" "interfere c n t = t" for n t using assms(1,2) by (simp_all add: faultless_def quiet_def)
  show ?thesis
    using assms(3)
    by (auto simp: persist_def Let_def db_call_def f applied_to_def write_wallet_self cache_Delete_def same_tables_def not_less)
qed

lemma next_wallet_nonneg:
  assumes ok: "wallet_ok c wl" and amt: "0 < amount" "amount \<le> MaxInt64"
    and act: "action = LedgerTypeDebit \<or> action = LedgerTypeCredit"
  shows "(0 \<le> w_AvailableBalance (next_wallet c wl action amount) \<and> 0 \<le> w_ActualBalance (next_wallet c wl action amount)) =
    (if action = LedgerTypeDebit then amount \<le> w_AvailableBalance wl else w_ActualBalance wl + amount \<le> MaxInt64)"
    (is "?N = ?C")
proof
  assume ?N
  then show ?C
    using next_wallet_exact [OF ok amt, of action] ok by (auto simp: wallet_ok_def signed_amount_def)
next
  assume C: ?C
  have b: "0 \<le> w_AvailableBalance wl" "w_AvailableBalance wl \<le> w_ActualBalance wl" "w_ActualBalance wl \<le> MaxInt64"
    using ok by (auto simp: wallet_ok_def)
  have neg: "wrap64 (- amount) = - amount"
    using amt by (intro wrap64_id) (simp add: is_int64_def MinInt64_def MaxInt64_def)
  show ?N
  proof (cases "action = LedgerTypeDebit")
    case True
    with C b amt neg wrap64_sub_nonneg [of "w_AvailableBalance wl" amount] wrap64_sub_nonneg [of "w_ActualBalance wl" amount]
    show ?thesis by (simp add: next_wallet_def Let_def)
  next
    case False
    have "is_int64 (w_AvailableBalance wl + amount)" "is_int64 (w_ActualBalance wl + amount)"
      using False C b amt by (auto simp: is_int64_def MinInt64_def)
    with False b amt show ?thesis by (simp add: next_wallet_def Let_def wrap64_id)
  qed
qed

lemma wa_attempts_faultless:
  assumes "quiet c" "faultless c" "books c op0 w" "coherent a w" "wallets w i = Some wl" "w_Status wl = WalletStatusActive"
    and amt: "0 < amount" "amount \<le> MaxInt64" and act: "action = LedgerTypeDebit \<or> action = LedgerTypeCredit"
  shows "\<exists>r a' w'. wa_attempts c (Suc n) e action i txID key amount purpose a w = (r, a', w') \<and>
    (if (if action = LedgerTypeDebit then amount \<le> w_AvailableBalance wl else w_ActualBalance wl + amount \<le> MaxInt64)
     then r = Inr \<lparr>ar_initial = w_ActualBalance wl, ar_updated = w_ActualBalance (next_wallet c wl action amount)\<rparr> \<and>
          applied_to c wl action txID key amount purpose w w'
     else (\<exists>msg. r = Inl (newWalletError CodeInsufficientFunds msg)) \<and> same_tables w w')"
proof -
  have ok: "wallet_ok c wl" and i: "w_ID wl = i" using assms(3,5) by (auto simp: books_def)
  obtain a1 w1 where cur: "current c i a w = (Inr wl, a1, w1)" "same_tables w w1"
    using current_active assms(2-6) by blast
  have row: "wallets w1 (w_ID wl) = Some wl" using cur(2) assms(5) i by (simp add: same_tables_def)
  obtain a2 w2 where p: "persist c wl action txID key amount purpose a1 w1 =
     (if w_AvailableBalance (next_wallet c wl action amount) < 0 \<or> w_ActualBalance (next_wallet c wl action amount) < 0
      then Inl (newWalletError CodeInsufficientFunds ''balance would go negative'')
      else Inr \<lparr>ar_initial = w_ActualBalance wl, ar_updated = w_ActualBalance (next_wallet c wl action amount)\<rparr>, a2, w2)"
    and t: "if w_AvailableBalance (next_wallet c wl action amount) < 0 \<or> w_ActualBalance (next_wallet c wl action amount) < 0
      then same_tables w1 w2 else applied_to c wl action txID key amount purpose w1 w2"
    using persist_faultless [OF assms(1,2) row] by blast
  note nn = next_wallet_nonneg [OF ok amt act]
  have code: "e_Code (wrapInternal (newWalletError CodeInsufficientFunds m)) \<noteq> CodeVersionConflict" for m
    by (simp add: newWalletError_def error_code_defs)
  show ?thesis
    using cur p t nn code act applied_to_same [OF cur(2)] same_tables_trans [OF cur(2)]
    by (auto simp: not_less not_le newWalletError_def split: if_splits)
qed

text \<open>
  Claim C9. The effect of an operation with a fresh key on an active wallet, when the database answers:
  it succeeds exactly when a debit is covered by the available balance, or a credit keeps the balance
  within \<open>int64\<close>. On success the available and actual balances of that wallet move by exactly the amount,
  its version by one, one ledger row with the operation's key records the balances before and after,
  and no other wallet changes. Otherwise the answer is insufficient funds and nothing changes.
\<close>

theorem wallet_op_effect:
  assumes "quiet c" "faultless c" "books c op0 w" "coherent a w" "wallets w i = Some wl" "w_Status wl = WalletStatusActive"
    and "0 < amount" "amount \<le> MaxInt64" "action = LedgerTypeDebit \<or> action = LedgerTypeCredit"
    and "parse_uuid c ws = Some i" "parse_uuid c ts = Some t" "parse_uuid c ks = Some k"
    and "wa_walletID a = uuid_Nil \<or> wa_walletID a = i" "\<not> has_key i k (ledgers w)"
  shows "\<exists>r a' w'. wa_apply c action ws ts ks amount purpose a w = (r, a', w') \<and>
    (if (if action = LedgerTypeDebit then amount \<le> w_AvailableBalance wl else w_ActualBalance wl + amount \<le> MaxInt64)
     then r = Inr \<lparr>ar_initial = w_ActualBalance wl, ar_updated = w_ActualBalance wl + signed_amount action amount\<rparr> \<and>
       (\<exists>row. wallets w' = (wallets w)(i \<mapsto> row) \<and>
          w_AvailableBalance row = w_AvailableBalance wl + signed_amount action amount \<and>
          w_ActualBalance row = w_ActualBalance wl + signed_amount action amount \<and>
          w_ProcessingBalance row = w_ProcessingBalance wl \<and> w_Version row = wrap64 (w_Version wl + 1)) \<and>
       (\<exists>l. ledgers w' = ledgers w @ [l] \<and> l_WalletID l = i \<and> l_TransactionID l = t \<and> l_IdempotencyKey l = Some k \<and>
          l_Type l = action \<and> l_Amount l = amount \<and> l_InitialBalance l = w_ActualBalance wl \<and>
          l_UpdatedBalance l = w_ActualBalance wl + signed_amount action amount)
     else (\<exists>msg. r = Inl (newWalletError CodeInsufficientFunds msg)) \<and> wallets w' = wallets w \<and> ledgers w' = ledgers w)"
proof -
  let ?w1 = "w\<lparr>n_db := Suc (n_db w)\<rparr>"
  have same: "same_tables w ?w1" by (simp add: same_tables_def)
  have st: "same_tables ?w1 x = same_tables w x" for x by (simp add: same_tables_def)
  have find: "findLedger c i k w = (Inr None, ?w1)"
    using assms(2,14) by (simp add: findLedger_def db_call_def faultless_def find_key_None)
  have ap: "wa_apply c action ws ts ks amount purpose a w = wa_attempts c (Suc 2) (OtherErr []) action i t k amount purpose a ?w1"
    using assms(7,10-13) find by (auto simp: wa_apply_def maxVersionRetries_def numeral_3_eq_3)
  have b1: "books c op0 ?w1" "coherent a ?w1" "wallets ?w1 i = Some wl"
    using assms(3-5) same_tables_books [OF same] same_tables_coherent [OF same] by simp_all
  obtain r a' w' where res: "wa_apply c action ws ts ks amount purpose a w = (r, a', w')"
    "if (if action = LedgerTypeDebit then amount \<le> w_AvailableBalance wl else w_ActualBalance wl + amount \<le> MaxInt64)
     then r = Inr \<lparr>ar_initial = w_ActualBalance wl, ar_updated = w_ActualBalance (next_wallet c wl action amount)\<rparr> \<and>
          applied_to c wl action t k amount purpose w w'
     else (\<exists>msg. r = Inl (newWalletError CodeInsufficientFunds msg)) \<and> same_tables w w'"
    using wa_attempts_faultless [OF assms(1,2) b1 assms(6-9), of 2 "OtherErr []" t k purpose]
    unfolding ap applied_to_same [OF same] st by (auto simp del: wa_attempts.simps)
  have ok: "wallet_ok c wl" "w_ID wl = i" using assms(3,5) by (auto simp: books_def)
  show ?thesis
  proof (cases "if action = LedgerTypeDebit then amount \<le> w_AvailableBalance wl else w_ActualBalance wl + amount \<le> MaxInt64")
    case True
    note nx = next_wallet_exact(1,2) [OF ok(1) assms(7,8)]
    from res(2) True have "r = Inr \<lparr>ar_initial = w_ActualBalance wl, ar_updated = w_ActualBalance (next_wallet c wl action amount)\<rparr>"
      "applied_to c wl action t k amount purpose w w'" by simp_all
    with nx show ?thesis using True res(1) ok(2) unfolding if_P [OF True]
      by (intro exI [of _ r] exI [of _ a'] exI [of _ w']) (auto simp: applied_to_def Let_def intro!: exI [of _ "(next_wallet c wl action amount)\<lparr>w_UpdatedAt := now c\<rparr>"])
  next
    case False
    with res show ?thesis by (auto simp: same_tables_def)
  qed
qed

theorem wallet_op_effect_witness:
  "\<exists>r a' w'. wa_apply demo_ctx LedgerTypeDebit ''1'' ''7'' ''42'' 200 ''pay'' NewWalletActor demo_world = (r, a', w') \<and>
     r = Inr \<lparr>ar_initial = 500, ar_updated = 300\<rparr> \<and>
     (\<exists>row. wallets w' = (wallets demo_world)(1 \<mapsto> row) \<and> w_AvailableBalance row = 300)"
proof -
  have "\<not> has_key 1 42 (ledgers demo_world)" "wallets demo_world 1 = Some demo_wallet"
    by (simp_all add: has_key_def demo_world_def empty_world_def)
  then show ?thesis
    using wallet_op_effect [OF demo_quiet demo_faultless demo_books demo_coherent, of 1 demo_wallet 200 LedgerTypeDebit "''1''" "''7''" 7 "''42''" 42 "''pay''"]
    by (auto simp: MaxInt64_def signed_amount_def NewWalletActor_def)
qed

end
