(* ===== verification/Transaction_Actor.thy ===== *)
theory Transaction_Actor
  imports Store
begin

text \<open>
  The TransactionActor (\<open>internal/actors/transaction.go\<close>) and the plan it runs
  (\<open>internal/actors/plan.go\<close>). \<open>tactor\<close> is its struct, \<open>transfer\<close> the bookkeeping of one leg. Each
  method is one definition with the actor and the world passed through. A loop over
  \<open>t.transfers\<close> that may send messages is \<open>each_leg\<close> with the loop body. The timer is the
  stage it was armed in; its firing is an event (\<open>Timeout\<close>). Reply counters and ticks are unbounded.

  The lemmas here: what each loop does to the legs and to the world, that the stages only move
  forward, and that the plan survives its way to the database and back.
\<close>

section \<open>State\<close>

datatype stage = stageIdle | stageProcessing | stageReversing | stageFinalized | stageCrediting

primrec stage_int :: "stage \<Rightarrow> int" where
  "stage_int stageIdle = 0"
| "stage_int stageProcessing = 1"
| "stage_int stageReversing = 2"
| "stage_int stageFinalized = 3"
| "stage_int stageCrediting = 4"

definition DefaultReplyTimeout :: time where "DefaultReplyTimeout = 30 * second"
definition finalizeAttempts :: nat where "finalizeAttempts = 3"
definition reversalLookback :: time where "reversalLookback = 400 * 24 * hour"

record transfer =
  tr_walletID :: uuid
  tr_action :: ledger_type
  tr_amount :: int64
  tr_purpose :: string
  tr_isFee :: bool
  tr_isInitial :: bool
  tr_key :: uuid
  tr_reversalKey :: "uuid option"
  tr_done :: bool
  tr_applied :: bool
  tr_retry :: bool
  tr_failCode :: error_code
  tr_failMsg :: string
  tr_reversed :: bool
  tr_reversalErr :: string
  tr_initial :: int64
  tr_updated :: int64
  tr_rInitial :: int64
  tr_rUpdated :: int64
  tr_seq :: int
  tr_rSeq :: int

record tactor =
  ta_replyTimeout :: time
  ta_transactionID :: uuid
  ta_createdAt :: time
  ta_transfers :: "transfer list"
  ta_stage :: stage
  ta_timer :: "stage option"
  ta_ticks :: int
  ta_replies :: int

definition inFlightKey :: "ctx \<Rightarrow> stage \<Rightarrow> transfer \<Rightarrow> string" where
  "inFlightKey c s tr =
     (case tr_reversalKey tr of
        Some k \<Rightarrow> if s = stageReversing then str_uuid c k else str_uuid c (tr_key tr)
      | None \<Rightarrow> str_uuid c (tr_key tr))"

definition NewTransactionActor :: tactor where
  "NewTransactionActor = \<lparr>ta_replyTimeout = DefaultReplyTimeout, ta_transactionID = uuid_Nil, ta_createdAt = 0,
     ta_transfers = [], ta_stage = stageIdle, ta_timer = None, ta_ticks = 0, ta_replies = 0\<rparr>"

definition WithReplyTimeout :: "time \<Rightarrow> tactor \<Rightarrow> tactor" where
  "WithReplyTimeout d t = (if d > 0 then t\<lparr>ta_replyTimeout := d\<rparr> else t)"

section \<open>The plan\<close>

definition EncodePlan :: "ctx \<Rightarrow> transfer_leg list \<Rightarrow> json" where
  "EncodePlan c plan = EncodeTransferLegs (str_uuid c) plan"

definition DecodePlan :: "ctx \<Rightarrow> json option \<Rightarrow> transfer_leg list option" where
  "DecodePlan c raw = DecodeTransferLegs (parse_uuid c) raw"

definition PlanToProto :: "ctx \<Rightarrow> transfer_leg list \<Rightarrow> TransferEntry list" where
  "PlanToProto c plan = map (\<lambda>e.
     \<lparr>te_WalletId = str_uuid c (tl_WalletID e), te_Action = tl_Action e, te_Amount = tl_Amount e,
      te_Purpose = tl_Purpose e, te_IdempotencyKey = str_uuid c (tl_IdempotencyKey e),
      te_ReversalKey = (case tl_ReversalKey e of Some k \<Rightarrow> str_uuid c k | None \<Rightarrow> []),
      te_IsFee = tl_IsFee e, te_IsInitial = tl_IsInitial e\<rparr>) plan"

definition new_transfer :: "ctx \<Rightarrow> TransferEntry \<Rightarrow> uuid \<Rightarrow> uuid \<Rightarrow> transfer" where
  "new_transfer c e wid key =
     \<lparr>tr_walletID = wid, tr_action = te_Action e, tr_amount = te_Amount e, tr_purpose = te_Purpose e,
      tr_isFee = te_IsFee e, tr_isInitial = te_IsInitial e, tr_key = key,
      tr_reversalKey = (if te_ReversalKey e \<noteq> [] then parse_uuid c (te_ReversalKey e) else None),
      tr_done = False, tr_applied = False, tr_retry = False, tr_failCode = [], tr_failMsg = [],
      tr_reversed = False, tr_reversalErr = [], tr_initial = 0, tr_updated = 0, tr_rInitial = 0,
      tr_rUpdated = 0, tr_seq = 0, tr_rSeq = 0\<rparr>"

text \<open>\<open>loadTransfers\<close>: the flag it returns, and the legs it has appended by then.\<close>

fun loadTransfers :: "ctx \<Rightarrow> TransferEntry list \<Rightarrow> bool \<times> transfer list" where
  "loadTransfers c [] = (True, [])"
| "loadTransfers c (e # es) =
     (case (parse_uuid c (te_WalletId e), parse_uuid c (te_IdempotencyKey e)) of
        (Some wid, Some key) \<Rightarrow>
          if te_Amount e \<le> 0 then (False, [])
          else (let (ok, trs) = loadTransfers c es in (ok, new_transfer c e wid key # trs))
      | _ \<Rightarrow> (False, []))"

text \<open>The leg as \<open>persistPlan\<close> writes it.\<close>

definition plan_entry :: "transfer \<Rightarrow> transfer_leg" where
  "plan_entry tr = \<lparr>tl_WalletID = tr_walletID tr, tl_Action = tr_action tr, tl_Amount = tr_amount tr,
     tl_Purpose = tr_purpose tr, tl_IsFee = tr_isFee tr, tl_IsInitial = tr_isInitial tr,
     tl_IdempotencyKey = tr_key tr, tl_ReversalKey = tr_reversalKey tr\<rparr>"

section \<open>Queries\<close>

definition inStage :: "tactor \<Rightarrow> transfer \<Rightarrow> bool" where
  "inStage t tr = (case ta_stage t of
      stageProcessing \<Rightarrow> tr_action tr = LedgerTypeDebit
    | stageCrediting \<Rightarrow> tr_action tr = LedgerTypeCredit
    | _ \<Rightarrow> True)"

definition working :: "tactor \<Rightarrow> bool" where
  "working t \<longleftrightarrow> ta_stage t = stageProcessing \<or> ta_stage t = stageCrediting \<or> ta_stage t = stageReversing"

definition debitsApplied :: "tactor \<Rightarrow> bool" where
  "debitsApplied t \<longleftrightarrow> list_all (\<lambda>tr. \<not> (tr_action tr = LedgerTypeDebit \<and> \<not> tr_applied tr)) (ta_transfers t)"

definition allDone :: "tactor \<Rightarrow> bool" where
  "allDone t \<longleftrightarrow> list_all (\<lambda>tr. \<not> (\<not> tr_done tr \<and> inStage t tr)) (ta_transfers t)"

definition anyFailed :: "tactor \<Rightarrow> bool" where
  "anyFailed t \<longleftrightarrow> list_ex (\<lambda>tr. tr_failCode tr \<noteq> []) (ta_transfers t)"

definition ownRow :: "tactor \<Rightarrow> transaction \<Rightarrow> bool" where
  "ownRow t r \<longleftrightarrow> tx_ID r = ta_transactionID t \<and> ta_createdAt t \<le> tx_CreatedAt r \<and>
     tx_CreatedAt r < ta_createdAt t + 2 * minute"

section \<open>Sending\<close>

fun each_leg :: "(transfer \<Rightarrow> world \<Rightarrow> transfer \<times> world) \<Rightarrow> transfer list \<Rightarrow> world \<Rightarrow> transfer list \<times> world" where
  "each_leg f [] w = ([], w)"
| "each_leg f (tr # trs) w =
     (let (tr', w1) = f tr w; (trs', w2) = each_leg f trs w1 in (tr' # trs', w2))"

definition for_legs :: "(transfer \<Rightarrow> world \<Rightarrow> transfer \<times> world) \<Rightarrow> tactor \<Rightarrow> world \<Rightarrow> tactor \<times> world" where
  "for_legs f t w = (let (trs, w') = each_leg f (ta_transfers t) w in (t\<lparr>ta_transfers := trs\<rparr>, w'))"

definition op_message :: "ctx \<Rightarrow> uuid \<Rightarrow> transfer \<Rightarrow> ledger_type \<Rightarrow> uuid \<Rightarrow> wallet_msg" where
  "op_message c txID tr action key =
     (let op = \<lparr>wo_WalletId = str_uuid c (tr_walletID tr), wo_Amount = tr_amount tr,
                wo_Purpose = (if action \<noteq> tr_action tr then ''reversal of txn '' @ str_uuid c txID else tr_purpose tr),
                wo_TransactionId = str_uuid c txID, wo_IdempotencyKey = str_uuid c key\<rparr>
      in if action = LedgerTypeCredit then CreditWalletMsg op else DebitWalletMsg op)"

definition ta_send :: "ctx \<Rightarrow> tactor \<Rightarrow> transfer \<Rightarrow> ledger_type \<Rightarrow> uuid \<Rightarrow> world \<Rightarrow> bool \<times> world" where
  "ta_send c t tr action key w =
     (let w1 = w\<lparr>n_pid := Suc (n_pid w)\<rparr> in
      if \<not> placed c (n_pid w) (tr_walletID tr) then (False, w1)
      else (True, w1\<lparr>outbox := outbox w1 @ [(tr_walletID tr, op_message c (ta_transactionID t) tr action key)]\<rparr>))"

text \<open>\<open>tr.retry = !t.send(ctx, tr, action, key)\<close>\<close>

definition try_send :: "ctx \<Rightarrow> tactor \<Rightarrow> ledger_type \<Rightarrow> uuid \<Rightarrow> transfer \<Rightarrow> world \<Rightarrow> transfer \<times> world" where
  "try_send c t action key tr w =
     (let (sent, w') = ta_send c t tr action key w in (tr\<lparr>tr_retry := \<not> sent\<rparr>, w'))"

definition fireLegs :: "ctx \<Rightarrow> tactor \<Rightarrow> world \<Rightarrow> tactor \<times> world" where
  "fireLegs c t w = for_legs (\<lambda>tr w.
     if tr_done tr \<or> \<not> inStage t tr then (tr, w) else try_send c t (tr_action tr) (tr_key tr) tr w) t w"

definition stopTimer :: "tactor \<Rightarrow> tactor" where "stopTimer t = t\<lparr>ta_timer := None\<rparr>"

definition armTimeout :: "tactor \<Rightarrow> tactor" where
  "armTimeout t = (stopTimer t)\<lparr>ta_timer := Some (ta_stage t)\<rparr>"

definition fireCredits :: "ctx \<Rightarrow> tactor \<Rightarrow> world \<Rightarrow> tactor \<times> world" where
  "fireCredits c t w =
     (let (t1, w1) = fireLegs c (t\<lparr>ta_stage := stageCrediting, ta_ticks := 0\<rparr>) w in (armTimeout t1, w1))"

definition persistPlan :: "ctx \<Rightarrow> tactor \<Rightarrow> world \<Rightarrow> world" where
  "persistPlan c t w0 =
     (let (f, w) = db_call c w0;
          raw = EncodePlan c (map plan_entry (ta_transfers t)) in
      (case f of
         Failed m \<Rightarrow> w
       | _ \<Rightarrow> snd (update_txns (ownRow t) (\<lambda>r. r\<lparr>tx_Transfers := Some raw, tx_UpdatedAt := now c\<rparr>) w)))"

definition heartbeat :: "ctx \<Rightarrow> tactor \<Rightarrow> world \<Rightarrow> world" where
  "heartbeat c t w0 =
     (let (f, w) = db_call c w0 in
      (case f of
         Failed m \<Rightarrow> w
       | _ \<Rightarrow> snd (update_txns (\<lambda>r. ownRow t r \<and> \<not> tx_IsCompleted r) (\<lambda>r. r\<lparr>tx_UpdatedAt := now c\<rparr>) w)))"

text \<open>\<open>k := uuid.New(); tr.reversalKey = &k\<close>\<close>

definition fresh_reversal_key :: "ctx \<Rightarrow> transfer \<Rightarrow> world \<Rightarrow> transfer \<times> world" where
  "fresh_reversal_key c tr w = (tr\<lparr>tr_reversalKey := Some (new_uuid c (n_uuid w))\<rparr>, w\<lparr>n_uuid := Suc (n_uuid w)\<rparr>)"

definition send_reversal :: "ctx \<Rightarrow> tactor \<Rightarrow> transfer \<Rightarrow> world \<Rightarrow> transfer \<times> world" where
  "send_reversal c t tr w =
     (case tr_reversalKey tr of
        Some k \<Rightarrow> try_send c t (Opposite (tr_action tr)) k (tr\<lparr>tr_done := False\<rparr>) w
      | None \<Rightarrow> (tr\<lparr>tr_done := False\<rparr>, w))"

definition fireReversals :: "ctx \<Rightarrow> tactor \<Rightarrow> world \<Rightarrow> tactor \<times> world" where
  "fireReversals c t w =
     (let (t1, w1) = for_legs (\<lambda>tr w.
              if tr_applied tr \<and> tr_reversalKey tr = None then fresh_reversal_key c tr w else (tr, w))
            (t\<lparr>ta_stage := stageReversing, ta_ticks := 0\<rparr>) w;
          w2 = persistPlan c t1 w1;
          (t2, w3) = for_legs (\<lambda>tr w.
              if \<not> tr_applied tr then (tr\<lparr>tr_done := True, tr_retry := False\<rparr>, w) else send_reversal c t1 tr w) t1 w2
      in (armTimeout t2, w3))"

text \<open>\<open>ctx.Send(ctx.Self(), &pb.FinalizeTransactionMsg{...})\<close>\<close>

definition send_finalize :: "ctx \<Rightarrow> tactor \<Rightarrow> world \<Rightarrow> world" where
  "send_finalize c t w = w\<lparr>selfbox := selfbox w @ [FinalizeTransactionMsg (str_uuid c (ta_transactionID t))]\<rparr>"

definition advance :: "ctx \<Rightarrow> tactor \<Rightarrow> world \<Rightarrow> tactor \<times> world" where
  "advance c t w =
     (if \<not> allDone t then (t, w)
      else if ta_stage t = stageProcessing \<or> ta_stage t = stageCrediting then
        (let (t1, w1) =
               (if anyFailed t then fireReversals c t w
                else if ta_stage t = stageProcessing then fireCredits c t w
                else (t, w))
         in (t1, if allDone t1 then send_finalize c t1 w1 else w1))
      else if ta_stage t = stageReversing then (t, send_finalize c t w)
      else (t, w))"

section \<open>Replies and ticks\<close>

definition set_leg :: "tactor \<Rightarrow> nat \<Rightarrow> transfer \<Rightarrow> tactor" where
  "set_leg t i tr = t\<lparr>ta_transfers := (ta_transfers t)[i := tr]\<rparr>"

definition lateApply :: "ctx \<Rightarrow> WalletResultMsg \<Rightarrow> nat \<Rightarrow> tactor \<Rightarrow> world \<Rightarrow> tactor \<times> world" where
  "lateApply c msg i t w =
     (let tr = ta_transfers t ! i;
          n = ta_replies t + 1;
          tr1 = tr\<lparr>tr_applied := True, tr_initial := rm_InitialBalance msg, tr_updated := rm_UpdatedBalance msg, tr_seq := n\<rparr>;
          t1 = set_leg (t\<lparr>ta_replies := n\<rparr>) i tr1 in
      if ta_stage t \<noteq> stageReversing then (t1, w)
      else
        (let (tr2, w1) = fresh_reversal_key c tr1 w;
             t2 = set_leg t1 i tr2;
             w2 = persistPlan c t2 w1;
             (tr3, w3) = send_reversal c t2 tr2 w2
         in (set_leg t2 i tr3, w3)))"

definition collect_leg :: "ctx \<Rightarrow> WalletResultMsg \<Rightarrow> nat \<Rightarrow> tactor \<Rightarrow> world \<Rightarrow> tactor \<times> world" where
  "collect_leg c msg i t w =
     (let tr = ta_transfers t ! i; code = rm_ErrorCode msg; n = ta_replies t + 1 in
      if tr_done tr then
        (if code = [] \<and> tr_failCode tr \<noteq> [] \<and> \<not> tr_applied tr then lateApply c msg i t w else (t, w))
      else if code = [] then
        (set_leg (t\<lparr>ta_replies := n\<rparr>) i
           (if ta_stage t = stageReversing
            then tr\<lparr>tr_done := True, tr_reversed := True, tr_rInitial := rm_InitialBalance msg,
                    tr_rUpdated := rm_UpdatedBalance msg, tr_rSeq := n\<rparr>
            else tr\<lparr>tr_done := True, tr_applied := True, tr_initial := rm_InitialBalance msg,
                    tr_updated := rm_UpdatedBalance msg, tr_seq := n\<rparr>), w)
      else if Definitive code then
        (set_leg (t\<lparr>ta_replies := n\<rparr>) i
           (if ta_stage t = stageReversing
            then tr\<lparr>tr_done := True, tr_reversalErr := code @ '': '' @ rm_ErrorMessage msg\<rparr>
            else tr\<lparr>tr_done := True, tr_failCode := code, tr_failMsg := rm_ErrorMessage msg\<rparr>), w)
      else (set_leg t i (tr\<lparr>tr_retry := True\<rparr>), w))"

text \<open>The index of the first leg the reply matches.\<close>

fun match_leg :: "(transfer \<Rightarrow> bool) \<Rightarrow> transfer list \<Rightarrow> nat option" where
  "match_leg P [] = None"
| "match_leg P (tr # trs) = (if P tr then Some 0 else map_option Suc (match_leg P trs))"

definition collect :: "ctx \<Rightarrow> WalletResultMsg \<Rightarrow> tactor \<Rightarrow> world \<Rightarrow> tactor \<times> world" where
  "collect c msg t w =
     (if \<not> working t then (t, w)
      else
        (let (t1, w1) =
               (case match_leg (\<lambda>tr. inFlightKey c (ta_stage t) tr = rm_IdempotencyKey msg) (ta_transfers t) of
                  None \<Rightarrow> (t, w)
                | Some i \<Rightarrow> collect_leg c msg i t w)
         in advance c t1 w1))"

definition resendPending :: "ctx \<Rightarrow> tactor \<Rightarrow> world \<Rightarrow> nat \<times> tactor \<times> world" where
  "resendPending c t w =
     (length (filter (\<lambda>tr. \<not> (tr_done tr \<or> \<not> inStage t tr)) (ta_transfers t)),
      for_legs (\<lambda>tr w.
        if tr_done tr \<or> \<not> inStage t tr \<or> \<not> tr_retry tr then (tr, w)
        else if ta_stage t = stageReversing then
          (case tr_reversalKey tr of
             None \<Rightarrow> (tr, w)
           | Some k \<Rightarrow> try_send c t (Opposite (tr_action tr)) k tr w)
        else try_send c t (tr_action tr) (tr_key tr) tr w) t w)"

definition tick :: "ctx \<Rightarrow> int \<Rightarrow> tactor \<Rightarrow> world \<Rightarrow> tactor \<times> world" where
  "tick c armed t w =
     (if stage_int (ta_stage t) \<noteq> armed \<or> \<not> working t then (t, w)
      else
        (let (pending, t1, w1) = resendPending c (t\<lparr>ta_ticks := ta_ticks t + 1\<rparr>) w in
         if pending = 0 then (t1, w1) else (armTimeout t1, heartbeat c t1 w1)))"

section \<open>Finalizing\<close>

definition failAll :: "error_code \<Rightarrow> string \<Rightarrow> tactor \<Rightarrow> tactor" where
  "failAll code msg t = t\<lparr>ta_transfers :=
     map (\<lambda>tr. tr\<lparr>tr_done := True, tr_failCode := code, tr_failMsg := msg\<rparr>) (ta_transfers t)\<rparr>"

text \<open>One point of a wallet's balance history: sequence number, balance before, balance after.\<close>

record point =
  pt_seq :: int
  pt_initial :: int64
  pt_updated :: int64

text \<open>\<open>byWallet\<close> and \<open>order\<close> together: the points of each wallet, in order of first appearance.\<close>

fun add_point :: "uuid \<Rightarrow> point \<Rightarrow> (uuid \<times> point list) list \<Rightarrow> (uuid \<times> point list) list" where
  "add_point i p [] = [(i, [p])]"
| "add_point i p ((j, ps) # r) = (if i = j then (j, ps @ [p]) # r else (j, ps) # add_point i p r)"

fun gather :: "transfer list \<Rightarrow> (uuid \<times> point list) list \<Rightarrow> (uuid \<times> point list) list option" where
  "gather [] acc = Some acc"
| "gather (tr # trs) acc =
     (let acc1 = (if tr_applied tr \<and> tr_seq tr > 0
                  then add_point (tr_walletID tr) \<lparr>pt_seq = tr_seq tr, pt_initial = tr_initial tr, pt_updated = tr_updated tr\<rparr> acc
                  else acc);
          acc2 = (if tr_reversed tr \<and> tr_rSeq tr > 0
                  then add_point (tr_walletID tr) \<lparr>pt_seq = tr_rSeq tr, pt_initial = tr_rInitial tr, pt_updated = tr_rUpdated tr\<rparr> acc1
                  else acc1) in
      if tr_applied tr \<and> tr_seq tr = 0 then None else gather trs acc2)"

fun earliest :: "point \<Rightarrow> point list \<Rightarrow> point" where
  "earliest p [] = p"
| "earliest p (q # qs) = earliest (if pt_seq q < pt_seq p then q else p) qs"

fun latest :: "point \<Rightarrow> point list \<Rightarrow> point" where
  "latest p [] = p"
| "latest p (q # qs) = latest (if pt_seq q > pt_seq p then q else p) qs"

definition movements :: "string \<Rightarrow> tactor \<Rightarrow> wallet_movement list option" where
  "movements currencyCode t =
     (case gather (ta_transfers t) [] of
        None \<Rightarrow> None
      | Some acc \<Rightarrow>
          if acc = [] then None
          else Some (map (\<lambda>(i, ps).
            \<lparr>mv_WalletID = i, mv_Currency = currencyCode,
             mv_InitialBalance = pt_initial (earliest (hd ps) (tl ps)),
             mv_UpdatedBalance = pt_updated (latest (hd ps) (tl ps)), mv_Entries = int (length ps)\<rparr>) acc))"

definition markReversed :: "ctx \<Rightarrow> tactor \<Rightarrow> string \<Rightarrow> world \<Rightarrow> transaction option \<times> world" where
  "markReversed c t rrn w =
     (let P = (\<lambda>r. tx_RRN r = rrn \<and> tx_Status r = TransactionStatusSuccess \<and>
            ta_createdAt t - reversalLookback \<le> tx_CreatedAt r \<and> tx_CreatedAt r < ta_createdAt t + minute);
          upd = (\<lambda>r. r\<lparr>tx_Status := TransactionStatusReversed, tx_Narration := ''Transaction reversed'', tx_UpdatedAt := now c\<rparr>)
      in (map_option upd (find P (txns w)), snd (update_txns P upd w)))"

text \<open>One attempt to write the outcome, in one database transaction: the row written and the original
  transaction marked reversed.\<close>

definition final_write :: "ctx \<Rightarrow> tactor \<Rightarrow> transaction_status \<Rightarrow> string \<Rightarrow> world \<Rightarrow>
    (string + transaction option \<times> transaction option) \<times> world" where
  "final_write c t status narration w0 =
     (let (f, w) = db_call c w0;
          P = (\<lambda>r. ownRow t r \<and> \<not> tx_IsCompleted r);
          upd = (\<lambda>r. r\<lparr>tx_Status := status, tx_Narration := narration, tx_DateCompleted := Some (now c),
                       tx_IsCompleted := True, tx_UpdatedAt := now c\<rparr>);
          row = map_option upd (find P (txns w));
          w1 = snd (update_txns P upd w);
          (original, w2) =
            (case row of
               None \<Rightarrow> (None, w1)
             | Some r \<Rightarrow>
                 (case tx_ProviderRef r of
                    Some rrn \<Rightarrow> if status = TransactionStatusSuccess \<and> tx_Type r = TransactionTypeReversal
                                then markReversed c t rrn w1 else (None, w1)
                  | None \<Rightarrow> (None, w1)))
      in (case f of
            Failed m \<Rightarrow> (Inl m, w)
          | LostAck m \<Rightarrow> (Inl m, w2)
          | NoFault \<Rightarrow> (Inr (row, original), w2)))"

text \<open>The retry loop: the result of the attempt that succeeded, and its number.\<close>

fun final_attempts :: "ctx \<Rightarrow> tactor \<Rightarrow> transaction_status \<Rightarrow> string \<Rightarrow> nat \<Rightarrow> nat \<Rightarrow> world \<Rightarrow>
    ((transaction option \<times> transaction option) \<times> nat) option \<times> world" where
  "final_attempts c t status narration attempt 0 w = (None, w)"
| "final_attempts c t status narration attempt (Suc n) w =
     (case final_write c t status narration w of
        (Inr r, w1) \<Rightarrow> (Some (r, attempt), w1)
      | (Inl m, w1) \<Rightarrow> final_attempts c t status narration (attempt + 1) n w1)"

definition Notify :: "transaction \<Rightarrow> wallet_movement list option \<Rightarrow> world \<Rightarrow> world" where
  "Notify tx mvs w = w\<lparr>notices := notices w @ [(tx, mvs)]\<rparr>"

definition alreadyFinal :: "ctx \<Rightarrow> tactor \<Rightarrow> transaction_status \<Rightarrow> bool \<Rightarrow> world \<Rightarrow> world" where
  "alreadyFinal c t status retried w0 =
     (let (f, w) = db_call c w0 in
      (case f of
         NoFault \<Rightarrow>
           (case find (ownRow t) (txns w) of
              None \<Rightarrow> w
            | Some row \<Rightarrow>
                if tx_Status row \<noteq> status then w
                else if retried then
                  Notify row (movements (tx_Currency row) t)
                    (if tx_Type row = TransactionTypeReversal then
                       (case tx_ProviderRef row of
                          Some ref \<Rightarrow>
                            cache_Delete (TransactionRRNKey ref #
                              (case tx_OrderID row of Some d \<Rightarrow> [TransactionOrderKey d] | None \<Rightarrow> [])) w
                        | None \<Rightarrow> w)
                     else w)
                else w)
       | _ \<Rightarrow> w))"

definition Poison :: "world \<Rightarrow> world" where "Poison w = w\<lparr>poisoned := True\<rparr>"

text \<open>The outcome \<open>finalize\<close> decides on: the status and its narration.\<close>

definition final_status :: "tactor \<Rightarrow> transaction_status \<times> string" where
  "final_status t =
     (case find (\<lambda>tr. tr_failCode tr \<noteq> []) (ta_transfers t) of
        None \<Rightarrow> (TransactionStatusSuccess, ''Transaction processed successfully'')
      | Some tr \<Rightarrow> (TransactionStatusFailed, humanMessage (tr_failCode tr) (tr_failMsg tr)))"

definition unreconciled :: "tactor \<Rightarrow> bool" where
  "unreconciled t \<longleftrightarrow> list_ex (\<lambda>tr. tr_applied tr \<and> fst (final_status t) = TransactionStatusFailed \<and> \<not> tr_reversed tr)
     (ta_transfers t)"

definition finalize :: "ctx \<Rightarrow> tactor \<Rightarrow> world \<Rightarrow> tactor \<times> world" where
  "finalize c t0 w =
     (if ta_stage t0 = stageFinalized \<or> ta_stage t0 = stageIdle \<or> \<not> allDone t0 then (t0, w)
      else
        (let t = stopTimer (t0\<lparr>ta_stage := stageFinalized\<rparr>);
             (status, text1) = final_status t;
             narration = (if unreconciled t then text1 @ '' (reversal incomplete, reconciliation required)'' else text1);
             (res, w1) = final_attempts c t status narration 1 finalizeAttempts w;
             w2 = (case res of
                     None \<Rightarrow> w1
                   | Some ((None, original), attempt) \<Rightarrow> alreadyFinal c t status (attempt > 1) w1
                   | Some ((Some row, original), attempt) \<Rightarrow>
                       Notify row (movements (tx_Currency row) t)
                         (case original of
                            None \<Rightarrow> w1
                          | Some og \<Rightarrow>
                              cache_Delete ([TransactionKey (str_uuid c (tx_ID og)), TransactionRRNKey (tx_RRN og)] @
                                (case tx_OrderID og of Some d \<Rightarrow> [TransactionOrderKey d] | None \<Rightarrow> [])) w1))
         in (t, Poison w2)))"

section \<open>Starting and resuming\<close>

text \<open>A NULL key is read as the zero UUID.\<close>

definition ledger_keys :: "ctx \<Rightarrow> tactor \<Rightarrow> world \<Rightarrow> uuid list" where
  "ledger_keys c t w = map (\<lambda>l. case l_IdempotencyKey l of Some k \<Rightarrow> k | None \<Rightarrow> uuid_Nil)
     (filter (\<lambda>l. l_TransactionID l = ta_transactionID t \<and> ta_createdAt t \<le> l_CreatedAt l \<and>
        l_CreatedAt l < now c + 24 * hour) (ledgers w))"

text \<open>The first loop of \<open>resume\<close>: progress read off the keys seen in the ledger.\<close>

definition leg_progress :: "uuid list \<Rightarrow> transfer \<Rightarrow> transfer" where
  "leg_progress keys tr =
     (let tr1 = tr\<lparr>tr_applied := tr_key tr \<in> set keys\<rparr> in
      (case tr_reversalKey tr of
         Some k \<Rightarrow> tr1\<lparr>tr_reversed := k \<in> set keys\<rparr>
       | None \<Rightarrow> tr1))"

definition needs_key :: "transfer \<Rightarrow> bool" where
  "needs_key tr \<longleftrightarrow> tr_applied tr \<and> \<not> tr_reversed tr \<and> tr_reversalKey tr = None"

definition resume_reversing :: "ctx \<Rightarrow> tactor \<Rightarrow> world \<Rightarrow> tactor \<times> world" where
  "resume_reversing c t w =
     (let (t1, w1) = for_legs (\<lambda>tr w.
              (let tr1 = (if tr_failCode tr = [] \<and> \<not> tr_applied tr
                          then tr\<lparr>tr_failCode := CodeUndeliverable, tr_failMsg := ''leg did not apply before recovery''\<rparr>
                          else tr)
               in if needs_key tr1 then fresh_reversal_key c tr1 w else (tr1, w)))
            (t\<lparr>ta_stage := stageReversing\<rparr>) w;
          w2 = (if list_ex needs_key (ta_transfers t) then persistPlan c t1 w1 else w1)
      in for_legs (\<lambda>tr w.
           if \<not> tr_applied tr \<or> tr_reversed tr then (tr\<lparr>tr_done := True\<rparr>, w) else send_reversal c t1 tr w) t1 w2)"

definition resume_forward :: "ctx \<Rightarrow> tactor \<Rightarrow> world \<Rightarrow> tactor \<times> world" where
  "resume_forward c t w =
     fireLegs c (t\<lparr>ta_stage := (if debitsApplied t then stageCrediting else stageProcessing),
       ta_transfers := map (\<lambda>tr. if tr_applied tr then tr\<lparr>tr_done := True\<rparr> else tr) (ta_transfers t)\<rparr>) w"

definition resume :: "ctx \<Rightarrow> tactor \<Rightarrow> world \<Rightarrow> tactor \<times> world" where
  "resume c t w0 =
     (let (f, w) = db_call c w0 in
      (case f of
         NoFault \<Rightarrow>
           (let t1 = t\<lparr>ta_transfers := map (leg_progress (ledger_keys c t w)) (ta_transfers t)\<rparr>;
                (t2, w2) = (if list_ex (\<lambda>tr. tr_reversalKey tr \<noteq> None) (ta_transfers t1)
                            then resume_reversing c t1 w else resume_forward c t1 w)
            in advance c (armTimeout t2) w2)
       | _ \<Rightarrow> (t, w)))"

definition startable :: "bool \<Rightarrow> transaction_status list" where
  "startable resumed = TransactionStatusPending # (if resumed then [TransactionStatusProcessing] else [])"

definition start :: "ctx \<Rightarrow> StartTransactionMsg \<Rightarrow> tactor \<Rightarrow> world \<Rightarrow> tactor \<times> world" where
  "start c msg t w =
     (if ta_stage t \<noteq> stageIdle then
        (if sm_Resume msg \<and> working t
         then (let (pending, t1, w1) = resendPending c t w in (t1, heartbeat c t1 w1))
         else (t, w))
      else
        (case parse_uuid c (sm_TransactionId msg) of
           None \<Rightarrow> (t, Poison w)
         | Some i \<Rightarrow>
             if ta_transactionID t \<noteq> uuid_Nil \<and> ta_transactionID t \<noteq> i then (t, w)
             else
               (let (ok, trs) = loadTransfers c (sm_Transfers msg);
                    t1 = t\<lparr>ta_transactionID := i, ta_createdAt := sm_CreatedAtUnix msg * second, ta_transfers := trs\<rparr> in
                if \<not> ok then
                  finalize c (failAll CodeInvalidMessage ''malformed transfer entry'' (t1\<lparr>ta_stage := stageProcessing\<rparr>)) w
                else
                  (let (f, w1) = db_call c w;
                       (n, w2) = update_txns (\<lambda>r. ownRow t1 r \<and> tx_Status r \<in> set (startable (sm_Resume msg)))
                          (\<lambda>r. r\<lparr>tx_Status := TransactionStatusProcessing, tx_UpdatedAt := now c\<rparr>) w1 in
                   (case f of
                      Failed m \<Rightarrow> (t1, w1)
                    | LostAck m \<Rightarrow> (t1, w2)
                    | NoFault \<Rightarrow>
                        if n = 0 then (t1, Poison w2)
                        else if sm_Resume msg then resume c t1 w2
                        else
                          (let (t2, w3) = fireLegs c (t1\<lparr>ta_stage := stageProcessing\<rparr>) w2
                           in advance c (armTimeout t2) w3))))))"

datatype ta_event =
    GrainInit string
  | StartTransaction StartTransactionMsg
  | WalletResult WalletResultMsg
  | Timeout int
  | Finalize
  | Stopping

fun ta_Receive :: "ctx \<Rightarrow> ta_event \<Rightarrow> tactor \<Rightarrow> world \<Rightarrow> tactor \<times> world" where
  "ta_Receive c (GrainInit identity) t w =
     (case parse_uuid c identity of Some i \<Rightarrow> t\<lparr>ta_transactionID := i\<rparr> | None \<Rightarrow> t, w)"
| "ta_Receive c (StartTransaction msg) t w = start c msg t w"
| "ta_Receive c (WalletResult msg) t w = collect c msg t w"
| "ta_Receive c (Timeout armed) t w = tick c armed t w"
| "ta_Receive c Finalize t w = finalize c t w"
| "ta_Receive c Stopping t w = (stopTimer t, w)"

section \<open>Loops and frames\<close>

lemma each_leg_world:
  assumes "\<And>tr w. g (snd (f tr w)) = g w"
  shows "g (snd (each_leg f trs w)) = g w"
  by (induction trs arbitrary: w) (simp_all add: assms split_beta Let_def)

lemma each_leg_rel:
  assumes "\<And>tr w. tr \<in> set trs \<Longrightarrow> R tr (fst (f tr w))"
  shows "list_all2 R trs (fst (each_leg f trs w))"
  using assms by (induction trs arbitrary: w) (simp_all add: split_beta Let_def)

lemma for_legs_frame [simp, actor_simps]:
  "ta_stage (fst (for_legs f t w)) = ta_stage t"
  "ta_transactionID (fst (for_legs f t w)) = ta_transactionID t"
  "ta_createdAt (fst (for_legs f t w)) = ta_createdAt t"
  "ta_replies (fst (for_legs f t w)) = ta_replies t"
  "ta_transfers (fst (for_legs f t w)) = fst (each_leg f (ta_transfers t) w)"
  "snd (for_legs f t w) = snd (each_leg f (ta_transfers t) w)"
  by (simp_all add: for_legs_def split_beta Let_def)

lemma arm_frame [simp, actor_simps]:
  "ta_stage (armTimeout t) = ta_stage t" "ta_transfers (armTimeout t) = ta_transfers t"
  "ta_stage (stopTimer t) = ta_stage t" "ta_transfers (stopTimer t) = ta_transfers t"
  "ta_transactionID (armTimeout t) = ta_transactionID t" "ta_createdAt (armTimeout t) = ta_createdAt t"
  "ta_transactionID (stopTimer t) = ta_transactionID t" "ta_createdAt (stopTimer t) = ta_createdAt t"
  by (simp_all add: armTimeout_def stopTimer_def)

lemma set_leg_frame [simp, actor_simps]:
  "ta_stage (set_leg t i tr) = ta_stage t" "ta_transfers (set_leg t i tr) = (ta_transfers t)[i := tr]"
  "ta_transactionID (set_leg t i tr) = ta_transactionID t" "ta_createdAt (set_leg t i tr) = ta_createdAt t"
  by (simp_all add: set_leg_def)

text \<open>What a component of the world has to ignore for every effect of the TransactionActor to keep it.\<close>

definition actor_blind :: "(world \<Rightarrow> 'a) \<Rightarrow> bool" where
  "actor_blind g \<longleftrightarrow> (\<forall>w x. g (w\<lparr>n_pid := x\<rparr>) = g w) \<and> (\<forall>w x. g (w\<lparr>outbox := x\<rparr>) = g w) \<and> (\<forall>w x. g (w\<lparr>n_db := x\<rparr>) = g w) \<and>
     (\<forall>w x. g (w\<lparr>txns := x\<rparr>) = g w) \<and> (\<forall>w x. g (w\<lparr>n_uuid := x\<rparr>) = g w) \<and> (\<forall>w x. g (w\<lparr>selfbox := x\<rparr>) = g w) \<and>
     (\<forall>w x. g (w\<lparr>notices := x\<rparr>) = g w) \<and> (\<forall>w x. g (w\<lparr>evicted := x\<rparr>) = g w) \<and> (\<forall>w x. g (w\<lparr>poisoned := x\<rparr>) = g w)"

lemma actor_blind_tables: "actor_blind (\<lambda>w. (wallets w, ledgers w))"
  by (simp add: actor_blind_def)

lemma blind_basic:
  assumes "actor_blind g"
  shows "g (snd (try_send c t a k tr w)) = g w" "g (snd (fresh_reversal_key c tr w)) = g w"
    "g (persistPlan c t w) = g w" "g (heartbeat c t w) = g w" "g (send_finalize c t w) = g w" "g (Poison w) = g w"
    "g (Notify tx mvs w) = g w" "g (cache_Delete ks w) = g w" "g (snd (update_txns P f w)) = g w" "g (snd (db_call c w)) = g w"
  using assms
  by (simp_all add: actor_blind_def try_send_def ta_send_def fresh_reversal_key_def persistPlan_def heartbeat_def send_finalize_def
      Poison_def Notify_def cache_Delete_def update_txns_def db_call_def Let_def split: fault.split)

lemma blind_loops:
  assumes "actor_blind g"
  shows "g (snd (send_reversal c t tr w)) = g w" "g (snd (fireLegs c t w)) = g w" "g (snd (snd (resendPending c t w))) = g w"
    "g (snd (fireReversals c t w)) = g w" "g (snd (fireCredits c t w)) = g w" "g (snd (resume_reversing c t w)) = g w"
    "g (snd (resume_forward c t w)) = g w"
proof -
  show rev: "g (snd (send_reversal c t tr w)) = g w" for t tr w
    by (simp add: send_reversal_def blind_basic [OF assms] split: option.split)
  show legs: "g (snd (fireLegs c t w)) = g w" for t w
    unfolding fireLegs_def for_legs_frame by (intro each_leg_world) (simp add: blind_basic [OF assms])
  show "g (snd (snd (resendPending c t w))) = g w"
    unfolding resendPending_def snd_conv for_legs_frame
    by (intro each_leg_world) (simp add: blind_basic [OF assms] split: option.split)
  have loop: "g (snd (each_leg f trs w)) = g w" if "\<And>tr w. g (snd (f tr w)) = g w" for f trs w
    using that by (rule each_leg_world)
  show "g (snd (fireReversals c t w)) = g w"
    by (simp add: fireReversals_def split_beta Let_def loop rev blind_basic [OF assms])
  show "g (snd (fireCredits c t w)) = g w" by (simp add: fireCredits_def split_beta Let_def legs)
  show "g (snd (resume_reversing c t w)) = g w"
    by (simp add: resume_reversing_def split_beta Let_def loop rev blind_basic [OF assms])
  show "g (snd (resume_forward c t w)) = g w" by (simp add: resume_forward_def legs)
qed

lemma blind_handlers:
  assumes "actor_blind g"
  shows "g (snd (advance c t w)) = g w" "g (snd (collect c msg t w)) = g w" "g (snd (tick c armed t w)) = g w"
    "g (snd (finalize c t w)) = g w" "g (snd (resume c t w)) = g w"
proof -
  note b = blind_basic [OF assms] and l = blind_loops [OF assms]
  show adv: "g (snd (advance c t w)) = g w" for t w
    by (simp add: advance_def split_beta Let_def b l)
  have leg: "g (snd (collect_leg c msg i t w)) = g w" for i t w
    by (simp add: collect_leg_def lateApply_def split_beta Let_def b l)
  show "g (snd (collect c msg t w)) = g w"
    by (simp add: collect_def split_beta Let_def adv leg split: option.split)
  show "g (snd (tick c armed t w)) = g w" by (simp add: tick_def split_beta Let_def b l)
  have fw: "g (snd (final_write c t st n w)) = g w" for t st n w
    by (simp add: final_write_def markReversed_def split_beta Let_def b split: fault.split option.split)
  have fa: "g (snd (final_attempts c t st n k m w)) = g w" for t st n k m w
  proof (induction m arbitrary: k w)
    case (Suc m)
    with fw [of t st n w] show ?case by (cases "final_write c t st n w") (auto split: sum.split)
  qed simp
  have al: "g (alreadyFinal c t st r w) = g w" for t st r w
    by (simp add: alreadyFinal_def split_beta Let_def b split: fault.split option.split)
  show "g (snd (finalize c t w)) = g w"
    by (simp add: finalize_def split_beta Let_def b fa al split: option.split)
  show "g (snd (resume c t w)) = g w"
    by (simp add: resume_def split_beta Let_def adv b l split: fault.split)
qed

lemma blind_Receive:
  assumes "actor_blind g"
  shows "g (snd (ta_Receive c ev t w)) = g w"
proof -
  note b = blind_basic [OF assms] and l = blind_loops [OF assms] and h = blind_handlers [OF assms]
  have "g (snd (start c msg t w)) = g w" for msg
    by (simp add: start_def split_beta Let_def b l h split: fault.split option.split)
  then show ?thesis by (cases ev) (simp_all add: h)
qed

section \<open>Stages\<close>

text \<open>The order of the lifecycle.\<close>

primrec stage_rank :: "stage \<Rightarrow> nat" where
  "stage_rank stageIdle = 0"
| "stage_rank stageProcessing = 1"
| "stage_rank stageCrediting = 2"
| "stage_rank stageReversing = 3"
| "stage_rank stageFinalized = 4"

lemma fire_stage [simp, actor_simps]:
  "ta_stage (fst (fireLegs c t w)) = ta_stage t" "ta_stage (fst (fireCredits c t w)) = stageCrediting"
  "ta_stage (fst (fireReversals c t w)) = stageReversing" "ta_stage (fst (snd (resendPending c t w))) = ta_stage t"
  "ta_stage (fst (resume_reversing c t w)) = stageReversing"
  "ta_stage (fst (resume_forward c t w)) = (if debitsApplied t then stageCrediting else stageProcessing)"
  by (simp_all add: fireLegs_def fireCredits_def fireReversals_def resendPending_def resume_reversing_def resume_forward_def
      split_beta Let_def)

lemma collect_leg_stage [simp]: "ta_stage (fst (collect_leg c msg i t w)) = ta_stage t"
  by (simp add: collect_leg_def lateApply_def split_beta Let_def)

lemma advance_rank: "stage_rank (ta_stage t) \<le> stage_rank (ta_stage (fst (advance c t w)))"
  by (auto simp: advance_def split_beta Let_def)

lemma finalize_rank: "stage_rank (ta_stage t) \<le> stage_rank (ta_stage (fst (finalize c t w)))"
  by (cases "ta_stage t") (simp_all add: finalize_def split_beta Let_def)

lemma Receive_rank:
  "stage_rank (ta_stage t) \<le> stage_rank (ta_stage (fst (ta_Receive c ev t w)))"
proof (cases ev)
  case (StartTransaction msg)
  show ?thesis
  proof (cases "ta_stage t = stageIdle")
    case False
    with StartTransaction show ?thesis by (simp add: start_def split_beta Let_def)
  qed simp
next
  case (WalletResult msg)
  have "ta_stage (fst (case m of None \<Rightarrow> (t, w) | Some i \<Rightarrow> collect_leg c msg i t w)) = ta_stage t" for m
    by (simp split: option.split)
  then show ?thesis
    using WalletResult advance_rank by (simp add: collect_def split_beta Let_def) metis
qed (simp_all add: tick_def finalize_rank split_beta Let_def split: option.split)

text \<open>
  The lifecycle only moves forward: whatever message a TransactionActor receives in whatever
  state, its stage never goes back in the order idle, processing (debits), crediting, reversing,
  finalized; in particular a finalized transaction is never reopened.
\<close>

theorem stages_only_forward:
  "stage_rank (ta_stage t) \<le> stage_rank (ta_stage (fst (ta_Receive c ev t w)))"
  by (rule Receive_rank)

text \<open>
  The orchestrator moves no money itself: no message makes a TransactionActor write the wallets
  or the ledger tables. Balances change only in the WalletActors it asks.
\<close>

theorem orchestrator_moves_no_money:
  "wallets (snd (ta_Receive c ev t w)) = wallets w \<and> ledgers (snd (ta_Receive c ev t w)) = ledgers w"
  using blind_Receive [OF actor_blind_tables, of c ev t w] by simp

section \<open>The plan\<close>

lemma loadTransfers_PlanToProto:
  assumes "uuid_codec c" "\<forall>e \<in> set plan. 0 < tl_Amount e"
  shows "fst (loadTransfers c (PlanToProto c plan)) \<and> map plan_entry (snd (loadTransfers c (PlanToProto c plan))) = plan"
  using assms(2)
proof (induction plan)
  case (Cons e plan)
  then show ?case
    by (cases e; cases "tl_ReversalKey e")
      (simp_all add: PlanToProto_def plan_entry_def new_transfer_def split_beta Let_def uuid_codecD [OF assms(1)])
qed (simp add: PlanToProto_def)

text \<open>
  Claim C21. A plan survives the two ways it travels: decoding the JSON column gives back the legs that were
  encoded, and the legs an orchestrator loads from a start message are the legs of the plan the message
  was built from, with their keys and reversal keys, so that writing the plan back stores the same plan.
\<close>

theorem plan_survives:
  assumes "uuid_codec c" "\<forall>e \<in> set plan. 0 < tl_Amount e \<and> tl_Amount e \<le> MaxInt64"
  shows "DecodePlan c (Some (EncodePlan c plan)) = Some plan \<and>
    fst (loadTransfers c (PlanToProto c plan)) \<and> map plan_entry (snd (loadTransfers c (PlanToProto c plan))) = plan"
proof -
  have "\<forall>e \<in> set plan. is_int64 (tl_Amount e)" using assms(2) by (auto simp: is_int64_def MinInt64_def)
  then show ?thesis
    using loadTransfers_PlanToProto [OF assms(1)] assms uuid_codecD(1) [OF assms(1)]
    by (simp add: DecodePlan_def EncodePlan_def DecodeTransferLegs_Encode)
qed

definition demo_plan :: "transfer_leg list" where
  "demo_plan =
    [\<lparr>tl_WalletID = 1, tl_Action = LedgerTypeDebit, tl_Amount = 200, tl_Purpose = ''pay'', tl_IsFee = False, tl_IsInitial = True,
      tl_IdempotencyKey = 42, tl_ReversalKey = None\<rparr>,
     \<lparr>tl_WalletID = 2, tl_Action = LedgerTypeCredit, tl_Amount = 200, tl_Purpose = ''receive'', tl_IsFee = False, tl_IsInitial = True,
      tl_IdempotencyKey = 43, tl_ReversalKey = Some 44\<rparr>]"

theorem plan_survives_witness:
  "DecodePlan demo_ctx (Some (EncodePlan demo_ctx demo_plan)) = Some demo_plan \<and>
   map plan_entry (snd (loadTransfers demo_ctx (PlanToProto demo_ctx demo_plan))) = demo_plan"
proof -
  have "\<forall>e \<in> set demo_plan. 0 < tl_Amount e \<and> tl_Amount e \<le> MaxInt64" by (simp add: demo_plan_def MaxInt64_def)
  from plan_survives [OF demo_codec this] show ?thesis by simp
qed

end
