(* ===== verification/Transaction_Outcome.thy ===== *)
theory Transaction_Outcome
  imports Transaction_Actor
begin

text \<open>
  The invariant of a TransactionActor. \<open>leg_fwd\<close> is the bookkeeping of a leg while debits and credits
  are applied, \<open>leg_rev\<close> while applied legs are undone, \<open>settled\<close> what holds at the end. \<open>tinv\<close> puts
  them together per stage and every event keeps it, provided a start message carries a
  well-formed plan (\<open>ok_event\<close>); the replies and ticks are arbitrary. From it: credits are requested
  only after every debit has applied, and a finalized transaction has left no leg unsettled.
\<close>

section \<open>Legs through the loops\<close>

lemma each_leg_all:
  assumes "\<And>tr w. P tr \<Longrightarrow> Q (fst (f tr w))" "list_all P trs"
  shows "list_all Q (fst (each_leg f trs w))"
  using assms(2) by (induction trs arbitrary: w) (simp_all add: assms(1) split_beta Let_def)

lemma each_leg_ex:
  assumes "\<And>tr w. P tr \<Longrightarrow> Q (fst (f tr w))" "list_ex P trs"
  shows "list_ex Q (fst (each_leg f trs w))"
  using assms(2) by (induction trs arbitrary: w) (auto simp: assms(1) split_beta Let_def)

text \<open>A step that changes at most the retry flag, and predicates that do not look at it.\<close>

definition same_leg :: "transfer \<Rightarrow> transfer \<Rightarrow> bool" where
  "same_leg tr tr' \<longleftrightarrow> tr' = tr\<lparr>tr_retry := tr_retry tr'\<rparr>"

definition retry_blind :: "(transfer \<Rightarrow> bool) \<Rightarrow> bool" where
  "retry_blind P \<longleftrightarrow> (\<forall>tr b. P (tr\<lparr>tr_retry := b\<rparr>) = P tr)"

lemma same_leg_refl [simp]: "same_leg tr tr"
  by (simp add: same_leg_def)

lemma same_leg_try_send [simp]: "same_leg tr (fst (try_send c t a k tr w))"
  by (simp add: same_leg_def try_send_def split_beta Let_def)

lemma same_leg_blind:
  assumes "same_leg tr tr'" "retry_blind P"
  shows "P tr' = P tr"
proof -
  have e: "tr' = tr\<lparr>tr_retry := tr_retry tr'\<rparr>" using assms(1) by (simp only: same_leg_def)
  show ?thesis using assms(2) by (subst e) (simp only: retry_blind_def)
qed

lemma same_legs_all:
  assumes "list_all2 same_leg trs trs'" "retry_blind P"
  shows "list_all P trs' = list_all P trs" "list_ex P trs' = list_ex P trs"
proof -
  have "list_all P trs' = list_all P trs \<and> list_ex P trs' = list_ex P trs"
    using assms(1)
  proof (induction trs trs' rule: list_all2_induct)
    case (Cons x xs y ys)
    with same_leg_blind [OF Cons(1) assms(2)] show ?case by simp
  qed simp
  then show "list_all P trs' = list_all P trs" "list_ex P trs' = list_ex P trs" by simp_all
qed

lemma fireLegs_same: "list_all2 same_leg (ta_transfers t) (ta_transfers (fst (fireLegs c t w)))"
  unfolding fireLegs_def for_legs_frame by (intro each_leg_rel) simp

lemma resendPending_same: "list_all2 same_leg (ta_transfers t) (ta_transfers (fst (snd (resendPending c t w))))"
  unfolding resendPending_def snd_conv for_legs_frame by (intro each_leg_rel) (simp split: option.split)

section \<open>The invariant\<close>

definition leg_static :: "transfer \<Rightarrow> bool" where
  "leg_static tr \<longleftrightarrow> tr_action tr = LedgerTypeDebit \<or> tr_action tr = LedgerTypeCredit"

definition leg_fwd :: "transfer \<Rightarrow> bool" where
  "leg_fwd tr \<longleftrightarrow> leg_static tr \<and> tr_reversalKey tr = None \<and> \<not> tr_reversed tr \<and>
     (tr_done tr \<longleftrightarrow> tr_applied tr \<or> tr_failCode tr \<noteq> [])"

definition leg_rev :: "transfer \<Rightarrow> bool" where
  "leg_rev tr \<longleftrightarrow> leg_static tr \<and> (tr_applied tr \<longleftrightarrow> tr_reversalKey tr \<noteq> None) \<and> (tr_reversed tr \<longrightarrow> tr_applied tr \<and> tr_done tr) \<and>
     (\<not> tr_applied tr \<longrightarrow> tr_done tr) \<and> (tr_applied tr \<and> tr_done tr \<longrightarrow> tr_reversed tr \<or> tr_reversalErr tr \<noteq> [])"

text \<open>A successful leg, and a leg of a failed transaction, at the end.\<close>

definition leg_won :: "transfer \<Rightarrow> bool" where
  "leg_won tr \<longleftrightarrow> tr_applied tr \<and> tr_reversalKey tr = None \<and> \<not> tr_reversed tr"

definition leg_undone :: "transfer \<Rightarrow> bool" where
  "leg_undone tr \<longleftrightarrow> leg_rev tr \<and> tr_done tr"

definition settled :: "tactor \<Rightarrow> bool" where
  "settled t \<longleftrightarrow> (if anyFailed t then list_all leg_undone (ta_transfers t) else list_all leg_won (ta_transfers t))"

text \<open>Before \<open>advance\<close>, and at rest.\<close>

definition ready :: "tactor \<Rightarrow> bool" where
  "ready t = (case ta_stage t of
      stageProcessing \<Rightarrow> list_all leg_fwd (ta_transfers t)
    | stageCrediting \<Rightarrow> list_all leg_fwd (ta_transfers t) \<and> debitsApplied t
    | stageReversing \<Rightarrow> list_all leg_rev (ta_transfers t) \<and> anyFailed t
    | _ \<Rightarrow> False)"

definition tinv :: "tactor \<Rightarrow> bool" where
  "tinv t = (case ta_stage t of
      stageIdle \<Rightarrow> True
    | stageProcessing \<Rightarrow> ready t \<and> \<not> allDone t
    | stageCrediting \<Rightarrow> ready t \<and> (allDone t \<longrightarrow> \<not> anyFailed t)
    | stageReversing \<Rightarrow> ready t
    | stageFinalized \<Rightarrow> settled t)"

lemmas leg_defs = leg_static_def leg_fwd_def leg_rev_def leg_won_def leg_undone_def

lemma retry_blinds [simp]:
  "retry_blind leg_fwd" "retry_blind leg_rev" "retry_blind (\<lambda>tr. tr_failCode tr \<noteq> [])"
  "retry_blind (\<lambda>tr. \<not> (tr_action tr = LedgerTypeDebit \<and> \<not> tr_applied tr))" "retry_blind (\<lambda>tr. \<not> (\<not> tr_done tr \<and> inStage t tr))"
  by (simp_all add: retry_blind_def leg_defs inStage_def split: stage.split)

lemma inStage_cong: "ta_stage t' = ta_stage t \<Longrightarrow> inStage t' tr = inStage t tr"
  by (simp add: inStage_def)

lemma same_legs_queries:
  assumes "list_all2 same_leg (ta_transfers t) (ta_transfers t')" "ta_stage t' = ta_stage t"
  shows "ready t' = ready t" "allDone t' = allDone t" "anyFailed t' = anyFailed t" "debitsApplied t' = debitsApplied t" "tinv t = tinv t' \<or> ta_stage t = stageFinalized"
proof -
  show ad: "allDone t' = allDone t"
    unfolding allDone_def inStage_cong [OF assms(2)] by (rule same_legs_all [OF assms(1)]) (rule retry_blinds)
  show af: "anyFailed t' = anyFailed t"
    unfolding anyFailed_def by (rule same_legs_all [OF assms(1)]) (rule retry_blinds)
  show da: "debitsApplied t' = debitsApplied t"
    unfolding debitsApplied_def by (rule same_legs_all [OF assms(1)]) (rule retry_blinds)
  show r: "ready t' = ready t"
    using same_legs_all [OF assms(1)] af da by (simp add: ready_def assms(2) split: stage.split)
  show "tinv t = tinv t' \<or> ta_stage t = stageFinalized"
    using ad af r assms(2) by (simp add: tinv_def split: stage.split)
qed

lemma ready_working: "ready t \<Longrightarrow> working t"
  by (auto simp: ready_def working_def split: stage.splits)

lemma tinv_ready: "tinv t \<Longrightarrow> working t \<Longrightarrow> ready t"
  by (auto simp: tinv_def working_def)

section \<open>Preservation\<close>

lemma fireReversals_legs:
  assumes "list_all leg_fwd (ta_transfers t)"
  shows "list_all leg_rev (ta_transfers (fst (fireReversals c t w)))"
proof -
  let ?P = "\<lambda>tr. leg_static tr \<and> (tr_applied tr \<longleftrightarrow> tr_reversalKey tr \<noteq> None) \<and> \<not> tr_reversed tr"
  show ?thesis
    unfolding fireReversals_def split_beta Let_def fst_conv arm_frame for_legs_frame
    by (rule each_leg_all [where P = ?P], rule_tac [2] each_leg_all [where P = leg_fwd])
      (use assms in \<open>auto simp: leg_defs send_reversal_def try_send_def fresh_reversal_key_def split_beta Let_def\<close>)
qed

lemma fireReversals_failed:
  assumes "anyFailed t"
  shows "anyFailed (fst (fireReversals c t w))"
  using assms unfolding anyFailed_def fireReversals_def split_beta Let_def fst_conv arm_frame for_legs_frame
  by (intro each_leg_ex [where P = "\<lambda>tr. tr_failCode tr \<noteq> []"])
    (auto simp: send_reversal_def try_send_def fresh_reversal_key_def split_beta Let_def split: option.split)

lemma ready_processing_advance:
  assumes "ready t" "ta_stage t = stageProcessing" "allDone t" "\<not> anyFailed t"
  shows "tinv (fst (fireCredits c t w))"
proof -
  let ?t1 = "t\<lparr>ta_stage := stageCrediting, ta_ticks := 0\<rparr>"
  let ?t2 = "fst (fireLegs c ?t1 w)"
  have fwd: "list_all leg_fwd (ta_transfers t)" using assms(1,2) by (simp add: ready_def)
  have da: "debitsApplied t"
    using fwd assms(2-4) by (auto simp: debitsApplied_def allDone_def anyFailed_def list_all_iff list_ex_iff inStage_def leg_fwd_def)
  have st: "ta_stage ?t2 = ta_stage ?t1" by simp
  note q = same_legs_queries(1,3) [OF fireLegs_same [of ?t1] st]
  have r1: "ready ?t1" "\<not> anyFailed ?t1" using fwd da assms(4) by (simp_all add: ready_def debitsApplied_def anyFailed_def)
  have e: "fst (fireCredits c t w) = armTimeout ?t2" by (simp add: fireCredits_def split_beta Let_def)
  have a: "ready (armTimeout x) = ready x" "anyFailed (armTimeout x) = anyFailed x" for x
    by (simp_all add: ready_def anyFailed_def debitsApplied_def cong: stage.case_cong)
  show ?thesis using q r1 by (simp add: e tinv_def a)
qed

lemma ready_advance: "ready t \<Longrightarrow> tinv (fst (advance c t w))"
proof -
  assume r: "ready t"
  show ?thesis
  proof (cases "allDone t")
    case False
    with r show ?thesis by (auto simp: advance_def tinv_def ready_def split: stage.splits)
  next
    case True
    have work: "working t" using ready_working [OF r] .
    show ?thesis
    proof (cases "ta_stage t = stageReversing")
      case True
      with r \<open>allDone t\<close> show ?thesis by (simp add: advance_def tinv_def)
    next
      case rev: False
      show ?thesis
      proof (cases "anyFailed t")
        case f: True
        have "list_all leg_fwd (ta_transfers t)" using r rev work by (auto simp: ready_def working_def)
        then have "ready (fst (fireReversals c t w))"
          using fireReversals_legs fireReversals_failed f by (simp add: ready_def)
        with True f rev work show ?thesis by (auto simp: advance_def tinv_def working_def split_beta Let_def)
      next
        case nf: False
        with r True rev work ready_processing_advance [OF r _ True nf] show ?thesis
          by (auto simp: advance_def tinv_def working_def split_beta Let_def)
      qed
    qed
  qed
qed

lemma list_all_update: "list_all P xs \<Longrightarrow> P x \<Longrightarrow> list_all P (xs[i := x])"
  by (induction xs arbitrary: i) (auto split: nat.split)

lemma list_ex_update: "list_ex P xs \<Longrightarrow> (P (xs ! i) \<Longrightarrow> P x) \<Longrightarrow> list_ex P (xs[i := x])"
  by (induction xs arbitrary: i) (auto split: nat.split)

lemma ready_set_leg:
  assumes "ready t" "i < length (ta_transfers t)" "ta_stage t' = ta_stage t" "ta_transfers t' = (ta_transfers t)[i := tr]"
    and "ta_stage t \<noteq> stageReversing \<Longrightarrow> leg_fwd (ta_transfers t ! i) \<Longrightarrow> leg_fwd tr"
    and "ta_stage t = stageReversing \<Longrightarrow> leg_rev (ta_transfers t ! i) \<Longrightarrow> leg_rev tr"
    and "tr_applied (ta_transfers t ! i) \<Longrightarrow> tr_applied tr" "tr_action tr = tr_action (ta_transfers t ! i)"
    and "ta_stage t = stageReversing \<Longrightarrow> tr_failCode tr = tr_failCode (ta_transfers t ! i)"
  shows "ready t'"
proof -
  let ?D = "\<lambda>tr. \<not> (tr_action tr = LedgerTypeDebit \<and> \<not> tr_applied tr)"
  have nth: "list_all P (ta_transfers t) \<Longrightarrow> P (ta_transfers t ! i)" for P
    using assms(2) by (simp add: list_all_length)
  have fwd: "list_all leg_fwd (ta_transfers t')" if "list_all leg_fwd (ta_transfers t)" "ta_stage t \<noteq> stageReversing"
    using assms(5) [OF that(2) nth [OF that(1)]] that(1) unfolding assms(4) by (rule list_all_update [rotated])
  have da: "debitsApplied t'" if "debitsApplied t"
  proof -
    from that have all: "list_all ?D (ta_transfers t)" by (simp add: debitsApplied_def)
    have "?D tr" using nth [OF all] assms(7,8) by auto
    with all show ?thesis unfolding debitsApplied_def assms(4) by (rule list_all_update)
  qed
  have rev: "list_all leg_rev (ta_transfers t') \<and> anyFailed t'" if "list_all leg_rev (ta_transfers t)" "anyFailed t" "ta_stage t = stageReversing"
  proof
    show "list_all leg_rev (ta_transfers t')"
      unfolding assms(4) using that(1) assms(6) [OF that(3) nth [OF that(1)]] by (rule list_all_update)
    show "anyFailed t'"
      using that(2) assms(9) [OF that(3)] unfolding anyFailed_def assms(4) by (auto intro!: list_ex_update)
  qed
  show ?thesis
    using assms(1,3) fwd da rev by (cases "ta_stage t") (simp_all add: ready_def)
qed

lemma leg_fwd_reply:
  assumes "leg_fwd tr"
  shows "tr_done tr \<Longrightarrow> leg_fwd (tr\<lparr>tr_applied := True, tr_initial := a, tr_updated := b, tr_seq := n\<rparr>)"
    "leg_fwd (tr\<lparr>tr_done := True, tr_applied := True, tr_initial := a, tr_updated := b, tr_seq := n\<rparr>)"
    "code \<noteq> [] \<Longrightarrow> leg_fwd (tr\<lparr>tr_done := True, tr_failCode := code, tr_failMsg := m\<rparr>)"
    "leg_fwd (tr\<lparr>tr_retry := True\<rparr>)"
  using assms by (simp_all add: leg_defs)

lemma leg_rev_reply:
  assumes "leg_rev tr"
  shows "\<not> tr_done tr \<Longrightarrow> leg_rev (tr\<lparr>tr_done := True, tr_reversed := True, tr_rInitial := a, tr_rUpdated := b, tr_rSeq := n\<rparr>)"
    "\<not> tr_done tr \<Longrightarrow> leg_rev (tr\<lparr>tr_done := True, tr_reversalErr := code @ '': '' @ m\<rparr>)"
    "leg_rev (tr\<lparr>tr_retry := True\<rparr>)"
  using assms by (auto simp: leg_defs)

lemma lateApply_ready:
  assumes r: "ready t" and i: "i < length (ta_transfers t)" and d: "tr_done (ta_transfers t ! i)" "\<not> tr_applied (ta_transfers t ! i)"
  shows "ready (fst (lateApply c msg i t w))"
proof (cases "ta_stage t = stageReversing")
  case False
  then show ?thesis
    using leg_fwd_reply(1) [of "ta_transfers t ! i"] d
    by (intro ready_set_leg [OF r i, where tr = "(ta_transfers t ! i)\<lparr>tr_applied := True, tr_initial := rm_InitialBalance msg,
        tr_updated := rm_UpdatedBalance msg, tr_seq := ta_replies t + 1\<rparr>"]) (simp_all add: lateApply_def Let_def)
next
  case True
  let ?tr = "ta_transfers t ! i"
  let ?tr1 = "?tr\<lparr>tr_applied := True, tr_initial := rm_InitialBalance msg, tr_updated := rm_UpdatedBalance msg, tr_seq := ta_replies t + 1\<rparr>"
  let ?tr2 = "?tr1\<lparr>tr_reversalKey := Some (new_uuid c (n_uuid w))\<rparr>"
  have "\<exists>b. ta_transfers (fst (lateApply c msg i t w)) = (ta_transfers t)[i := ?tr2\<lparr>tr_done := False, tr_retry := b\<rparr>]"
    using True by (auto simp: lateApply_def Let_def split_beta send_reversal_def try_send_def fresh_reversal_key_def)
  then obtain b where e: "ta_transfers (fst (lateApply c msg i t w)) = (ta_transfers t)[i := ?tr2\<lparr>tr_done := False, tr_retry := b\<rparr>]" ..
  have "leg_rev ?tr \<Longrightarrow> leg_rev (?tr2\<lparr>tr_done := False, tr_retry := b\<rparr>)"
    using d by (auto simp: leg_defs)
  with e True show ?thesis
    by (intro ready_set_leg [OF r i _ e]) (simp_all add: lateApply_def split_beta Let_def)
qed

lemma collect_leg_ready:
  assumes r: "ready t" and i: "i < length (ta_transfers t)"
  shows "ready (fst (collect_leg c msg i t w))"
proof (cases "tr_done (ta_transfers t ! i)")
  case True
  with r lateApply_ready [OF r i] show ?thesis by (simp add: collect_leg_def Let_def)
next
  case False
  let ?tr = "ta_transfers t ! i" and ?t1 = "t\<lparr>ta_replies := ta_replies t + 1\<rparr>"
  have leg: "ready (set_leg t' i tr)" if "ta_stage t' = ta_stage t" "ta_transfers t' = ta_transfers t"
    "ta_stage t \<noteq> stageReversing \<Longrightarrow> leg_fwd ?tr \<Longrightarrow> leg_fwd tr" "ta_stage t = stageReversing \<Longrightarrow> leg_rev ?tr \<Longrightarrow> leg_rev tr"
    "tr_applied ?tr \<Longrightarrow> tr_applied tr" "tr_action tr = tr_action ?tr" "ta_stage t = stageReversing \<Longrightarrow> tr_failCode tr = tr_failCode ?tr"
    for t' tr using that by (intro ready_set_leg [OF r i, where tr = tr]) simp_all
  show ?thesis
    unfolding collect_leg_def Let_def
    using leg_rev_reply(2) [of ?tr "rm_ErrorCode msg" "rm_ErrorMessage msg"]
    by (simp add: False) (auto intro!: leg leg_fwd_reply leg_rev_reply(1,3) simp: False)
qed

lemma match_leg_bound: "match_leg P trs = Some i \<Longrightarrow> i < length trs \<and> P (trs ! i)"
  by (induction trs arbitrary: i) (auto split: if_splits)

lemma collect_tinv:
  assumes "tinv t"
  shows "tinv (fst (collect c msg t w))"
proof (cases "working t")
  case True
  have r: "ready t" using tinv_ready [OF assms True] .
  show ?thesis
  proof (cases "match_leg (\<lambda>tr. inFlightKey c (ta_stage t) tr = rm_IdempotencyKey msg) (ta_transfers t)")
    case None
    with True r show ?thesis by (simp add: collect_def ready_advance)
  next
    case (Some i)
    with True collect_leg_ready [OF r] match_leg_bound [OF Some] show ?thesis
      by (simp add: collect_def split_beta Let_def ready_advance)
  qed
qed (simp add: collect_def assms)

lemma finalize_tinv:
  assumes "tinv t"
  shows "tinv (fst (finalize c t w))"
proof (cases "ta_stage t = stageFinalized \<or> ta_stage t = stageIdle \<or> \<not> allDone t")
  case False
  let ?t = "stopTimer (t\<lparr>ta_stage := stageFinalized\<rparr>)"
  have st: "fst (finalize c t w) = ?t" using False by (simp add: finalize_def split_beta Let_def)
  have af: "anyFailed ?t = anyFailed t" by (simp add: anyFailed_def)
  from False assms consider "ta_stage t = stageCrediting" "ready t" "\<not> anyFailed t" | "ta_stage t = stageReversing" "ready t"
    by (cases "ta_stage t") (auto simp: tinv_def)
  then have "settled ?t"
  proof cases
    case 1
    then have "list_all leg_won (ta_transfers t)"
      using False by (auto simp: ready_def debitsApplied_def allDone_def anyFailed_def list_all_iff list_ex_iff inStage_def leg_defs)
    with 1 af show ?thesis by (simp add: settled_def)
  next
    case 2
    then have "list_all leg_undone (ta_transfers t)" "anyFailed t"
      using False by (auto simp: ready_def allDone_def list_all_iff inStage_def leg_undone_def)
    with af show ?thesis by (simp add: settled_def)
  qed
  with st show ?thesis by (simp add: tinv_def)
qed (simp add: finalize_def assms)

text \<open>A well-formed plan entry, as a service or the sweeper sends it for a transaction not being reversed.\<close>

definition ok_entry :: "ctx \<Rightarrow> TransferEntry \<Rightarrow> bool" where
  "ok_entry c e \<longleftrightarrow> parse_uuid c (te_WalletId e) \<noteq> None \<and> parse_uuid c (te_IdempotencyKey e) \<noteq> None \<and> 0 < te_Amount e \<and>
     (te_Action e = LedgerTypeDebit \<or> te_Action e = LedgerTypeCredit) \<and> te_ReversalKey e = []"

definition ok_event :: "ctx \<Rightarrow> ta_event \<Rightarrow> bool" where
  "ok_event c ev = (case ev of StartTransaction msg \<Rightarrow> list_all (ok_entry c) (sm_Transfers msg) | _ \<Rightarrow> True)"

definition leg_new :: "transfer \<Rightarrow> bool" where
  "leg_new tr \<longleftrightarrow> leg_static tr \<and> tr_reversalKey tr = None \<and> \<not> tr_reversed tr \<and> \<not> tr_done tr \<and> \<not> tr_applied tr \<and>
     tr_failCode tr = []"

lemma loadTransfers_new:
  "list_all (ok_entry c) es \<Longrightarrow> fst (loadTransfers c es) \<and> list_all leg_new (snd (loadTransfers c es))"
  by (induction es) (auto simp: ok_entry_def leg_new_def leg_static_def new_transfer_def split_beta Let_def)

text \<open>The invariant is about the stage and the legs only.\<close>

lemma tinv_cong:
  assumes "ta_stage t' = ta_stage t" "ta_transfers t' = ta_transfers t"
  shows "tinv t' = tinv t" "ready t' = ready t"
proof -
  have q: "anyFailed t' = anyFailed t" "debitsApplied t' = debitsApplied t" "allDone t' = allDone t"
    using assms(2) by (simp_all add: anyFailed_def debitsApplied_def allDone_def inStage_cong [OF assms(1)])
  show r: "ready t' = ready t" unfolding ready_def assms q ..
  show "tinv t' = tinv t" unfolding tinv_def settled_def assms q r ..
qed

lemma ready_arm: "ready (armTimeout t) = ready t" "tinv (armTimeout t) = tinv t"
  by (rule tinv_cong; simp)+

lemma tinv_idle: "ta_stage t = stageIdle \<Longrightarrow> tinv t"
  by (simp add: tinv_def)

lemma ready_fireLegs: "ready t \<Longrightarrow> ready (fst (fireLegs c t w))"
  using same_legs_queries(1) [OF fireLegs_same] by simp

lemma resume_forward_ready:
  assumes "list_all leg_new (ta_transfers t0)" "t = t0\<lparr>ta_transfers := map (leg_progress keys) (ta_transfers t0)\<rparr>"
  shows "ready (fst (resume_forward c t w))"
proof -
  let ?t1 = "t\<lparr>ta_stage := (if debitsApplied t then stageCrediting else stageProcessing),
      ta_transfers := map (\<lambda>tr. if tr_applied tr then tr\<lparr>tr_done := True\<rparr> else tr) (ta_transfers t)\<rparr>"
  have fwd: "list_all leg_fwd (ta_transfers ?t1)"
    using assms(1) by (auto simp: assms(2) list_all_iff leg_progress_def leg_new_def leg_fwd_def leg_static_def Let_def)
  have da: "debitsApplied t \<Longrightarrow> debitsApplied ?t1"
    by (auto simp: debitsApplied_def list_all_iff)
  have "ready ?t1"
  proof (cases "debitsApplied t")
    case True
    have st: "ta_stage ?t1 = stageCrediting" using True by simp
    from fwd da [OF True] show ?thesis unfolding ready_def st stage.case by blast
  next
    case False
    with fwd show ?thesis by (simp add: ready_def)
  qed
  then show ?thesis unfolding resume_forward_def by (rule ready_fireLegs)
qed

lemma resume_new:
  assumes "list_all leg_new (ta_transfers t)" "ta_stage t = stageIdle"
  shows "tinv (fst (resume c t w))"
proof -
  let ?w = "snd (db_call c w)" and ?f = "fst (db_call c w)"
  let ?t1 = "t\<lparr>ta_transfers := map (leg_progress (ledger_keys c t ?w)) (ta_transfers t)\<rparr>"
  have nk: "\<not> list_ex (\<lambda>tr. tr_reversalKey tr \<noteq> None) (ta_transfers ?t1)"
    using assms(1) by (auto simp: list_ex_iff list_all_iff leg_progress_def leg_new_def Let_def)
  have "ready (fst (resume_forward c ?t1 ?w))" using resume_forward_ready [OF assms(1) refl] .
  then show ?thesis
    using nk assms(2) tinv_idle [of t] by (cases ?f) (auto simp: resume_def split_beta Let_def ready_advance ready_arm)
qed

lemma resend_tinv:
  assumes "tinv t" "working t"
  shows "tinv (fst (snd (resendPending c t w)))"
  using same_legs_queries(5) [OF resendPending_same [of t c w]] assms by (auto simp: working_def)

lemma start_tinv:
  assumes "tinv t" "list_all (ok_entry c) (sm_Transfers msg)"
  shows "tinv (fst (start c msg t w))"
proof (cases "ta_stage t = stageIdle")
  case False
  then show ?thesis
    using assms(1) resend_tinv [OF assms(1)] by (simp add: start_def split_beta Let_def)
next
  case True
  define trs where "trs = snd (loadTransfers c (sm_Transfers msg))"
  have ok: "fst (loadTransfers c (sm_Transfers msg))" and new: "list_all leg_new trs"
    using loadTransfers_new [OF assms(2)] by (simp_all add: trs_def)
  have res: "tinv (fst (resume c (t\<lparr>ta_transactionID := i, ta_createdAt := s, ta_transfers := trs\<rparr>) w))" for i s w
    using resume_new new True by simp
  have fire: "tinv (fst (advance c (armTimeout (fst (fireLegs c t' w))) w'))"
    if "ta_stage t' = stageProcessing" "ta_transfers t' = trs" for t' w w'
  proof -
    have "list_all leg_fwd trs" using new by (auto simp: list_all_iff leg_new_def leg_fwd_def)
    with that have "ready t'" by (simp add: ready_def)
    then show ?thesis by (simp add: ready_advance ready_arm ready_fireLegs)
  qed
  show ?thesis
    using True ok by (simp add: start_def split_beta Let_def trs_def [symmetric] res fire assms(1) tinv_idle
        split: option.split fault.split)
qed

lemma Receive_tinv:
  assumes "tinv t" "ok_event c ev"
  shows "tinv (fst (ta_Receive c ev t w))"
proof (cases ev)
  case (GrainInit x)
  with assms(1) tinv_cong(1) [of "t\<lparr>ta_transactionID := i\<rparr>" t for i] show ?thesis by (simp split: option.split)
next
  case (StartTransaction msg)
  with assms start_tinv show ?thesis by (simp add: ok_event_def)
next
  case (Timeout armed)
  have "tinv (t\<lparr>ta_ticks := n\<rparr>)" for n
    using assms(1) tinv_cong(1) [of "t\<lparr>ta_ticks := n\<rparr>" t] by simp
  with Timeout assms(1) show ?thesis
    by (simp add: tick_def split_beta Let_def ready_arm resend_tinv working_def)
next
  case Stopping
  with assms(1) tinv_cong(1) [of "stopTimer t" t] show ?thesis by simp
qed (simp_all add: collect_tinv finalize_tinv assms(1))

section \<open>The outcome\<close>

text \<open>The messages of a mailbox, one after the other.\<close>

fun ta_run :: "ctx \<Rightarrow> ta_event list \<Rightarrow> tactor \<times> world \<Rightarrow> tactor \<times> world" where
  "ta_run c [] s = s"
| "ta_run c (ev # evs) s = ta_run c evs (ta_Receive c ev (fst s) (snd s))"

lemma ta_run_tinv: "tinv (fst s) \<Longrightarrow> list_all (ok_event c) evs \<Longrightarrow> tinv (fst (ta_run c evs s))"
  by (induction evs arbitrary: s) (simp_all add: Receive_tinv)

lemma tinv_new: "tinv NewTransactionActor"
  by (simp add: tinv_def NewTransactionActor_def)

lemma final_status_anyFailed: "fst (final_status t) = (if anyFailed t then TransactionStatusFailed else TransactionStatusSuccess)"
  by (auto simp: final_status_def anyFailed_def list_ex_iff find_None_iff find_Some_iff split: option.split)

text \<open>
  Claim C7. No transaction is finalized half way. For every mailbox history that starts from a well-formed
  plan, with any replies in any order, any ticks and any database failures: a transaction finalized as
  successful has every leg applied and none reversed; one finalized as failed has, for every leg that was
  applied, issued a reversal that was either confirmed or definitively refused, and if one was refused
  the transaction is flagged for reconciliation.
\<close>

theorem transaction_settles:
  assumes "list_all (ok_event c) evs" "ta_stage (fst (ta_run c evs (NewTransactionActor, w))) = stageFinalized"
  shows "let t = fst (ta_run c evs (NewTransactionActor, w)) in
    (fst (final_status t) = TransactionStatusSuccess \<longrightarrow>
       (\<forall>tr \<in> set (ta_transfers t). tr_applied tr \<and> tr_reversalKey tr = None \<and> \<not> tr_reversed tr)) \<and>
    (fst (final_status t) \<noteq> TransactionStatusSuccess \<longrightarrow> fst (final_status t) = TransactionStatusFailed \<and>
       (\<forall>tr \<in> set (ta_transfers t). tr_applied tr \<longrightarrow>
          tr_reversalKey tr \<noteq> None \<and> (tr_reversed tr \<or> tr_reversalErr tr \<noteq> [] \<and> unreconciled t)))"
proof -
  let ?t = "fst (ta_run c evs (NewTransactionActor, w))"
  have s: "settled ?t" using ta_run_tinv [of "(NewTransactionActor, w)" c evs] assms tinv_new by (simp add: tinv_def)
  show ?thesis
  proof (cases "anyFailed ?t")
    case True
    then have "fst (final_status ?t) = TransactionStatusFailed" by (simp add: final_status_anyFailed)
    with True s show ?thesis
      by (fastforce simp: settled_def leg_undone_def leg_rev_def list_all_iff unreconciled_def list_ex_iff Let_def)
  next
    case False
    then have "fst (final_status ?t) = TransactionStatusSuccess" by (simp add: final_status_anyFailed)
    with False s show ?thesis by (auto simp: settled_def leg_won_def list_all_iff Let_def)
  qed
qed

text \<open>A run: start of a two-leg transfer, both wallets answer, finalize.\<close>

definition demo_tx :: transaction where
  "demo_tx = \<lparr>tx_ID = 7, tx_MerchantID = Some 9, tx_MerchantFrom = None, tx_MerchantTo = None, tx_ProfileFrom = None, tx_ProfileTo = None,
     tx_SenderName = None, tx_ReceiverName = None, tx_SenderMerchant = None, tx_ReceiverMerchant = None, tx_AccountFrom = None,
     tx_AccountTo = None, tx_WalletFrom = None, tx_WalletTo = None, tx_Amount = 200, tx_Currency = ''KES'', tx_Fee = 0,
     tx_Type = TransactionTypeTransfer, tx_Status = TransactionStatusPending, tx_Purpose = None, tx_RRN = ''r1'', tx_OrderID = None,
     tx_ProviderRef = None, tx_CallbackURL = None, tx_Transfers = None, tx_Narration = [], tx_Description = None, tx_IsCompleted = False,
     tx_DateCompleted = None, tx_CreatedAt = 0, tx_UpdatedAt = 0\<rparr>"

definition demo_tx_world :: world where "demo_tx_world = empty_world\<lparr>txns := [demo_tx]\<rparr>"

definition demo_entry :: "string \<Rightarrow> string \<Rightarrow> string \<Rightarrow> TransferEntry" where
  "demo_entry wid action key = \<lparr>te_WalletId = wid, te_Action = action, te_Amount = 200, te_Purpose = ''pay'', te_IdempotencyKey = key,
     te_ReversalKey = [], te_IsFee = False, te_IsInitial = True\<rparr>"

definition demo_start :: StartTransactionMsg where
  "demo_start = \<lparr>sm_TransactionId = ''7'', sm_CreatedAtUnix = 0,
     sm_Transfers = [demo_entry ''1'' LedgerTypeDebit ''42'', demo_entry ''2'' LedgerTypeCredit ''43''], sm_Resume = False\<rparr>"

definition demo_reply :: "string \<Rightarrow> string \<Rightarrow> error_code \<Rightarrow> WalletResultMsg" where
  "demo_reply wid key code = \<lparr>rm_TransactionId = ''7'', rm_WalletId = wid, rm_IdempotencyKey = key, rm_InitialBalance = 500,
     rm_UpdatedBalance = 300, rm_Amount = 200, rm_ErrorCode = code, rm_ErrorMessage = []\<rparr>"

definition demo_events :: "ta_event list" where
  "demo_events = [StartTransaction demo_start, WalletResult (demo_reply ''1'' ''42'' []), WalletResult (demo_reply ''2'' ''43'' []), Finalize]"

lemma demo_run: "ta_stage (fst (ta_run demo_ctx demo_events (NewTransactionActor, demo_tx_world))) = stageFinalized"
  by code_simp

lemma demo_events_ok: "list_all (ok_event demo_ctx) demo_events"
  by code_simp

lemma demo_run_result:
  "fst (final_status (fst (ta_run demo_ctx demo_events (NewTransactionActor, demo_tx_world)))) = TransactionStatusSuccess \<and>
   length (ta_transfers (fst (ta_run demo_ctx demo_events (NewTransactionActor, demo_tx_world)))) = 2"
  by code_simp

theorem transaction_settles_witness:
  "length (ta_transfers (fst (ta_run demo_ctx demo_events (NewTransactionActor, demo_tx_world)))) = 2 \<and>
   list_all tr_applied (ta_transfers (fst (ta_run demo_ctx demo_events (NewTransactionActor, demo_tx_world))))"
  using transaction_settles [OF demo_events_ok demo_run] demo_run_result by (simp add: Let_def list_all_iff)

section \<open>What is sent when\<close>

text \<open>The messages a TransactionActor may have sent when it is in a given state.\<close>

definition permitted :: "ctx \<Rightarrow> tactor \<Rightarrow> uuid \<times> wallet_msg \<Rightarrow> bool" where
  "permitted c t pm \<longleftrightarrow> (\<exists>tr \<in> set (ta_transfers t). fst pm = tr_walletID tr \<and>
     (ta_stage t = stageProcessing \<and> tr_action tr = LedgerTypeDebit \<and>
        snd pm = op_message c (ta_transactionID t) tr (tr_action tr) (tr_key tr) \<or>
      ta_stage t = stageCrediting \<and> tr_action tr = LedgerTypeCredit \<and> debitsApplied t \<and>
        snd pm = op_message c (ta_transactionID t) tr (tr_action tr) (tr_key tr) \<or>
      ta_stage t = stageReversing \<and> anyFailed t \<and> tr_applied tr \<and>
        (\<exists>k. tr_reversalKey tr = Some k \<and> snd pm = op_message c (ta_transactionID t) tr (Opposite (tr_action tr)) k)))"

text \<open>The messages a step added to the outbox are all permitted in the state it leads to.\<close>

definition sends_ok :: "ctx \<Rightarrow> world \<Rightarrow> tactor \<times> world \<Rightarrow> bool" where
  "sends_ok c w s \<longleftrightarrow> (\<exists>new. outbox (snd s) = outbox w @ new \<and> list_all (permitted c (fst s)) new)"

lemma outbox_frame [simp]:
  "outbox (persistPlan c t w) = outbox w" "outbox (heartbeat c t w) = outbox w" "outbox (send_finalize c t w) = outbox w"
  "outbox (snd (fresh_reversal_key c tr w)) = outbox w" "outbox (Poison w) = outbox w" "outbox (Notify tx mvs w) = outbox w"
  "outbox (cache_Delete ks w) = outbox w" "outbox (snd (update_txns P f w)) = outbox w" "outbox (snd (db_call c w)) = outbox w"
  by (simp_all add: persistPlan_def heartbeat_def send_finalize_def fresh_reversal_key_def Poison_def Notify_def cache_Delete_def
      update_txns_def db_call_def Let_def split: fault.split)

lemma op_message_frame [simp]:
  "op_message c i (tr\<lparr>tr_retry := b\<rparr>) a k = op_message c i tr a k" "op_message c i (tr\<lparr>tr_done := b\<rparr>) a k = op_message c i tr a k"
  by (simp_all add: op_message_def)

lemma try_send_outbox:
  "outbox (snd (try_send c t a k tr w)) =
    outbox w @ (if tr_retry (fst (try_send c t a k tr w)) then [] else [(tr_walletID tr, op_message c (ta_transactionID t) tr a k)])"
  by (simp add: try_send_def ta_send_def split_beta Let_def)

lemma try_send_leg: "fst (try_send c t a k tr w) = tr\<lparr>tr_retry := \<not> placed c (n_pid w) (tr_walletID tr)\<rparr>"
  by (simp add: try_send_def ta_send_def split_beta Let_def)

lemma each_leg_sends:
  assumes "\<And>tr w. tr \<in> set trs \<Longrightarrow> \<exists>n. outbox (snd (f tr w)) = outbox w @ n \<and> (\<forall>m \<in> set n. Q (fst (f tr w)) m)"
  shows "\<exists>n. outbox (snd (each_leg f trs w)) = outbox w @ n \<and> (\<forall>m \<in> set n. \<exists>tr \<in> set (fst (each_leg f trs w)). Q tr m)"
  using assms
proof (induction trs arbitrary: w)
  case (Cons x xs)
  from Cons.prems [of x w] obtain n1 where n1: "outbox (snd (f x w)) = outbox w @ n1" "\<forall>m \<in> set n1. Q (fst (f x w)) m" by auto
  from Cons.IH [of "snd (f x w)"] Cons.prems obtain n2 where n2: "outbox (snd (each_leg f xs (snd (f x w)))) = outbox (snd (f x w)) @ n2"
    "\<forall>m \<in> set n2. \<exists>tr \<in> set (fst (each_leg f xs (snd (f x w)))). Q tr m" by auto
  show ?case by (rule exI [of _ "n1 @ n2"]) (use n1 n2 in \<open>auto simp: split_beta Let_def\<close>)
qed simp

lemma each_leg_id: "(\<And>tr. tr \<in> set trs \<Longrightarrow> f tr w = (tr, w)) \<Longrightarrow> each_leg f trs w = (trs, w)"
  by (induction trs) (simp_all add: split_beta Let_def)

lemma sends_ok_refl: "outbox (snd s) = outbox w \<Longrightarrow> sends_ok c w s"
  by (simp add: sends_ok_def)

lemma permitted_cong:
  assumes "ta_stage t' = ta_stage t" "ta_transfers t' = ta_transfers t" "ta_transactionID t' = ta_transactionID t"
  shows "permitted c t' = permitted c t"
proof -
  have "debitsApplied t' = debitsApplied t" "anyFailed t' = anyFailed t" using assms(2) by (simp_all add: debitsApplied_def anyFailed_def)
  then show ?thesis by (simp add: permitted_def assms fun_eq_iff)
qed

lemma ids [simp]:
  "ta_transactionID (fst (fireLegs c t w)) = ta_transactionID t" "ta_transactionID (fst (snd (resendPending c t w))) = ta_transactionID t"
  "ta_transactionID (fst (fireCredits c t w)) = ta_transactionID t" "ta_transactionID (fst (fireReversals c t w)) = ta_transactionID t"
  by (simp_all add: fireLegs_def resendPending_def fireCredits_def fireReversals_def split_beta Let_def)

text \<open>A leg's message, given the stage, as a predicate on the leg alone.\<close>

definition leg_message :: "ctx \<Rightarrow> uuid \<Rightarrow> stage \<Rightarrow> transfer \<Rightarrow> uuid \<times> wallet_msg \<Rightarrow> bool" where
  "leg_message c i s tr pm \<longleftrightarrow> fst pm = tr_walletID tr \<and>
     (s = stageProcessing \<and> tr_action tr = LedgerTypeDebit \<and> snd pm = op_message c i tr (tr_action tr) (tr_key tr) \<or>
      s = stageCrediting \<and> tr_action tr = LedgerTypeCredit \<and> snd pm = op_message c i tr (tr_action tr) (tr_key tr) \<or>
      s = stageReversing \<and> tr_applied tr \<and>
        (\<exists>k. tr_reversalKey tr = Some k \<and> snd pm = op_message c i tr (Opposite (tr_action tr)) k))"

lemma permitted_leg:
  assumes "ready t" "tr \<in> set (ta_transfers t)" "leg_message c (ta_transactionID t) (ta_stage t) tr pm"
  shows "permitted c t pm"
  using assms unfolding permitted_def leg_message_def ready_def by (auto split: stage.splits)

lemma sends_ok_legs:
  assumes "ready (fst s)" "ta_transactionID (fst s) = i" "ta_stage (fst s) = st"
    and "\<exists>n. outbox (snd s) = outbox w @ n \<and> (\<forall>m \<in> set n. \<exists>tr \<in> set (ta_transfers (fst s)). leg_message c i st tr m)"
  shows "sends_ok c w s"
proof -
  from assms(4) obtain n where n: "outbox (snd s) = outbox w @ n" "\<forall>m \<in> set n. \<exists>tr \<in> set (ta_transfers (fst s)). leg_message c i st tr m" by blast
  then have "list_all (permitted c (fst s)) n"
    using permitted_leg [OF assms(1)] assms(2,3) by (auto simp: list_all_iff)
  with n(1) show ?thesis by (auto simp: sends_ok_def)
qed

lemma try_send_message:
  assumes "leg_message c (ta_transactionID t) s tr (tr_walletID tr, op_message c (ta_transactionID t) tr a k)"
  shows "\<exists>n. outbox (snd (try_send c t a k tr w)) = outbox w @ n \<and>
    (\<forall>m \<in> set n. leg_message c (ta_transactionID t) s (fst (try_send c t a k tr w)) m)"
  using assms by (auto simp: try_send_outbox try_send_leg leg_message_def)

lemma fireLegs_sends:
  assumes "ready t" "ta_stage t = stageProcessing \<or> ta_stage t = stageCrediting"
  shows "sends_ok c w (fireLegs c t w)"
proof (rule sends_ok_legs [OF ready_fireLegs [OF assms(1)]])
  show "\<exists>n. outbox (snd (fireLegs c t w)) = outbox w @ n \<and>
     (\<forall>m \<in> set n. \<exists>tr \<in> set (ta_transfers (fst (fireLegs c t w))). leg_message c (ta_transactionID t) (ta_stage t) tr m)"
    unfolding fireLegs_def for_legs_frame
  proof (rule each_leg_sends, goal_cases)
    case (1 tr w)
    show ?case
      using assms(2) try_send_message [of c t "ta_stage t" tr "tr_action tr" "tr_key tr" w]
      by (auto simp: leg_message_def inStage_def)
  qed
qed simp_all

lemma resendPending_sends:
  assumes "ready t"
  shows "sends_ok c w (snd (resendPending c t w))"
proof (rule sends_ok_legs)
  show "ready (fst (snd (resendPending c t w)))" using same_legs_queries(1) [OF resendPending_same] assms by simp
  have rev: "tr_applied tr" if "tr \<in> set (ta_transfers t)" "ta_stage t = stageReversing" "tr_reversalKey tr = Some k" for tr k
    using assms that by (auto simp: ready_def list_all_iff leg_rev_def)
  have work: "working t" using ready_working [OF assms] .
  show "\<exists>n. outbox (snd (snd (resendPending c t w))) = outbox w @ n \<and>
     (\<forall>m \<in> set n. \<exists>tr \<in> set (ta_transfers (fst (snd (resendPending c t w)))). leg_message c (ta_transactionID t) (ta_stage t) tr m)"
    unfolding resendPending_def snd_conv for_legs_frame
  proof (rule each_leg_sends, goal_cases)
    case (1 tr w)
    show ?case
    proof (cases "ta_stage t = stageReversing")
      case True
      then show ?thesis
        using rev [OF 1] try_send_message [of c t "ta_stage t" tr "Opposite (tr_action tr)" _ w]
        by (auto simp: leg_message_def split: option.split)
    next
      case False
      then show ?thesis
        using work try_send_message [of c t "ta_stage t" tr "tr_action tr" "tr_key tr" w]
        by (auto simp: leg_message_def inStage_def working_def)
    qed
  qed
qed simp_all

lemma send_reversal_message:
  assumes "tr_applied tr"
  shows "\<exists>n. outbox (snd (send_reversal c t tr w)) = outbox w @ n \<and>
    (\<forall>m \<in> set n. leg_message c (ta_transactionID t) stageReversing (fst (send_reversal c t tr w)) m)"
proof (cases "tr_reversalKey tr")
  case (Some k)
  then show ?thesis
    using try_send_message [of c t stageReversing "tr\<lparr>tr_done := False\<rparr>" "Opposite (tr_action tr)" k w] assms
    by (simp add: send_reversal_def leg_message_def)
qed (simp add: send_reversal_def)

lemma fireReversals_sends:
  assumes "list_all leg_fwd (ta_transfers t)" "anyFailed t"
  shows "sends_ok c w (fireReversals c t w)"
proof (rule sends_ok_legs)
  show "ready (fst (fireReversals c t w))"
    using fireReversals_legs [OF assms(1)] fireReversals_failed [OF assms(2)] by (simp add: ready_def)
  let ?f = "\<lambda>tr w. if tr_applied tr \<and> tr_reversalKey tr = None then fresh_reversal_key c tr w else (tr, w)"
  let ?t0 = "t\<lparr>ta_stage := stageReversing, ta_ticks := 0\<rparr>"
  let ?s1 = "for_legs ?f ?t0 w"
  have o1: "outbox (snd ?s1) = outbox w" unfolding for_legs_frame by (rule each_leg_world) simp
  show "\<exists>n. outbox (snd (fireReversals c t w)) = outbox w @ n \<and>
     (\<forall>m \<in> set n. \<exists>tr \<in> set (ta_transfers (fst (fireReversals c t w))). leg_message c (ta_transactionID t) stageReversing tr m)"
    unfolding fireReversals_def split_beta Let_def fst_conv snd_conv arm_frame for_legs_frame(5,6) [of _ "fst ?s1"]
    unfolding o1 [symmetric] outbox_frame(1) [of c "fst ?s1" "snd ?s1", symmetric]
    by (rule each_leg_sends) (use send_reversal_message [of _ c "fst ?s1"] in auto)
qed simp_all

lemma fireCredits_sends:
  assumes "ready t" "ta_stage t = stageProcessing" "allDone t" "\<not> anyFailed t"
  shows "sends_ok c w (fireCredits c t w)"
proof -
  let ?t1 = "t\<lparr>ta_stage := stageCrediting, ta_ticks := 0\<rparr>"
  have "ready (fst (fireCredits c t w))"
    using tinv_ready [OF ready_processing_advance [OF assms]] by (simp add: working_def)
  then have "ready (fst (fireLegs c ?t1 w))" by (simp add: fireCredits_def split_beta Let_def ready_arm)
  then have "ready ?t1" using same_legs_queries(1) [OF fireLegs_same [of ?t1 c w]] by simp
  then have "sends_ok c w (fireLegs c ?t1 w)" by (intro fireLegs_sends) simp_all
  then show ?thesis
    using permitted_cong [of "armTimeout (fst (fireLegs c ?t1 w))" "fst (fireLegs c ?t1 w)" c]
    by (simp add: fireCredits_def split_beta Let_def sends_ok_def)
qed

lemma advance_sends:
  assumes "ready t"
  shows "sends_ok c w (advance c t w)"
proof (cases "allDone t \<and> ta_stage t \<noteq> stageReversing")
  case False
  then show ?thesis by (intro sends_ok_refl) (auto simp: advance_def)
next
  case True
  have fwd: "list_all leg_fwd (ta_transfers t)" using assms True by (auto simp: ready_def split: stage.splits)
  have st: "ta_stage t = stageProcessing \<or> ta_stage t = stageCrediting"
    using ready_working [OF assms] True by (auto simp: working_def)
  show ?thesis
  proof (cases "anyFailed t")
    case f: True
    have "sends_ok c w (fireReversals c t w)" using fireReversals_sends [OF fwd f] .
    then show ?thesis using True f st by (auto simp: advance_def split_beta Let_def sends_ok_def)
  next
    case nf: False
    show ?thesis
    proof (cases "ta_stage t = stageProcessing")
      case p: True
      have "sends_ok c w (fireCredits c t w)" using fireCredits_sends [OF assms p _ nf] True by simp
      then show ?thesis using True nf p by (auto simp: advance_def split_beta Let_def sends_ok_def)
    next
      case p: False
      with True nf st show ?thesis by (intro sends_ok_refl) (auto simp: advance_def split_beta Let_def)
    qed
  qed
qed

text \<open>A step that sends only when it leaves a leg outstanding, followed by \<open>advance\<close>.\<close>

lemma act_advance_sends:
  assumes "ready t1" "sends_ok c w (t1, w1)" "allDone t1 \<Longrightarrow> outbox w1 = outbox w"
  shows "sends_ok c w (advance c t1 w1)"
proof (cases "allDone t1")
  case True
  with assms(3) advance_sends [OF assms(1), of c w1] show ?thesis by (simp add: sends_ok_def)
next
  case False
  with assms(2) show ?thesis by (simp add: advance_def)
qed

lemma fireLegs_idle:
  assumes "allDone (fst (fireLegs c t w))"
  shows "outbox (snd (fireLegs c t w)) = outbox w"
proof -
  have "allDone t" using same_legs_queries(2) [OF fireLegs_same [of t c w]] assms by simp
  then have "each_leg (\<lambda>tr w. if tr_done tr \<or> \<not> inStage t tr then (tr, w) else try_send c t (tr_action tr) (tr_key tr) tr w)
      (ta_transfers t) w = (ta_transfers t, w)"
    by (intro each_leg_id) (auto simp: allDone_def list_all_iff)
  then show ?thesis by (simp add: fireLegs_def)
qed

lemma allDone_arm [simp]: "allDone (armTimeout t) = allDone t"
  by (simp add: allDone_def inStage_def)

lemma fire_advance_sends:
  assumes "ready t" "ta_stage t = stageProcessing \<or> ta_stage t = stageCrediting" "outbox w = outbox w0"
  shows "sends_ok c w0 (advance c (armTimeout (fst (fireLegs c t w))) (snd (fireLegs c t w)))"
proof (rule act_advance_sends)
  show "ready (armTimeout (fst (fireLegs c t w)))" using assms(1) by (simp add: ready_arm ready_fireLegs)
  have "permitted c (armTimeout (fst (fireLegs c t w))) = permitted c (fst (fireLegs c t w))" by (rule permitted_cong) simp_all
  then show "sends_ok c w0 (armTimeout (fst (fireLegs c t w)), snd (fireLegs c t w))"
    using fireLegs_sends [OF assms(1,2), of c w] assms(3) by (simp add: sends_ok_def)
  show "outbox (snd (fireLegs c t w)) = outbox w0" if "allDone (armTimeout (fst (fireLegs c t w)))"
    using that fireLegs_idle assms(3) by simp
qed

lemma lateApply_sends:
  assumes r: "ready t" and i: "i < length (ta_transfers t)" and d: "tr_done (ta_transfers t ! i)" "\<not> tr_applied (ta_transfers t ! i)"
  shows "sends_ok c w (lateApply c msg i t w)" "allDone (fst (lateApply c msg i t w)) \<Longrightarrow> outbox (snd (lateApply c msg i t w)) = outbox w"
proof -
  let ?n = "ta_replies t + 1"
  let ?tr1 = "(ta_transfers t ! i)\<lparr>tr_applied := True, tr_initial := rm_InitialBalance msg, tr_updated := rm_UpdatedBalance msg, tr_seq := ?n\<rparr>"
  let ?t1 = "set_leg (t\<lparr>ta_replies := ?n\<rparr>) i ?tr1"
  let ?tr2 = "fst (fresh_reversal_key c ?tr1 w)"
  let ?t2 = "set_leg ?t1 i ?tr2"
  let ?s = "send_reversal c ?t2 ?tr2 (persistPlan c ?t2 (snd (fresh_reversal_key c ?tr1 w)))"
  have e: "lateApply c msg i t w = (set_leg ?t2 i (fst ?s), snd ?s)" if "ta_stage t = stageReversing"
    using that by (simp add: lateApply_def split_beta Let_def)
  have ap: "tr_applied ?tr2" by (simp add: fresh_reversal_key_def)
  obtain n where n: "outbox (snd ?s) = outbox w @ n"
    "\<forall>m \<in> set n. leg_message c (ta_transactionID ?t2) stageReversing (fst ?s) m"
    using send_reversal_message [OF ap, of c ?t2 "persistPlan c ?t2 (snd (fresh_reversal_key c ?tr1 w))"] by auto
  have id: "outbox (snd (lateApply c msg i t w)) = outbox w" if "ta_stage t \<noteq> stageReversing"
    using that by (simp add: lateApply_def Let_def)
  show "sends_ok c w (lateApply c msg i t w)"
  proof (cases "ta_stage t = stageReversing")
    case True
    show ?thesis
    proof (rule sends_ok_legs [OF lateApply_ready [OF r i d]])
      show "\<exists>n. outbox (snd (lateApply c msg i t w)) = outbox w @ n \<and>
        (\<forall>m \<in> set n. \<exists>tr \<in> set (ta_transfers (fst (lateApply c msg i t w))). leg_message c (ta_transactionID ?t2) stageReversing tr m)"
        using n i by (intro exI [of _ n]) (auto simp: e [OF True] set_update_memI)
    qed (use True in \<open>simp_all add: e\<close>)
  qed (simp add: id sends_ok_refl)
  have nd: "\<not> tr_done (fst ?s)" by (simp add: send_reversal_def try_send_leg split: option.split)
  show "outbox (snd (lateApply c msg i t w)) = outbox w" if a: "allDone (fst (lateApply c msg i t w))"
  proof (cases "ta_stage t = stageReversing")
    case True
    have "fst ?s \<in> set (ta_transfers (fst (lateApply c msg i t w)))"
      using i by (simp add: e [OF True] set_update_memI)
    with a nd True have False by (auto simp: allDone_def list_all_iff inStage_def e)
    then show ?thesis ..
  qed (rule id)
qed

lemma collect_sends:
  assumes "tinv t"
  shows "sends_ok c w (collect c msg t w)"
proof (cases "working t")
  case True
  have r: "ready t" using tinv_ready [OF assms True] .
  show ?thesis
  proof (cases "match_leg (\<lambda>tr. inFlightKey c (ta_stage t) tr = rm_IdempotencyKey msg) (ta_transfers t)")
    case None
    with True r show ?thesis by (simp add: collect_def advance_sends)
  next
    case (Some i)
    have i: "i < length (ta_transfers t)" using match_leg_bound [OF Some] by simp
    have "sends_ok c w (collect_leg c msg i t w)"
      "allDone (fst (collect_leg c msg i t w)) \<Longrightarrow> outbox (snd (collect_leg c msg i t w)) = outbox w"
      using lateApply_sends [OF r i, where c = c and w = w and msg = msg] by (auto simp: collect_leg_def Let_def sends_ok_refl)
    then show ?thesis
      using True Some act_advance_sends [OF collect_leg_ready [OF r i]] by (simp add: collect_def split_beta Let_def)
  qed
qed (simp add: collect_def sends_ok_refl)

lemma finalize_outbox [simp]: "outbox (snd (finalize c t w)) = outbox w"
proof -
  have fw: "outbox (snd (final_write c t st n w)) = outbox w" for t st n w
    by (simp add: final_write_def markReversed_def split_beta Let_def split: fault.split option.split)
  have fa: "outbox (snd (final_attempts c t st n k m w)) = outbox w" for t st n k m w
  proof (induction m arbitrary: k w)
    case (Suc m)
    with fw [of t st n w] show ?case by (cases "final_write c t st n w") (auto split: sum.split)
  qed simp
  have al: "outbox (alreadyFinal c t st r w) = outbox w" for t st r w
    by (simp add: alreadyFinal_def split_beta Let_def split: fault.split option.split)
  show ?thesis by (simp add: finalize_def split_beta Let_def fa al split: option.split)
qed

lemma resume_sends:
  assumes "list_all leg_new (ta_transfers t)" "outbox w = outbox w0"
  shows "sends_ok c w0 (resume c t w)"
proof -
  let ?w = "snd (db_call c w)" and ?f = "fst (db_call c w)"
  let ?t1 = "t\<lparr>ta_transfers := map (leg_progress (ledger_keys c t ?w)) (ta_transfers t)\<rparr>"
  let ?t2 = "?t1\<lparr>ta_stage := (if debitsApplied ?t1 then stageCrediting else stageProcessing),
      ta_transfers := map (\<lambda>tr. if tr_applied tr then tr\<lparr>tr_done := True\<rparr> else tr) (ta_transfers ?t1)\<rparr>"
  have nk: "\<not> list_ex (\<lambda>tr. tr_reversalKey tr \<noteq> None) (ta_transfers ?t1)"
    using assms(1) by (auto simp: list_ex_iff list_all_iff leg_progress_def leg_new_def Let_def)
  have fw: "resume_forward c ?t1 ?w = fireLegs c ?t2 ?w" by (simp add: resume_forward_def)
  have "ready (fst (resume_forward c ?t1 ?w))" using resume_forward_ready [OF assms(1) refl] .
  then have "ready (fst (fireLegs c ?t2 ?w))" by (simp only: fw)
  then have r: "ready ?t2" using same_legs_queries(1) [OF fireLegs_same [of ?t2 c ?w]] by simp
  have st: "ta_stage ?t2 = stageProcessing \<or> ta_stage ?t2 = stageCrediting" by simp
  have o: "outbox ?w = outbox w0" using assms(2) by simp
  show ?thesis
  proof (cases ?f)
    case NoFault
    then have "resume c t w = advance c (armTimeout (fst (fireLegs c ?t2 ?w))) (snd (fireLegs c ?t2 ?w))"
      unfolding resume_def split_beta Let_def using nk by (simp add: resume_forward_def)
    then show ?thesis using fire_advance_sends [OF r st o] by (simp only:)
  qed (use assms(2) in \<open>simp_all add: resume_def split_beta Let_def sends_ok_refl\<close>)
qed

lemma start_sends:
  assumes "tinv t" "list_all (ok_entry c) (sm_Transfers msg)"
  shows "sends_ok c w (start c msg t w)"
proof (cases "ta_stage t = stageIdle")
  case False
  then show ?thesis
    using resendPending_sends [OF tinv_ready [OF assms(1)]] by (simp add: start_def split_beta Let_def sends_ok_def)
next
  case True
  define trs where "trs = snd (loadTransfers c (sm_Transfers msg))"
  have ok: "fst (loadTransfers c (sm_Transfers msg))" and new: "list_all leg_new trs"
    using loadTransfers_new [OF assms(2)] by (simp_all add: trs_def)
  have res: "sends_ok c w (resume c (t\<lparr>ta_transactionID := i, ta_createdAt := s, ta_transfers := trs\<rparr>) w')"
    if "outbox w' = outbox w" for i s w'
    using new that by (intro resume_sends) simp_all
  have fire: "sends_ok c w (advance c (armTimeout (fst (fireLegs c t' w'))) (snd (fireLegs c t' w')))"
    if "ta_stage t' = stageProcessing" "ta_transfers t' = trs" "outbox w' = outbox w" for t' w'
  proof (rule fire_advance_sends)
    have "list_all leg_fwd trs" using new by (auto simp: list_all_iff leg_new_def leg_fwd_def)
    with that show "ready t'" by (simp add: ready_def)
  qed (use that in simp_all)
  show ?thesis
    using True ok by (simp add: start_def split_beta Let_def trs_def [symmetric] res fire sends_ok_refl
        split: option.split fault.split)
qed

text \<open>
  Claim C8. Credits are requested only once every debit has applied. In every state a TransactionActor can
  reach from a well-formed plan, handling any further message sends only: debit requests for debit legs
  while debits are being collected; credit requests for credit legs when all debits are applied; or
  reversals, under their own keys, of legs that did apply, after a leg was refused.
\<close>

theorem credits_after_debits:
  assumes "list_all (ok_event c) evs" "ok_event c ev" "(t, w) = ta_run c evs (NewTransactionActor, w0)"
  shows "\<exists>new. outbox (snd (ta_Receive c ev t w)) = outbox w @ new \<and>
    (\<forall>pm \<in> set new. permitted c (fst (ta_Receive c ev t w)) pm)"
proof -
  have inv: "tinv t" using ta_run_tinv [of "(NewTransactionActor, w0)" c evs] tinv_new assms(1) assms(3) [symmetric] by simp
  have "sends_ok c w (ta_Receive c ev t w)"
  proof (cases ev)
    case (StartTransaction msg)
    with assms(2) start_sends [OF inv] show ?thesis by (simp add: ok_event_def)
  next
    case (Timeout armed)
    let ?t = "t\<lparr>ta_ticks := ta_ticks t + 1\<rparr>"
    let ?s = "snd (resendPending c ?t w)"
    have "working t \<Longrightarrow> ready ?t" using tinv_ready [OF inv] tinv_cong(2) [of ?t t] by simp
    moreover have "permitted c (armTimeout (fst ?s)) = permitted c (fst ?s)" by (rule permitted_cong) simp_all
    ultimately show ?thesis
      using Timeout resendPending_sends [of ?t c w] by (auto simp: tick_def split_beta Let_def sends_ok_def)
  qed (simp_all add: collect_sends [OF inv] sends_ok_refl)
  then show ?thesis by (simp add: sends_ok_def list_all_iff)
qed

theorem credits_after_debits_witness:
  "\<exists>new. outbox (snd (ta_run demo_ctx [StartTransaction demo_start, WalletResult (demo_reply ''1'' ''42'' [])] (NewTransactionActor, demo_tx_world))) =
     outbox (snd (ta_run demo_ctx [StartTransaction demo_start] (NewTransactionActor, demo_tx_world))) @ new \<and> length new = 1 \<and>
     list_all (permitted demo_ctx
        (fst (ta_run demo_ctx [StartTransaction demo_start, WalletResult (demo_reply ''1'' ''42'' [])] (NewTransactionActor, demo_tx_world)))) new"
proof -
  let ?s = "ta_run demo_ctx [StartTransaction demo_start] (NewTransactionActor, demo_tx_world)"
  let ?ev = "WalletResult (demo_reply ''1'' ''42'' [])"
  have ok: "list_all (ok_event demo_ctx) [StartTransaction demo_start]" "ok_event demo_ctx ?ev" by code_simp+
  have len: "length (outbox (snd (ta_run demo_ctx [StartTransaction demo_start, ?ev] (NewTransactionActor, demo_tx_world)))) =
    Suc (length (outbox (snd ?s)))" by code_simp
  have run: "ta_Receive demo_ctx ?ev (fst ?s) (snd ?s) = ta_run demo_ctx [StartTransaction demo_start, ?ev] (NewTransactionActor, demo_tx_world)"
    by (simp only: ta_run.simps)
  have eq: "(fst ?s, snd ?s) = ?s" by (rule prod.collapse)
  from credits_after_debits [OF ok eq] show ?thesis
    unfolding run using len by (auto simp: list_all_iff simp del: ta_run.simps)
qed

section \<open>Corner cases\<close>

lemma finalize_stage: "ta_stage t = stageProcessing \<Longrightarrow> allDone t \<Longrightarrow>
    ta_stage (fst (finalize c t w)) = stageFinalized \<and> ta_transfers (fst (finalize c t w)) = ta_transfers t"
  by (simp add: finalize_def split_beta Let_def)

lemma final_status_legs: "ta_transfers t' = ta_transfers t \<Longrightarrow> final_status t' = final_status t"
  by (simp add: final_status_def)

text \<open>
  Claim C37. A plan whose first entry is malformed is finalized as successful. \<open>start\<close> marks every leg it has
  loaded as failed, but the legs are loaded up to the malformed one only, so with the first entry
  malformed there is no leg to carry the failure: nothing is sent, the stage is finalized, and the
  outcome is success.
\<close>

theorem malformed_first_entry_succeeds:
  assumes "ta_stage t = stageIdle" "parse_uuid c (sm_TransactionId msg) = Some i" "ta_transactionID t = uuid_Nil \<or> ta_transactionID t = i"
    and "sm_Transfers msg = e # es" "parse_uuid c (te_WalletId e) = None \<or> parse_uuid c (te_IdempotencyKey e) = None \<or> te_Amount e \<le> 0"
  shows "let t' = fst (start c msg t w) in ta_stage t' = stageFinalized \<and> fst (final_status t') = TransactionStatusSuccess \<and>
    outbox (snd (start c msg t w)) = outbox w"
proof -
  let ?t1 = "failAll CodeInvalidMessage ''malformed transfer entry'' (t\<lparr>ta_transactionID := i,
      ta_createdAt := sm_CreatedAtUnix msg * second, ta_transfers := [], ta_stage := stageProcessing\<rparr>)"
  have load: "loadTransfers c (sm_Transfers msg) = (False, [])"
    using assms(4,5) by (auto split: option.split)
  have e: "start c msg t w = finalize c ?t1 w"
    using assms(1-3) load by (auto simp: start_def Let_def)
  have legs: "ta_transfers ?t1 = []" "ta_stage ?t1 = stageProcessing" "allDone ?t1" by (simp_all add: failAll_def allDone_def)
  have "ta_transfers (fst (finalize c ?t1 w)) = []" "ta_stage (fst (finalize c ?t1 w)) = stageFinalized"
    using finalize_stage [OF legs(2,3), of c w] legs(1) by simp_all
  then show ?thesis by (simp add: e Let_def final_status_def)
qed

definition demo_bad_start :: StartTransactionMsg where
  "demo_bad_start = demo_start\<lparr>sm_Transfers := demo_entry ''x'' LedgerTypeDebit ''42'' # sm_Transfers demo_start\<rparr>"

theorem malformed_first_entry_succeeds_witness:
  "ta_stage (fst (start demo_ctx demo_bad_start NewTransactionActor demo_tx_world)) = stageFinalized \<and>
   map tx_Status (txns (snd (start demo_ctx demo_bad_start NewTransactionActor demo_tx_world))) = [TransactionStatusSuccess]"
proof -
  have "ta_stage NewTransactionActor = stageIdle" "ta_transactionID NewTransactionActor = uuid_Nil"
    "parse_uuid demo_ctx (sm_TransactionId demo_bad_start) = Some 7"
    "sm_Transfers demo_bad_start = demo_entry ''x'' LedgerTypeDebit ''42'' # sm_Transfers demo_start"
    "parse_uuid demo_ctx (te_WalletId (demo_entry ''x'' LedgerTypeDebit ''42'')) = None" by code_simp+
  moreover have "map tx_Status (txns (snd (start demo_ctx demo_bad_start NewTransactionActor demo_tx_world))) = [TransactionStatusSuccess]"
    by code_simp
  ultimately show ?thesis
    using malformed_first_entry_succeeds [of NewTransactionActor demo_ctx demo_bad_start 7] by (simp add: Let_def)
qed

text \<open>
  A transaction whose legs are all in the ledger when it is resumed while reversing: the plan names reversal
  keys for both legs, so its orchestrator had decided to fail it.
\<close>

definition demo_resume_world :: world where
  "demo_resume_world = demo_tx_world\<lparr>ledgers := map (\<lambda>(i, k, a). \<lparr>l_ID = 1, l_WalletID = i, l_TransactionID = 7, l_IdempotencyKey = Some k,
     l_Type = a, l_Purpose = [], l_Amount = 200, l_Currency = ''KES'', l_InitialBalance = 500, l_UpdatedBalance = 300, l_CreatedAt = 0\<rparr>)
     [(1, 42, LedgerTypeDebit), (2, 43, LedgerTypeCredit)]\<rparr>"

definition demo_resume_events :: "ta_event list" where
  "demo_resume_events =
    [StartTransaction (demo_start\<lparr>sm_Resume := True, sm_Transfers := map2 (\<lambda>e k. e\<lparr>te_ReversalKey := k\<rparr>) (sm_Transfers demo_start) [''52'', ''53'']\<rparr>),
     WalletResult (demo_reply ''1'' ''52'' []), WalletResult (demo_reply ''2'' ''53'' []), Finalize]"


end
