(* ===== verification/Transaction_Rows.thy ===== *)
theory Transaction_Rows
  imports Transaction_Outcome
begin

text \<open>
  What a TransactionActor does to the transactions table. \<open>row_step\<close> is the specification of a change to
  one row, \<open>rows_ok\<close> of a change to the table; both are reflexive and transitive, every write of the
  actor satisfies them, and so does every handler.
\<close>

definition terminal :: "transaction_status \<Rightarrow> bool" where
  "terminal s \<longleftrightarrow> s = TransactionStatusSuccess \<or> s = TransactionStatusFailed \<or> s = TransactionStatusReversed"

definition row_identity :: "transaction \<Rightarrow> uuid \<times> time \<times> string \<times> string option \<times> string option \<times> int64 \<times> int64 \<times> string \<times> transaction_type" where
  "row_identity r = (tx_ID r, tx_CreatedAt r, tx_RRN r, tx_OrderID r, tx_ProviderRef r, tx_Amount r, tx_Fee r, tx_Currency r, tx_Type r)"

definition row_step :: "transaction \<Rightarrow> transaction \<Rightarrow> bool" where
  "row_step r r' \<longleftrightarrow> row_identity r' = row_identity r \<and>
     (tx_IsCompleted r \<and> terminal (tx_Status r) \<longrightarrow>
        tx_IsCompleted r' \<and> tx_DateCompleted r' = tx_DateCompleted r \<and>
        (tx_Status r' = tx_Status r \<and> tx_Narration r' = tx_Narration r \<or>
         tx_Status r = TransactionStatusSuccess \<and> tx_Status r' = TransactionStatusReversed))"

definition rows_ok :: "world \<Rightarrow> world \<Rightarrow> bool" where
  "rows_ok w w' \<longleftrightarrow> list_all2 row_step (txns w) (txns w')"

lemma terminal_simps [simp]:
  "terminal TransactionStatusSuccess" "terminal TransactionStatusFailed" "terminal TransactionStatusReversed"
  "\<not> terminal TransactionStatusPending" "\<not> terminal TransactionStatusProcessing"
  by (simp_all add: terminal_def TransactionStatusPending_def TransactionStatusProcessing_def TransactionStatusSuccess_def
      TransactionStatusFailed_def TransactionStatusReversed_def)

lemma row_step_refl [simp]: "row_step r r"
  by (simp add: row_step_def)

lemma row_step_trans: "row_step r s \<Longrightarrow> row_step s u \<Longrightarrow> row_step r u"
  unfolding row_step_def by (metis terminal_simps(3) transaction_status_distinct(13,14))

lemma rows_ok_same: "txns w' = txns w \<Longrightarrow> rows_ok w w'"
  by (simp add: rows_ok_def list.rel_refl)

lemma rows_ok_trans: "rows_ok w w1 \<Longrightarrow> rows_ok w1 w2 \<Longrightarrow> rows_ok w w2"
  unfolding rows_ok_def using list_all2_trans [of row_step row_step row_step] row_step_trans by blast

lemma rows_ok_update:
  assumes "\<And>r. P r \<Longrightarrow> row_step r (f r)"
  shows "rows_ok w (snd (update_txns P f w))"
  using assms by (simp add: rows_ok_def update_txns_def list_all2_conv_all_nth)

lemma rows_ok_each: "(\<And>tr w. rows_ok w (snd (f tr w))) \<Longrightarrow> rows_ok w (snd (each_leg f trs w))"
proof (induction trs arbitrary: w)
  case (Cons x xs)
  show ?case using rows_ok_trans [OF Cons.prems Cons.IH [OF Cons.prems]] by (simp add: split_beta Let_def)
qed (simp add: rows_ok_same)

lemma rows_ok_basic:
  "rows_ok w (snd (try_send c t a k tr w))" "rows_ok w (snd (fresh_reversal_key c tr w))" "rows_ok w (send_finalize c t w)"
  "rows_ok w (Poison w)" "rows_ok w (Notify tx mvs w)" "rows_ok w (cache_Delete ks w)" "rows_ok w (snd (db_call c w))"
  "rows_ok w (snd (send_reversal c t tr w))"
  by (auto intro!: rows_ok_same simp: try_send_def ta_send_def fresh_reversal_key_def send_finalize_def Poison_def Notify_def
      cache_Delete_def db_call_def send_reversal_def Let_def split: option.split)

lemma rows_ok_effects [simp]:
  "rows_ok w (Poison w') = rows_ok w w'" "rows_ok w (Notify tx mvs w') = rows_ok w w'" "rows_ok w (cache_Delete ks w') = rows_ok w w'"
  by (simp_all add: rows_ok_def Poison_def Notify_def cache_Delete_def)

lemma rows_ok_plan: "rows_ok w (persistPlan c t w)" "rows_ok w (heartbeat c t w)"
proof -
  have db: "rows_ok w (snd (update_txns P f (snd (db_call c w))))" if "\<And>r. P r \<Longrightarrow> row_step r (f r)" for P f
    using rows_ok_trans [OF rows_ok_basic(7) rows_ok_update [OF that]] .
  show "rows_ok w (persistPlan c t w)" "rows_ok w (heartbeat c t w)"
    unfolding persistPlan_def heartbeat_def split_beta Let_def
    by (auto split: fault.split intro!: rows_ok_basic db simp: row_step_def row_identity_def)
qed

lemma rows_ok_fire:
  "rows_ok w (snd (fireLegs c t w))" "rows_ok w (snd (snd (resendPending c t w)))" "rows_ok w (snd (fireCredits c t w))"
  "rows_ok w (snd (fireReversals c t w))" "rows_ok w (snd (resume_reversing c t w))"
proof -
  show legs: "rows_ok w (snd (fireLegs c t w))" for t
    unfolding fireLegs_def for_legs_frame by (rule rows_ok_each) (simp add: rows_ok_basic rows_ok_same)
  show "rows_ok w (snd (snd (resendPending c t w)))"
    unfolding resendPending_def snd_conv for_legs_frame
    by (rule rows_ok_each) (simp add: rows_ok_basic rows_ok_same split: option.split)
  show "rows_ok w (snd (fireCredits c t w))" by (simp add: fireCredits_def split_beta Let_def legs)
  show "rows_ok w (snd (fireReversals c t w))"
    unfolding fireReversals_def split_beta Let_def snd_conv for_legs_frame(6)
    by (rule rows_ok_trans [OF rows_ok_trans [OF rows_ok_each rows_ok_plan(1)] rows_ok_each])
      (simp_all add: rows_ok_basic rows_ok_same)
  have pl: "rows_ok w (if b then persistPlan c t w else w)" for b t w by (simp add: rows_ok_plan rows_ok_same)
  show "rows_ok w (snd (resume_reversing c t w))"
    unfolding resume_reversing_def split_beta Let_def snd_conv for_legs_frame(6)
    by (rule rows_ok_trans [OF rows_ok_trans [OF rows_ok_each pl] rows_ok_each])
      (simp_all add: rows_ok_basic rows_ok_same)
qed

lemma rows_ok_advance: "rows_ok w (snd (advance c t w))"
proof -
  have "rows_ok w (send_finalize c t' (snd (fireReversals c t w)))" "rows_ok w (send_finalize c t' (snd (fireCredits c t w)))" for t'
    using rows_ok_trans [OF rows_ok_fire(4) rows_ok_basic(3)] rows_ok_trans [OF rows_ok_fire(3) rows_ok_basic(3)] by blast+
  then show ?thesis by (simp add: advance_def split_beta Let_def rows_ok_same rows_ok_basic rows_ok_fire)
qed

lemma rows_ok_collect: "rows_ok w (snd (collect c msg t w))"
proof -
  have late: "rows_ok w (snd (lateApply c msg i t w))" for i
    unfolding lateApply_def split_beta Let_def
    by (auto intro: rows_ok_same rows_ok_trans [OF rows_ok_trans [OF rows_ok_basic(2) rows_ok_plan(1)] rows_ok_basic(8)])
  have "rows_ok w (snd (collect_leg c msg i t w))" for i
    using late by (simp add: collect_leg_def Let_def rows_ok_same)
  then show ?thesis
    unfolding collect_def split_beta Let_def
    by (auto split: option.split intro: rows_ok_same rows_ok_advance rows_ok_trans [OF _ rows_ok_advance])
qed

lemma rows_ok_tick: "rows_ok w (snd (tick c armed t w))"
  unfolding tick_def split_beta Let_def
  by (auto intro: rows_ok_same rows_ok_fire rows_ok_trans [OF rows_ok_fire(2) rows_ok_plan(2)])

lemma rows_ok_final_write: "rows_ok w (snd (final_write c t st n w))"
proof -
  let ?P = "\<lambda>r. ownRow t r \<and> \<not> tx_IsCompleted r"
  let ?f = "\<lambda>st r. r\<lparr>tx_Status := st, tx_Narration := n, tx_DateCompleted := Some (now c), tx_IsCompleted := True, tx_UpdatedAt := now c\<rparr>"
  have up: "rows_ok w (snd (update_txns ?P (?f st) (snd (db_call c w))))" for st
    by (rule rows_ok_trans [OF rows_ok_basic(7) rows_ok_update]) (simp add: row_step_def row_identity_def)
  have mark: "rows_ok w (snd (markReversed c t rrn w))" for rrn w
    unfolding markReversed_def Let_def snd_conv by (rule rows_ok_update) (simp add: row_step_def row_identity_def)
  show ?thesis
    unfolding final_write_def split_beta Let_def
    by (auto split: fault.split option.split intro: up rows_ok_basic(7) rows_ok_trans [OF up mark])
qed

lemma rows_ok_finalize: "rows_ok w (snd (finalize c t w))"
proof -
  have fa: "rows_ok w (snd (final_attempts c t st n k m w))" for t st n k m w
  proof (induction m arbitrary: k w)
    case (Suc m)
    show ?case
      using rows_ok_final_write [of w c t st n] rows_ok_trans [OF rows_ok_final_write [of w c t st n] Suc]
      by (cases "final_write c t st n w") (auto split: sum.split)
  qed (simp add: rows_ok_same)
  have al: "rows_ok w (alreadyFinal c t st r w)" for t st r w
    unfolding alreadyFinal_def split_beta Let_def
    by (auto intro!: rows_ok_same simp: db_call_def Notify_def cache_Delete_def split: fault.split option.split)
  have fin: "rows_ok w1 (case res of None \<Rightarrow> w1
       | Some p \<Rightarrow> (case fst (fst p) of None \<Rightarrow> alreadyFinal c t st (snd p > 1) w1
           | Some row \<Rightarrow> Notify row (mvs row) (case snd (fst p) of None \<Rightarrow> w1 | Some og \<Rightarrow> cache_Delete (ks og) w1)))"
    for res :: "((transaction option \<times> transaction option) \<times> nat) option" and w1 t st mvs ks
    by (simp add: al rows_ok_same split: option.split)
  show ?thesis
    unfolding finalize_def split_beta Let_def using rows_ok_trans [OF fa fin] by (simp add: rows_ok_same del: One_nat_def)
qed

lemma rows_ok_resume: "rows_ok w (snd (resume c t w))"
proof -
  have "rows_ok w (snd (resume_forward c t w))" for t w by (simp add: resume_forward_def rows_ok_fire)
  then show ?thesis
    unfolding resume_def split_beta Let_def
    by (auto split: fault.split intro: rows_ok_basic(7) rows_ok_fire
        intro!: rows_ok_trans [OF rows_ok_basic(7) rows_ok_trans [OF _ rows_ok_advance]])
qed

lemma rows_ok_start: "rows_ok w (snd (start c msg t w))"
proof -
  let ?P = "\<lambda>t1 r. ownRow t1 r \<and> tx_Status r \<in> set (startable (sm_Resume msg))"
  let ?f = "\<lambda>r. r\<lparr>tx_Status := TransactionStatusProcessing, tx_UpdatedAt := now c\<rparr>"
  have up: "rows_ok w (snd (update_txns (?P t1) ?f (snd (db_call c w))))" for t1
    by (rule rows_ok_trans [OF rows_ok_basic(7) rows_ok_update])
      (auto simp: row_step_def row_identity_def startable_def split: if_splits)
  have res: "rows_ok w (snd (resume c t2 (snd (update_txns (?P t1) ?f (snd (db_call c w))))))" for t1 t2
    using rows_ok_trans [OF up rows_ok_resume] .
  have fire: "rows_ok w (snd (advance c t3 (snd (fireLegs c t2 (snd (update_txns (?P t1) ?f (snd (db_call c w))))))))" for t1 t2 t3
    using rows_ok_trans [OF up rows_ok_trans [OF rows_ok_fire(1) rows_ok_advance]] .
  have again: "rows_ok w (heartbeat c t1 (snd (snd (resendPending c t w))))" for t1
    using rows_ok_trans [OF rows_ok_fire(2) rows_ok_plan(2)] .
  have idle: "rows_ok w w" by (simp add: rows_ok_same)
  show ?thesis
    unfolding start_def split_beta Let_def
    using up res fire again idle rows_ok_basic(7) [of w c] rows_ok_finalize [of w c]
    by (cases "sm_Resume msg") (simp_all split: option.split fault.split)
qed

text \<open>
  Claim C15. One outcome per transaction. Whatever message a TransactionActor handles, and whatever database
  attempts fail or lose their acknowledgement on the way, no row is added, removed or moved, the
  identity and the amounts of a row never change, and a row that is completed keeps its status,
  narration and completion time, except that a successful transaction may become reversed.
\<close>

theorem outcome_written_once:
  assumes "j < length (txns w)"
  shows "length (txns (snd (ta_Receive c ev t w))) = length (txns w) \<and> row_step (txns w ! j) (txns (snd (ta_Receive c ev t w)) ! j)"
proof -
  have "rows_ok w (snd (ta_Receive c ev t w))"
    by (cases ev) (simp_all add: rows_ok_same rows_ok_start rows_ok_collect rows_ok_tick rows_ok_finalize)
  then show ?thesis using assms by (simp add: rows_ok_def list_all2_conv_all_nth)
qed

theorem outcome_written_once_witness:
  "row_step demo_tx (txns (snd (ta_Receive demo_ctx (StartTransaction demo_bad_start) NewTransactionActor demo_tx_world)) ! 0) \<and>
   tx_IsCompleted (txns (snd (ta_Receive demo_ctx (StartTransaction demo_bad_start) NewTransactionActor demo_tx_world)) ! 0)"
proof
  have "0 < length (txns demo_tx_world)" "txns demo_tx_world ! 0 = demo_tx" by (simp_all add: demo_tx_world_def)
  then show "row_step demo_tx (txns (snd (ta_Receive demo_ctx (StartTransaction demo_bad_start) NewTransactionActor demo_tx_world)) ! 0)"
    using outcome_written_once [of 0 demo_tx_world demo_ctx "StartTransaction demo_bad_start" NewTransactionActor] by (simp only:)
  show "tx_IsCompleted (txns (snd (ta_Receive demo_ctx (StartTransaction demo_bad_start) NewTransactionActor demo_tx_world)) ! 0)"
    by code_simp
qed

end
