(* ===== verification/Dead_Letter.thy ===== *)
theory Dead_Letter
  imports Transaction_Outcome
begin

text \<open>
  The dead-letter handler (\<open>internal/actors/dead_letter.go\<close>): what happens to a message that could not be
  delivered. A wallet operation is answered on its wallet's behalf with a code that is not definitive,
  any other message hands the transaction to the recoverer. The property shows the first path end to
  end: an undeliverable operation costs a leg nothing but a retry.
\<close>

section \<open>Model\<close>

text \<open>\<open>[0-9a-fA-F]{8}-[0-9a-fA-F]{4}-[0-9a-fA-F]{4}-[0-9a-fA-F]{4}-[0-9a-fA-F]{12}\<close>\<close>

definition is_hex :: "char \<Rightarrow> bool" where
  "is_hex ch \<longleftrightarrow> ch \<in> set ''0123456789abcdefABCDEF''"

definition uuid_shape :: "bool list" where
  "uuid_shape = replicate 8 True @ False # replicate 4 True @ False # replicate 4 True @ False # replicate 4 True @ False # replicate 12 True"

definition uuid_at :: "string \<Rightarrow> bool" where
  "uuid_at s \<longleftrightarrow> 36 \<le> length s \<and> list_all2 (\<lambda>hex ch. if hex then is_hex ch else ch = CHR ''-'') uuid_shape (take 36 s)"

fun FindString :: "string \<Rightarrow> string" where
  "FindString [] = []"
| "FindString (ch # s) = (if uuid_at (ch # s) then take 36 (ch # s) else FindString s)"

definition identityFromPID :: "string option \<Rightarrow> string" where
  "identityFromPID pid = (case pid of None \<Rightarrow> [] | Some i \<Rightarrow> FindString i)"

datatype dead_message =
    DeadStart StartTransactionMsg
  | DeadOp wallet_msg
  | DeadResult WalletResultMsg
  | DeadTimeout string
  | DeadFinalize string
  | DeadOther

text \<open>What the handler does: send a reply to the operation's sender, call \<open>Recover\<close>, or nothing.\<close>

datatype dead_action = Answer WalletResultMsg | CallRecover uuid string | Ignored

definition recoverByID :: "ctx \<Rightarrow> bool \<Rightarrow> string \<Rightarrow> string \<Rightarrow> dead_action" where
  "recoverByID c recoverer i reason =
     (if \<not> recoverer then Ignored
      else case parse_uuid c i of None \<Rightarrow> Ignored | Some txID \<Rightarrow> CallRecover txID reason)"

definition answerUndeliverable :: "ctx \<Rightarrow> bool \<Rightarrow> bool \<Rightarrow> wallet_op \<Rightarrow> dead_action" where
  "answerUndeliverable c sender recoverer m =
     (if \<not> sender then recoverByID c recoverer (wo_TransactionId m) ''wallet message undeliverable, no sender''
      else Answer \<lparr>rm_TransactionId = wo_TransactionId m, rm_WalletId = wo_WalletId m, rm_IdempotencyKey = wo_IdempotencyKey m,
             rm_InitialBalance = 0, rm_UpdatedBalance = 0, rm_Amount = wo_Amount m,
             rm_ErrorCode = CodeUndeliverable, rm_ErrorMessage = ''wallet actor unreachable''\<rparr>)"

text \<open>The handler: the flags say whether the event has a sender and whether a recoverer is registered.\<close>

fun DeadLetterHandler :: "ctx \<Rightarrow> bool \<Rightarrow> bool \<Rightarrow> string option \<Rightarrow> dead_message \<Rightarrow> dead_action" where
  "DeadLetterHandler c sender recoverer pid (DeadStart msg) =
     recoverByID c recoverer (sm_TransactionId msg) ''start message undeliverable''"
| "DeadLetterHandler c sender recoverer pid (DeadOp m) = answerUndeliverable c sender recoverer (wallet_msg_op m)"
| "DeadLetterHandler c sender recoverer pid (DeadResult msg) =
     recoverByID c recoverer (rm_TransactionId msg) ''wallet reply lost''"
| "DeadLetterHandler c sender recoverer pid (DeadTimeout i) =
     recoverByID c recoverer (if i = [] then identityFromPID pid else i) ''timeout message undeliverable''"
| "DeadLetterHandler c sender recoverer pid (DeadFinalize i) =
     recoverByID c recoverer (if i = [] then identityFromPID pid else i) ''finalize message undeliverable''"
| "DeadLetterHandler c sender recoverer pid DeadOther = Ignored"

section \<open>An undeliverable operation is retried\<close>

lemma match_leg_first:
  assumes "i < length trs" "P (trs ! i)" "\<And>j. j < i \<Longrightarrow> \<not> P (trs ! j)"
  shows "match_leg P trs = Some i"
  using assms
proof (induction trs arbitrary: i)
  case (Cons x xs)
  show ?case
  proof (cases i)
    case (Suc k)
    have "\<not> P x" using Cons.prems(3) [of 0] Suc by simp
    moreover have "match_leg P xs = Some k"
    proof (rule Cons.IH)
      show "\<not> P (xs ! j)" if "j < k" for j using Cons.prems(3) [of "Suc j"] Suc that by simp
    qed (use Cons.prems Suc in simp_all)
    ultimately show ?thesis using Suc by simp
  qed (use Cons.prems in simp)
qed simp

lemma wallet_msg_op_message:
  "wo_IdempotencyKey (wallet_msg_op (op_message c i tr a k)) = str_uuid c k"
  by (simp add: op_message_def Let_def)

text \<open>
  Claim C20. An undeliverable operation is retried, not failed. When the operation a TransactionActor has in
  flight for an outstanding leg becomes a dead letter, the answer made up for it changes nothing but the
  leg's retry flag: no leg is settled or failed, the stage stays, and nothing is sent until the next tick.
\<close>

theorem undeliverable_is_retried:
  assumes "uuid_codec c" "ta_stage t = stageProcessing \<or> ta_stage t = stageCrediting"
    and "i < length (ta_transfers t)" "tr = ta_transfers t ! i" "\<not> tr_done tr" "inStage t tr"
    and "distinct (map tr_key (ta_transfers t))"
    and "DeadLetterHandler c True r pid (DeadOp (op_message c (ta_transactionID t) tr (tr_action tr) (tr_key tr))) = Answer msg"
  shows "collect c msg t w = (set_leg t i (tr\<lparr>tr_retry := True\<rparr>), w)"
proof -
  have key: "rm_IdempotencyKey msg = str_uuid c (tr_key tr)" and code: "rm_ErrorCode msg = CodeUndeliverable"
    using assms(8) by (auto simp: answerUndeliverable_def wallet_msg_op_message)
  have flight: "inFlightKey c (ta_stage t) (ta_transfers t ! j) = str_uuid c (tr_key (ta_transfers t ! j))"
    if "j < length (ta_transfers t)" for j
    using that assms(2) by (auto simp: inFlightKey_def split: option.split)
  have "match_leg (\<lambda>x. inFlightKey c (ta_stage t) x = rm_IdempotencyKey msg) (ta_transfers t) = Some i"
  proof (rule match_leg_first [OF assms(3)])
    show "inFlightKey c (ta_stage t) (ta_transfers t ! i) = rm_IdempotencyKey msg"
      using flight [OF assms(3)] key assms(4) by simp
    show "inFlightKey c (ta_stage t) (ta_transfers t ! j) \<noteq> rm_IdempotencyKey msg" if "j < i" for j
    proof -
      have "tr_key (ta_transfers t ! j) \<noteq> tr_key (ta_transfers t ! i)"
        using nth_eq_iff_index_eq [OF assms(7), of j i] that assms(3) by simp
      then show ?thesis using flight [of j] that assms(3,4) key str_uuid_inject [OF assms(1)] by simp
    qed
  qed
  moreover have "collect_leg c msg i t w = (set_leg t i (tr\<lparr>tr_retry := True\<rparr>), w)"
    using assms(4,5) code by (simp add: collect_leg_def Let_def)
  moreover have "\<not> allDone (set_leg t i (tr\<lparr>tr_retry := True\<rparr>))"
    using assms(3,5,6) by (auto simp: allDone_def list_all_iff inStage_def set_update_memI split: stage.splits intro!: bexI [of _ "tr\<lparr>tr_retry := True\<rparr>"])
  moreover have "working t" using assms(2) by (auto simp: working_def)
  ultimately show ?thesis by (simp add: collect_def advance_def)
qed

text \<open>The debit of the demo transaction lost on its way.\<close>

theorem undeliverable_is_retried_witness:
  "let s = ta_run demo_ctx [StartTransaction demo_start] (NewTransactionActor, demo_tx_world); tr = ta_transfers (fst s) ! 0;
       msg = (case DeadLetterHandler demo_ctx True True None (DeadOp (op_message demo_ctx 7 tr LedgerTypeDebit 42)) of Answer m \<Rightarrow> m)
   in collect demo_ctx msg (fst s) (snd s) = (set_leg (fst s) 0 (tr\<lparr>tr_retry := True\<rparr>), snd s)"
proof -
  let ?s = "ta_run demo_ctx [StartTransaction demo_start] (NewTransactionActor, demo_tx_world)"
  let ?tr = "ta_transfers (fst ?s) ! 0"
  have f: "ta_stage (fst ?s) = stageProcessing" "0 < length (ta_transfers (fst ?s))" "\<not> tr_done ?tr" "inStage (fst ?s) ?tr"
    "distinct (map tr_key (ta_transfers (fst ?s)))"
    "ta_transactionID (fst ?s) = 7" "tr_action ?tr = LedgerTypeDebit" "tr_key ?tr = 42" by code_simp+
  have a: "DeadLetterHandler demo_ctx True True None (DeadOp (op_message demo_ctx (ta_transactionID (fst ?s)) ?tr (tr_action ?tr) (tr_key ?tr))) =
      Answer (case DeadLetterHandler demo_ctx True True None (DeadOp (op_message demo_ctx 7 ?tr LedgerTypeDebit 42)) of Answer m \<Rightarrow> m)"
    unfolding f by (simp add: answerUndeliverable_def)
  from undeliverable_is_retried [OF demo_codec disjI1 [OF f(1)] f(2) refl f(3-5) a]
  show ?thesis unfolding Let_def .
qed

end
