(* ===== verification/Recovery.thy ===== *)
theory Recovery
  imports Transaction_Rows
begin

text \<open>
  The recovery manager (\<open>internal/recovery/recovery.go\<close>). \<open>manager\<close> is its struct (options, attempt
  counters and last runs); \<open>Recover\<close> decides whether to schedule a re-drive, \<open>recover\<close> is the scheduled
  goroutine, \<open>sweep\<close> one tick of the sweeper. Each takes the environment of its own moment, so time passes between calls.

  The lemmas: a re-drive carries the stored plan and finds its row, repeated requests are limited by the
  cooldown and by the number of attempts, a transaction that stays stuck is completed as failed,
  and a completed row is never overwritten.
\<close>

section \<open>Model\<close>

record options =
  op_MaxAttempts :: int
  op_Cooldown :: time
  op_StaleAfter :: time
  op_SweepInterval :: time
  op_Lookback :: time

definition withDefaults :: "options \<Rightarrow> options" where
  "withDefaults p =
     \<lparr>op_MaxAttempts = (if op_MaxAttempts p \<le> 0 then 5 else op_MaxAttempts p),
      op_Cooldown = (if op_Cooldown p \<le> 0 then 10 * second else op_Cooldown p),
      op_StaleAfter = (if op_StaleAfter p \<le> 0 then 2 * minute else op_StaleAfter p),
      op_SweepInterval = (if op_SweepInterval p \<le> 0 then 30 * second else op_SweepInterval p),
      op_Lookback = (if op_Lookback p \<le> 0 then 7 * 24 * hour else op_Lookback p)\<rparr>"

record manager =
  mg_opts :: options
  mg_attempts :: "uuid \<Rightarrow> int option"
  mg_lastRun :: "uuid \<Rightarrow> time option"

definition NewManager :: "options \<Rightarrow> manager" where
  "NewManager p = \<lparr>mg_opts = withDefaults p, mg_attempts = (\<lambda>i. None), mg_lastRun = (\<lambda>i. None)\<rparr>"

text \<open>\<open>Recover\<close>: the attempt it schedules, if any.\<close>

definition Recover :: "ctx \<Rightarrow> uuid \<Rightarrow> manager \<Rightarrow> int option \<times> manager" where
  "Recover c txID m =
     (case mg_lastRun m txID of
        Some prev \<Rightarrow>
          if now c - prev < op_Cooldown (mg_opts m) then (None, m)
          else (let n = (case mg_attempts m txID of Some k \<Rightarrow> k | None \<Rightarrow> 0) + 1
                in (Some n, m\<lparr>mg_lastRun := (mg_lastRun m)(txID \<mapsto> now c), mg_attempts := (mg_attempts m)(txID \<mapsto> n)\<rparr>))
      | None \<Rightarrow>
          (let n = (case mg_attempts m txID of Some k \<Rightarrow> k | None \<Rightarrow> 0) + 1
           in (Some n, m\<lparr>mg_lastRun := (mg_lastRun m)(txID \<mapsto> now c), mg_attempts := (mg_attempts m)(txID \<mapsto> n)\<rparr>)))"

definition notAfter :: "ctx \<Rightarrow> time" where "notAfter c = now c + 24 * hour"

definition forget :: "uuid \<Rightarrow> manager \<Rightarrow> manager" where
  "forget txID m = m\<lparr>mg_attempts := (mg_attempts m)(txID := None), mg_lastRun := (mg_lastRun m)(txID := None)\<rparr>"

text \<open>A failing step returns its error text.\<close>

definition markFailed :: "ctx \<Rightarrow> transaction \<Rightarrow> string \<Rightarrow> bool \<Rightarrow> manager \<Rightarrow> world \<Rightarrow> string option \<times> manager \<times> world" where
  "markFailed c tx narration0 reconcile m w0 =
     (let narration = (if reconcile then narration0 @ '' (ledger entries exist, reconciliation required)'' else narration0);
          (f, w) = db_call c w0;
          (n, w1) = update_txns (\<lambda>r. tx_ID r = tx_ID tx \<and> tx_CreatedAt tx - minute \<le> tx_CreatedAt r \<and>
                tx_CreatedAt r < tx_CreatedAt tx + minute \<and> \<not> tx_IsCompleted r)
              (\<lambda>r. r\<lparr>tx_Status := TransactionStatusFailed, tx_Narration := narration, tx_IsCompleted := True,
                     tx_DateCompleted := Some (now c), tx_UpdatedAt := now c\<rparr>) w in
      (case f of
         Failed e \<Rightarrow> (Some (''mark failed: '' @ e), m, w)
       | LostAck e \<Rightarrow> (Some (''mark failed: '' @ e), m, w1)
       | NoFault \<Rightarrow>
           (None, forget (tx_ID tx) m,
            Notify (tx\<lparr>tx_Status := TransactionStatusFailed, tx_Narration := narration, tx_IsCompleted := True,
                       tx_DateCompleted := Some (now c)\<rparr>) None w1)))"

definition giveUp :: "ctx \<Rightarrow> transaction \<Rightarrow> string \<Rightarrow> manager \<Rightarrow> world \<Rightarrow> string option \<times> manager \<times> world" where
  "giveUp c tx reason m w0 =
     (let (f, w) = db_call c w0;
          moved = (case f of
              NoFault \<Rightarrow> length (filter (\<lambda>l. l_TransactionID l = tx_ID tx \<and> tx_CreatedAt tx - minute \<le> l_CreatedAt l \<and>
                 l_CreatedAt l < notAfter c) (ledgers w))
            | _ \<Rightarrow> 0)
      in markFailed c tx (''processing abandoned after '' @ FormatInt (op_MaxAttempts (mg_opts m)) @ '' recovery attempts ('' @ reason @ '')'')
           (moved > 0) m w)"

definition resume_message :: "ctx \<Rightarrow> transaction \<Rightarrow> transfer_leg list \<Rightarrow> StartTransactionMsg" where
  "resume_message c tx plan = \<lparr>sm_TransactionId = str_uuid c (tx_ID tx), sm_CreatedAtUnix = (tx_CreatedAt tx - minute) div second,
     sm_Transfers = PlanToProto c plan, sm_Resume = True\<rparr>"

definition recover :: "ctx \<Rightarrow> uuid \<Rightarrow> string \<Rightarrow> int \<Rightarrow> manager \<Rightarrow> world \<Rightarrow> string option \<times> manager \<times> world" where
  "recover c txID reason attempt m w0 =
     (let (f, w) = db_call c w0 in
      (case f of
         Failed e \<Rightarrow> (Some (''load: '' @ e), m, w)
       | LostAck e \<Rightarrow> (Some (''load: '' @ e), m, w)
       | NoFault \<Rightarrow>
           (case find (\<lambda>r. tx_ID r = txID \<and> now c - op_Lookback (mg_opts m) \<le> tx_CreatedAt r \<and> tx_CreatedAt r < notAfter c) (txns w) of
              None \<Rightarrow> (Some ''load: record not found'', m, w)
            | Some tx \<Rightarrow>
                if tx_IsCompleted tx then (None, forget txID m, w)
                else if attempt > op_MaxAttempts (mg_opts m) then giveUp c tx reason m w
                else
                  (case DecodePlan c (tx_Transfers tx) of
                     None \<Rightarrow> (Some ''decode plan'', m, w)
                   | Some plan \<Rightarrow>
                       if plan = [] then markFailed c tx ''no transfer plan recorded; cannot recover'' False m w
                       else
                         (let w1 = w\<lparr>n_pid := Suc (n_pid w)\<rparr> in
                          if \<not> placed c (n_pid w) txID then (Some ''cluster could not place transaction actor'', m, w1)
                          else (None, m, w1\<lparr>txbox := txbox w1 @ [(txID, resume_message c tx plan)]\<rparr>))))))"

text \<open>\<open>Duration.String\<close>\<close>

definition trim_zeros :: "string \<Rightarrow> string" where
  "trim_zeros s = rev (dropWhile (\<lambda>ch. ch = CHR ''0'') (rev s))"

definition fmtFrac :: "nat \<Rightarrow> nat \<Rightarrow> string" where
  "fmtFrac v prec =
     (let d = nat_digits (v mod 10 ^ prec);
          frac = trim_zeros (replicate (prec - length d) (CHR ''0'') @ d)
      in if frac = [] then [] else CHR ''.'' # frac)"

definition duration_String :: "time \<Rightarrow> string" where
  "duration_String d =
     (let u = nat \<bar>d\<bar>;
          body =
            (if u = 0 then ''0s''
             else if u < 1000 then nat_digits u @ ''ns''
             else if u < 1000000 then nat_digits (u div 1000) @ fmtFrac u 3 @ [CHR 0xC2, CHR 0xB5, CHR ''s'']
             else if u < 1000000000 then nat_digits (u div 1000000) @ fmtFrac u 6 @ ''ms''
             else
               (let s = u div 1000000000; mins = s div 60 in
                (if mins div 60 > 0 then nat_digits (mins div 60) @ ''h'' else []) @
                (if mins > 0 then nat_digits (mins mod 60) @ ''m'' else []) @
                nat_digits (s mod 60) @ fmtFrac u 9 @ ''s''))
      in if d < 0 then CHR ''-'' # body else body)"

text \<open>The sweeper's calls to \<open>Recover\<close>, with the attempts they schedule.\<close>

fun sweep_ids :: "ctx \<Rightarrow> string \<Rightarrow> uuid list \<Rightarrow> manager \<Rightarrow> (uuid \<times> string \<times> int) list \<times> manager" where
  "sweep_ids c reason [] m = ([], m)"
| "sweep_ids c reason (i # ids) m =
     (let (n, m1) = Recover c i m; (jobs, m2) = sweep_ids c reason ids m1
      in (case n of Some k \<Rightarrow> (i, reason, k) # jobs | None \<Rightarrow> jobs, m2))"

definition sweep :: "ctx \<Rightarrow> manager \<Rightarrow> world \<Rightarrow> (uuid \<times> string \<times> int) list \<times> manager \<times> world" where
  "sweep c m w0 =
     (let (f, w) = db_call c w0 in
      (case f of
         NoFault \<Rightarrow>
           (let stuck = map tx_ID (take 200 (filter (\<lambda>r. \<not> tx_IsCompleted r \<and> tx_UpdatedAt r < now c - op_StaleAfter (mg_opts m) \<and>
                   now c - op_Lookback (mg_opts m) \<le> tx_CreatedAt r \<and> tx_CreatedAt r < notAfter c) (txns w)));
                (jobs, m1) = sweep_ids c (''stale for over '' @ duration_String (op_StaleAfter (mg_opts m))) stuck m
            in (jobs, m1, w))
       | _ \<Rightarrow> ([], m, w)))"

section \<open>A re-drive finds its row\<close>

lemma unix_window:
  "(C - minute) div second * second \<le> C" "C < (C - minute) div second * second + 2 * minute"
  by (simp_all add: minute_def second_def)

text \<open>
  A re-drive carries the stored plan to the stored row. Whenever recovery sends a transaction to
  an orchestrator, the transaction is in the table and incomplete, the message is a resume of it, the
  legs a fresh orchestrator loads from the message are the legs of the stored plan with their keys and
  reversal keys, and the orchestrator's one-partition window contains the row.
\<close>

theorem redrive_is_faithful:
  assumes "uuid_codec c" "recover c txID reason attempt m w = (e, m', w')" "txbox w' = txbox w @ [(i, msg)]"
    and "\<forall>r \<in> set (txns w). \<forall>plan. DecodePlan c (tx_Transfers r) = Some plan \<longrightarrow> (\<forall>l \<in> set plan. 0 < tl_Amount l)"
  shows "\<exists>tx \<in> set (txns w). \<exists>plan. i = txID \<and> tx_ID tx = txID \<and> \<not> tx_IsCompleted tx \<and> attempt \<le> op_MaxAttempts (mg_opts m) \<and>
    DecodePlan c (tx_Transfers tx) = Some plan \<and> sm_Resume msg \<and> parse_uuid c (sm_TransactionId msg) = Some txID \<and>
    fst (loadTransfers c (sm_Transfers msg)) \<and> map plan_entry (snd (loadTransfers c (sm_Transfers msg))) = plan \<and>
    ownRow (NewTransactionActor\<lparr>ta_transactionID := txID, ta_createdAt := sm_CreatedAtUnix msg * second\<rparr>) tx"
proof -
  have blind: "txbox (snd (snd (markFailed c tx nar b m w))) = txbox w" for tx nar b m w
    by (simp add: markFailed_def db_call_def update_txns_def Notify_def Let_def split: fault.split)
  then have give: "txbox (snd (snd (giveUp c tx reason m w))) = txbox w" for tx m w
    by (simp add: giveUp_def split_beta Let_def db_call_def)
  let ?P = "\<lambda>r. tx_ID r = txID \<and> now c - op_Lookback (mg_opts m) \<le> tx_CreatedAt r \<and> tx_CreatedAt r < notAfter c"
  let ?w = "snd (db_call c w)"
  have tb: "txbox ?w = txbox w" "txns ?w = txns w" by (simp_all add: db_call_def)
  have "e = fst (recover c txID reason attempt m w)" "w' = snd (snd (recover c txID reason attempt m w))"
    using assms(2) by simp_all
  note res = this(2) [unfolded recover_def split_beta Let_def]
  obtain tx plan where tx: "find ?P (txns w) = Some tx" "\<not> tx_IsCompleted tx" "attempt \<le> op_MaxAttempts (mg_opts m)"
    "DecodePlan c (tx_Transfers tx) = Some plan" "i = txID" "msg = resume_message c tx plan"
    using res assms(3) blind [of _ _ _ m ?w] give [of _ m ?w] tb
    by (auto split: fault.splits option.splits if_splits)
  have mem: "tx \<in> set (txns w)" "tx_ID tx = txID" using tx(1) by (auto simp: find_Some_iff)
  have load: "fst (loadTransfers c (PlanToProto c plan)) \<and> map plan_entry (snd (loadTransfers c (PlanToProto c plan))) = plan"
    using assms(4) mem(1) tx(4) by (intro loadTransfers_PlanToProto [OF assms(1)]) blast
  have "ownRow (NewTransactionActor\<lparr>ta_transactionID := txID, ta_createdAt := sm_CreatedAtUnix msg * second\<rparr>) tx"
    using mem(2) unix_window [of "tx_CreatedAt tx"] by (simp add: ownRow_def tx(6) resume_message_def)
  with mem tx load uuid_codecD(1) [OF assms(1)] show ?thesis by (auto simp: resume_message_def)
qed

definition demo_options :: options where
  "demo_options = \<lparr>op_MaxAttempts = 0, op_Cooldown = 0, op_StaleAfter = 0, op_SweepInterval = 0, op_Lookback = 0\<rparr>"

definition demo_stuck :: transaction where
  "demo_stuck = demo_tx\<lparr>tx_Status := TransactionStatusProcessing, tx_Transfers := Some (EncodePlan demo_ctx demo_plan)\<rparr>"

definition demo_stuck_world :: world where "demo_stuck_world = empty_world\<lparr>txns := [demo_stuck]\<rparr>"

lemma demo_stuck_plan: "DecodePlan demo_ctx (tx_Transfers demo_stuck) = Some demo_plan"
  by code_simp

theorem redrive_is_faithful_witness:
  "\<exists>msg. txbox (snd (snd (recover demo_ctx 7 ''stale'' 1 (NewManager demo_options) demo_stuck_world))) = [(7, msg)] \<and>
     map plan_entry (snd (loadTransfers demo_ctx (sm_Transfers msg))) = demo_plan"
proof -
  let ?r = "recover demo_ctx 7 ''stale'' 1 (NewManager demo_options) demo_stuck_world"
  have "length (txbox (snd (snd ?r))) = 1" "txbox demo_stuck_world = []" by code_simp+
  then obtain p where p: "txbox (snd (snd ?r)) = txbox demo_stuck_world @ [(fst p, snd p)]"
    by (cases "txbox (snd (snd ?r))") simp_all
  have rows: "\<forall>r \<in> set (txns demo_stuck_world). \<forall>plan. DecodePlan demo_ctx (tx_Transfers r) = Some plan \<longrightarrow> (\<forall>l \<in> set plan. 0 < tl_Amount l)"
    using demo_stuck_plan by (auto simp: demo_stuck_world_def demo_plan_def)
  have "fst p = 7 \<and> map plan_entry (snd (loadTransfers demo_ctx (sm_Transfers (snd p)))) = demo_plan"
    using redrive_is_faithful [OF demo_codec _ p rows, of 7 "''stale''" 1 "NewManager demo_options" "fst ?r" "fst (snd ?r)"] demo_stuck_plan
    by (auto simp: demo_stuck_world_def)
  with p show ?thesis by (auto simp: demo_stuck_world_def empty_world_def)
qed

section \<open>Rows and the cooldown\<close>

lemma rows_ok_markFailed: "rows_ok w (snd (snd (markFailed c tx nar b m w)))"
proof -
  let ?P = "\<lambda>r. tx_ID r = tx_ID tx \<and> tx_CreatedAt tx - minute \<le> tx_CreatedAt r \<and>
      tx_CreatedAt r < tx_CreatedAt tx + minute \<and> \<not> tx_IsCompleted r"
  have "rows_ok w (snd (update_txns ?P (\<lambda>r. r\<lparr>tx_Status := TransactionStatusFailed, tx_Narration := n, tx_IsCompleted := True,
      tx_DateCompleted := Some (now c), tx_UpdatedAt := now c\<rparr>) (snd (db_call c w))))" for n
    by (rule rows_ok_trans [OF rows_ok_basic(7) rows_ok_update]) (simp add: row_step_def row_identity_def)
  then show ?thesis
    unfolding markFailed_def split_beta Let_def by (simp add: rows_ok_basic split: fault.split)
qed

text \<open>
  Recovery never rewrites an outcome. Whatever a recovery attempt does, with whatever database
  failures, the rows keep their identity and amounts, and a completed row keeps its status, narration and completion time.
\<close>

theorem recovery_keeps_outcomes:
  assumes "j < length (txns w)"
  shows "row_step (txns w ! j) (txns (snd (snd (recover c txID reason attempt m w))) ! j)"
proof -
  have give: "rows_ok w (snd (snd (giveUp c tx reason m w)))" for tx m w
    using rows_ok_trans [OF rows_ok_basic(7) rows_ok_markFailed] by (simp add: giveUp_def split_beta Let_def)
  have mark: "rows_ok w (snd (snd (markFailed c tx nar b m (snd (db_call c w)))))" for tx nar b m
    using rows_ok_trans [OF rows_ok_basic(7) rows_ok_markFailed] .
  have up: "rows_ok w (snd (snd (giveUp c tx reason m (snd (db_call c w)))))" for tx m
    using rows_ok_trans [OF rows_ok_basic(7) give] .
  have send: "rows_ok w (snd (db_call c w)\<lparr>n_pid := x, txbox := y\<rparr>)" "rows_ok w (snd (db_call c w)\<lparr>n_pid := x\<rparr>)" for x y
    by (simp_all add: rows_ok_same db_call_def)
  have "rows_ok w (snd (snd (recover c txID reason attempt m w)))"
    unfolding recover_def split_beta Let_def
    using mark up send rows_ok_basic(7) [of w c] by (auto split: fault.split option.split)
  then show ?thesis using assms by (simp add: rows_ok_def list_all2_conv_all_nth)
qed

theorem recovery_keeps_outcomes_witness:
  "row_step demo_stuck (txns (snd (snd (recover demo_ctx 7 ''stale'' 9 (NewManager demo_options) demo_stuck_world))) ! 0) \<and>
   tx_IsCompleted (txns (snd (snd (recover demo_ctx 7 ''stale'' 9 (NewManager demo_options) demo_stuck_world))) ! 0)"
proof
  have "0 < length (txns demo_stuck_world)" "txns demo_stuck_world ! 0 = demo_stuck" by (simp_all add: demo_stuck_world_def)
  then show "row_step demo_stuck (txns (snd (snd (recover demo_ctx 7 ''stale'' 9 (NewManager demo_options) demo_stuck_world))) ! 0)"
    using recovery_keeps_outcomes [of 0 demo_stuck_world demo_ctx 7 "''stale''" 9 "NewManager demo_options"] by (simp only:)
  show "tx_IsCompleted (txns (snd (snd (recover demo_ctx 7 ''stale'' 9 (NewManager demo_options) demo_stuck_world))) ! 0)" by code_simp
qed

text \<open>
  Claim C39. Giving up announces a failure even when nothing was written. If the orchestrator completes the
  row between recovery's read and its write, the guarded update matches no row, the table keeps the
  orchestrator's outcome, and the notifier is still told that the transaction failed.
\<close>

theorem stale_giveup_announces_failure:
  assumes "fault c (n_db w) = NoFault" "\<forall>r \<in> set (txns w). tx_ID r = tx_ID tx \<longrightarrow> tx_IsCompleted r"
  shows "let w' = snd (snd (markFailed c tx narration reconcile m w)) in
    txns w' = txns w \<and> (\<exists>n. notices w' = notices w @ [(n, None)] \<and> tx_ID n = tx_ID tx \<and> tx_Status n = TransactionStatusFailed)"
proof -
  let ?P = "\<lambda>r. tx_ID r = tx_ID tx \<and> tx_CreatedAt tx - minute \<le> tx_CreatedAt r \<and> tx_CreatedAt r < tx_CreatedAt tx + minute \<and> \<not> tx_IsCompleted r"
  have "map (\<lambda>t. if ?P t then f t else t) (txns w) = txns w" for f using assms(2) by (intro map_idI) auto
  then show ?thesis using assms(1) by (simp add: markFailed_def db_call_def update_txns_def Notify_def Let_def)
qed

definition demo_done_world :: world where
  "demo_done_world = empty_world\<lparr>txns := [demo_stuck\<lparr>tx_Status := TransactionStatusSuccess, tx_IsCompleted := True\<rparr>]\<rparr>"

theorem stale_giveup_announces_failure_witness:
  "map tx_Status (txns (snd (snd (markFailed demo_ctx demo_stuck ''abandoned'' False (NewManager demo_options) demo_done_world)))) =
     [TransactionStatusSuccess] \<and>
   (\<exists>n. notices (snd (snd (markFailed demo_ctx demo_stuck ''abandoned'' False (NewManager demo_options) demo_done_world))) = [(n, None)] \<and>
      tx_Status n = TransactionStatusFailed)"
  using stale_giveup_announces_failure [of demo_ctx demo_done_world demo_stuck "''abandoned''" False "NewManager demo_options"]
  by (auto simp: Let_def demo_done_world_def empty_world_def cong: option.case_cong)

section \<open>A stuck transaction is abandoned\<close>

text \<open>One accepted request together with its goroutine, and a series of them at the times \<open>T 0\<close>, \<open>T 1\<close>, ...\<close>

definition drive :: "ctx \<Rightarrow> uuid \<Rightarrow> string \<Rightarrow> manager \<times> world \<Rightarrow> manager \<times> world" where
  "drive c i reason s = (case Recover c i (fst s) of
      (None, m) \<Rightarrow> (m, snd s)
    | (Some n, m) \<Rightarrow> snd (recover c i reason n m (snd s)))"

fun drives :: "ctx \<Rightarrow> (nat \<Rightarrow> time) \<Rightarrow> uuid \<Rightarrow> string \<Rightarrow> nat \<Rightarrow> manager \<times> world \<Rightarrow> manager \<times> world" where
  "drives c T i reason 0 s = s"
| "drives c T i reason (Suc k) s = drive (c\<lparr>now := T k\<rparr>) i reason (drives c T i reason k s)"

lemma find_unique:
  "filter Q xs = [x] \<Longrightarrow> (\<And>y. P y \<Longrightarrow> Q y) \<Longrightarrow> P x \<Longrightarrow> find P xs = Some x"
  by (induction xs) (auto split: if_splits simp: filter_empty_conv find_None_iff)

lemma Recover_accepted:
  assumes "mg_lastRun m i = None \<or> (\<exists>l. mg_lastRun m i = Some l \<and> op_Cooldown (mg_opts m) \<le> now c - l)"
    and "(case mg_attempts m i of Some k \<Rightarrow> k | None \<Rightarrow> 0) = n"
  shows "\<exists>m'. Recover c i m = (Some (n + 1), m') \<and> mg_opts m' = mg_opts m \<and> mg_attempts m' i = Some (n + 1) \<and> mg_lastRun m' i = Some (now c)"
  using assms by (auto simp: Recover_def Let_def)

text \<open>The state after some attempts that led nowhere.\<close>

definition waiting :: "manager \<Rightarrow> world \<Rightarrow> uuid \<Rightarrow> (nat \<Rightarrow> time) \<Rightarrow> nat \<Rightarrow> manager \<times> world \<Rightarrow> bool" where
  "waiting m w i T k s \<longleftrightarrow> mg_opts (fst s) = mg_opts m \<and>
     (if k = 0 then mg_attempts (fst s) i = None \<and> mg_lastRun (fst s) i = None
      else mg_attempts (fst s) i = Some (int k) \<and> mg_lastRun (fst s) i = Some (T (k - 1))) \<and>
     txns (snd s) = txns w \<and> ledgers (snd s) = ledgers w \<and> notices (snd s) = notices w \<and> length (txbox (snd s)) \<le> length (txbox w) + k"

lemma waiting_accepts:
  assumes "waiting m w i T k s" "\<forall>j < k. T j + op_Cooldown (mg_opts m) \<le> T (Suc j)"
  shows "\<exists>m1. Recover (c\<lparr>now := T k\<rparr>) i (fst s) = (Some (int k + 1), m1) \<and> mg_opts m1 = mg_opts m \<and>
    mg_attempts m1 i = Some (int k + 1) \<and> mg_lastRun m1 i = Some (T k)"
proof (cases k)
  case 0
  with assms(1) show ?thesis using Recover_accepted [of "fst s" i "c\<lparr>now := T k\<rparr>" 0] by (auto simp: waiting_def)
next
  case (Suc j)
  then have "T j + op_Cooldown (mg_opts m) \<le> T k" using assms(2) by simp
  with Suc assms(1) show ?thesis using Recover_accepted [of "fst s" i "c\<lparr>now := T k\<rparr>" "int k"] by (auto simp: waiting_def)
qed

lemma recover_loads:
  assumes "faultless c" "find (\<lambda>r. tx_ID r = i \<and> now c - op_Lookback (mg_opts m) \<le> tx_CreatedAt r \<and> tx_CreatedAt r < notAfter c) (txns w) = Some tx"
    "\<not> tx_IsCompleted tx" "DecodePlan c (tx_Transfers tx) = Some plan" "plan \<noteq> []"
  shows "attempt \<le> op_MaxAttempts (mg_opts m) \<Longrightarrow> \<exists>e w'. recover c i reason attempt m w = (e, m, w') \<and>
      txns w' = txns w \<and> ledgers w' = ledgers w \<and> notices w' = notices w \<and> length (txbox w') \<le> Suc (length (txbox w))"
    and "attempt > op_MaxAttempts (mg_opts m) \<Longrightarrow> recover c i reason attempt m w = giveUp c tx reason m (snd (db_call c w))"
  using assms by (auto simp: recover_def db_call_def faultless_def Let_def)

lemma markFailed_completes:
  assumes "faultless c" "tx \<in> set (txns w)" "\<not> tx_IsCompleted tx"
  shows "\<exists>r \<in> set (txns (snd (snd (markFailed c tx nar b m w)))). tx_ID r = tx_ID tx \<and> tx_IsCompleted r \<and> tx_Status r = TransactionStatusFailed"
    and "length (notices (snd (snd (markFailed c tx nar b m w)))) = Suc (length (notices w))"
    "txbox (snd (snd (markFailed c tx nar b m w))) = txbox w" "mg_attempts (fst (snd (markFailed c tx nar b m w))) (tx_ID tx) = None"
proof -
  have f: "fault c n = NoFault" for n using assms(1) by (simp add: faultless_def)
  let ?P = "\<lambda>r. tx_ID r = tx_ID tx \<and> tx_CreatedAt tx - minute \<le> tx_CreatedAt r \<and> tx_CreatedAt r < tx_CreatedAt tx + minute \<and> \<not> tx_IsCompleted r"
  have "?P tx" using assms(3) by (simp add: minute_def second_def)
  let ?u = "\<lambda>r. r\<lparr>tx_Status := TransactionStatusFailed,
      tx_Narration := if b then nar @ '' (ledger entries exist, reconciliation required)'' else nar, tx_IsCompleted := True,
      tx_DateCompleted := Some (now c), tx_UpdatedAt := now c\<rparr>"
  have rows: "txns (snd (snd (markFailed c tx nar b m w))) = map (\<lambda>t. if ?P t then ?u t else t) (txns w)"
    by (simp add: markFailed_def db_call_def update_txns_def Notify_def Let_def f)
  have mem: "?u tx \<in> set (map (\<lambda>t. if ?P t then ?u t else t) (txns w))"
    using assms(2) \<open>?P tx\<close> by (auto intro!: image_eqI [of _ _ tx])
  show "\<exists>r \<in> set (txns (snd (snd (markFailed c tx nar b m w)))). tx_ID r = tx_ID tx \<and> tx_IsCompleted r \<and> tx_Status r = TransactionStatusFailed"
    unfolding rows by (rule bexI [OF _ mem]) simp
  show "length (notices (snd (snd (markFailed c tx nar b m w)))) = Suc (length (notices w))"
    "txbox (snd (snd (markFailed c tx nar b m w))) = txbox w" "mg_attempts (fst (snd (markFailed c tx nar b m w))) (tx_ID tx) = None"
    by (simp_all add: markFailed_def db_call_def update_txns_def Notify_def Let_def f forget_def)
qed

lemma giveUp_marks: "\<exists>nar b. giveUp c tx reason m w = markFailed c tx nar b m (snd (db_call c w))"
  unfolding giveUp_def split_beta Let_def by blast

text \<open>
  Claim C19. A transaction that stays stuck is abandoned, not retried for ever. With a working database, a
  transaction that no orchestrator moves is re-driven at most \<open>MaxAttempts\<close> times; the next request
  completes its row as failed, tells the notifier once, and clears the counters.
\<close>

theorem stuck_transaction_is_abandoned:
  assumes "faultless c" "filter (\<lambda>r. tx_ID r = i) (txns w) = [tx]" "\<not> tx_IsCompleted tx"
    and "DecodePlan c (tx_Transfers tx) = Some plan" "plan \<noteq> []" "int N = op_MaxAttempts (mg_opts m)"
    and "\<forall>k \<le> N. T k - op_Lookback (mg_opts m) \<le> tx_CreatedAt tx \<and> tx_CreatedAt tx < T k + 24 * hour"
    and "\<forall>k < N. T k + op_Cooldown (mg_opts m) \<le> T (Suc k)" "mg_attempts m i = None" "mg_lastRun m i = None"
  shows "let s = drives c T i reason (Suc N) (m, w) in
    (\<exists>r \<in> set (txns (snd s)). tx_ID r = i \<and> tx_IsCompleted r \<and> tx_Status r = TransactionStatusFailed) \<and>
    length (txbox (snd s)) \<le> length (txbox w) + N \<and> length (notices (snd s)) = Suc (length (notices w)) \<and> mg_attempts (fst s) i = None"
proof -
  have fl: "faultless (c\<lparr>now := x\<rparr>)" for x using assms(1) by (simp add: faultless_def)
  have dp: "DecodePlan (c\<lparr>now := x\<rparr>) (tx_Transfers tx) = Some plan" for x using assms(4) by (simp add: DecodePlan_def)
  have "tx \<in> set (filter (\<lambda>r. tx_ID r = i) (txns w))" using assms(2) by simp
  then have id: "tx_ID tx = i" "tx \<in> set (txns w)" by simp_all
  have found: "find (\<lambda>r. tx_ID r = i \<and> now (c\<lparr>now := T k\<rparr>) - op_Lookback (mg_opts m1) \<le> tx_CreatedAt r \<and>
      tx_CreatedAt r < notAfter (c\<lparr>now := T k\<rparr>)) (txns w1) = Some tx" if "k \<le> N" "mg_opts m1 = mg_opts m" "txns w1 = txns w" for k m1 w1
    using assms(2,7) that id(1) by (intro find_unique [where Q = "\<lambda>r. tx_ID r = i"]) (auto simp: notAfter_def)
  have wait: "waiting m w i T k (drives c T i reason k (m, w))" if "k \<le> N" for k
    using that
  proof (induction k)
    case (Suc k)
    let ?s = "drives c T i reason k (m, w)" and ?c = "c\<lparr>now := T k\<rparr>"
    have IH: "waiting m w i T k ?s" using Suc by simp
    obtain m1 where m1: "Recover ?c i (fst ?s) = (Some (int k + 1), m1)" "mg_opts m1 = mg_opts m" "mg_attempts m1 i = Some (int k + 1)"
      "mg_lastRun m1 i = Some (T k)"
      using waiting_accepts [OF IH, of c] assms(8) Suc.prems by auto
    obtain e w' where "recover ?c i reason (int k + 1) m1 (snd ?s) = (e, m1, w')" "txns w' = txns (snd ?s)" "ledgers w' = ledgers (snd ?s)"
      "notices w' = notices (snd ?s)" "length (txbox w') \<le> Suc (length (txbox (snd ?s)))"
      using recover_loads(1) [OF fl found assms(3) dp assms(5), of k m1 "snd ?s" "int k + 1" reason] m1(2) IH Suc.prems assms(3,6)
      by (auto simp: waiting_def)
    with m1 IH show ?case by (auto simp: waiting_def drive_def)
  qed (simp add: waiting_def assms(9,10))
  let ?s = "drives c T i reason N (m, w)" and ?c = "c\<lparr>now := T N\<rparr>"
  have W: "waiting m w i T N ?s" using wait by simp
  obtain m1 where m1: "Recover ?c i (fst ?s) = (Some (int N + 1), m1)" "mg_opts m1 = mg_opts m" using waiting_accepts [OF W, of c] assms(8) by auto
  have "recover ?c i reason (int N + 1) m1 (snd ?s) = giveUp ?c tx reason m1 (snd (db_call ?c (snd ?s)))"
    using recover_loads(2) [OF fl found assms(3) dp assms(5), of N m1 "snd ?s" "int N + 1" reason] m1(2) W assms(3,6) by (simp add: waiting_def)
  then have e: "drives c T i reason (Suc N) (m, w) = snd (giveUp ?c tx reason m1 (snd (db_call ?c (snd ?s))))"
    using m1(1) by (simp add: drive_def)
  obtain nar b where g: "giveUp ?c tx reason m1 (snd (db_call ?c (snd ?s))) =
      markFailed ?c tx nar b m1 (snd (db_call ?c (snd (db_call ?c (snd ?s)))))"
    using giveUp_marks by blast
  let ?w = "snd (db_call ?c (snd (db_call ?c (snd ?s))))"
  have rows: "txns ?w = txns w" "txbox ?w = txbox (snd ?s)" "notices ?w = notices w" using W by (simp_all add: waiting_def db_call_def)
  have tw: "tx \<in> set (txns ?w)" using rows(1) id(2) by simp
  show ?thesis
    unfolding e g Let_def using markFailed_completes [OF fl tw assms(3), of "T N" nar b m1] rows id(1) W by (simp add: waiting_def)
qed

theorem stuck_transaction_is_abandoned_witness:
  "let s = drives demo_ctx (\<lambda>k. int k * 10 * second) 7 ''stale'' 6 (NewManager demo_options, demo_stuck_world) in
    list_ex (\<lambda>r. tx_ID r = 7 \<and> tx_IsCompleted r \<and> tx_Status r = TransactionStatusFailed) (txns (snd s)) \<and>
    length (txbox (snd s)) \<le> 5 \<and> length (notices (snd s)) = 1"
proof -
  have w: "filter (\<lambda>r. tx_ID r = 7) (txns demo_stuck_world) = [demo_stuck]" "\<not> tx_IsCompleted demo_stuck" "demo_plan \<noteq> []"
    "tx_CreatedAt demo_stuck = 0" by (simp_all add: demo_stuck_world_def demo_stuck_def demo_tx_def demo_plan_def)
  have m: "int 5 = op_MaxAttempts (mg_opts (NewManager demo_options))" "mg_attempts (NewManager demo_options) 7 = None"
    "mg_lastRun (NewManager demo_options) 7 = None" "op_Cooldown (mg_opts (NewManager demo_options)) = 10 * second"
    "op_Lookback (mg_opts (NewManager demo_options)) = 7 * 24 * hour"
    by (simp_all add: NewManager_def withDefaults_def demo_options_def)
  have t: "\<forall>k \<le> 5. int k * 10 * second - op_Lookback (mg_opts (NewManager demo_options)) \<le> tx_CreatedAt demo_stuck \<and>
      tx_CreatedAt demo_stuck < int k * 10 * second + 24 * hour"
    "\<forall>k < 5. int k * 10 * second + op_Cooldown (mg_opts (NewManager demo_options)) \<le> int (Suc k) * 10 * second"
    unfolding m w by (simp_all add: hour_def minute_def second_def)
  have e: "txbox demo_stuck_world = []" "notices demo_stuck_world = []" by (simp_all add: demo_stuck_world_def empty_world_def)
  show ?thesis
    using stuck_transaction_is_abandoned [OF demo_faultless w(1,2) demo_stuck_plan w(3) m(1) t m(2,3), of "''stale''"]
    by (simp add: Let_def e eval_nat_numeral list_ex_iff Bex_def del: drives.simps)
qed

end
