(* ===== verification/Service_Types.thy ===== *)
theory Service_Types
  imports Transaction_Actor
begin

text \<open>
  What the services share: their errors (\<open>internal/services/errors.go\<close>), the request and response shapes
  of \<open>internal/types\<close> and the pagination helpers. An error has the sentinel kind the transports
  map to a status code, and its message as fragments: plain text, or a string in Go's
  \<open>%q\<close> quoting. Errors that are not service errors (database, encoding) have the kind \<open>ErrOther\<close>.
\<close>

section \<open>Errors\<close>

datatype error_kind = ErrNotFound | ErrConflict | ErrInvalid | ErrUnavailable | ErrInternalState | ErrOther

datatype fragment = Txt string | Quoted string

record service_error =
  se_Kind :: error_kind
  se_Message :: "fragment list"

definition notFound :: "fragment list \<Rightarrow> service_error" where "notFound msg = \<lparr>se_Kind = ErrNotFound, se_Message = msg\<rparr>"
definition conflict :: "fragment list \<Rightarrow> service_error" where "conflict msg = \<lparr>se_Kind = ErrConflict, se_Message = msg\<rparr>"
definition invalid :: "fragment list \<Rightarrow> service_error" where "invalid msg = \<lparr>se_Kind = ErrInvalid, se_Message = msg\<rparr>"
definition unavailable :: "fragment list \<Rightarrow> service_error" where "unavailable msg = \<lparr>se_Kind = ErrUnavailable, se_Message = msg\<rparr>"

text \<open>\<open>fmt.Errorf("...: %w", err)\<close> around an error of another package.\<close>

definition other_error :: "string \<Rightarrow> service_error" where "other_error msg = \<lparr>se_Kind = ErrOther, se_Message = [Txt msg]\<rparr>"

fun money_error_text :: "money_error \<Rightarrow> fragment list" where
  "money_error_text AmountEmpty = [Txt ''amount is empty'']"
| "money_error_text NotANumber = [Txt ''amount is not a number'']"
| "money_error_text (NotPlainDecimal s) = [Txt ''amount '', Quoted s, Txt '' is not a plain decimal number'']"
| "money_error_text (TooManyDecimalPlaces s) = [Txt ''amount '', Quoted s, Txt '' has too many decimal places'']"
| "money_error_text (AmountOutOfRange s) = [Txt ''amount '', Quoted s, Txt '' is out of range'']"
| "money_error_text (ExponentNotation s) = [Txt (''amount '' @ s @ '' must be a plain decimal, not exponent notation'')]"
| "money_error_text MinorOutOfRange = [Txt ''amount is out of range'']"
| "money_error_text (MoreDecimalsThan s n) = [Txt (''amount '' @ s @ '' has more than '' @ FormatInt (int n) @ '' decimal places'')]"

section \<open>Requests and responses\<close>

record TransactionEntryDto =
  en_WalletID :: uuid
  en_Action :: ledger_type
  en_Amount :: money
  en_Purpose :: string
  en_IsFee :: bool
  en_IsInitial :: bool

record TransactionReqDto =
  rq_Type :: transaction_type
  rq_MerchantID :: uuid
  rq_OrderId :: string
  rq_ProviderRef :: string
  rq_CallbackUrl :: string
  rq_TotalAmount :: money
  rq_Fee :: money
  rq_Currency :: string
  rq_Purpose :: "string option"
  rq_Description :: "string option"
  rq_Transfers :: "TransactionEntryDto list"

record TransactionReverseReqDto =
  rv_RRN :: string
  rv_TransactionDate :: string
  rv_CallbackUrl :: "string option"
  rv_Description :: "string option"

record TransactionLegDto =
  ld_WalletID :: uuid
  ld_Action :: ledger_type
  ld_Amount :: money
  ld_Purpose :: string
  ld_IsFee :: bool
  ld_IsInitial :: bool

record WalletBalanceDto =
  bd_WalletID :: uuid
  bd_Currency :: string
  bd_InitialBalance :: money
  bd_UpdatedBalance :: money
  bd_Entries :: int

record TransactionResDto =
  rs_ID :: uuid
  rs_MerchantID :: "uuid option"
  rs_OrderID :: "string option"
  rs_ProviderRef :: "string option"
  rs_Rrn :: string
  rs_CallbackURL :: "string option"
  rs_Type :: transaction_type
  rs_Status :: transaction_status
  rs_Narration :: string
  rs_Amount :: money
  rs_Fee :: money
  rs_Currency :: string
  rs_IsCompleted :: bool
  rs_DateCompleted :: "time option"
  rs_CreatedAt :: time
  rs_Transfers :: "TransactionLegDto list"
  rs_Balances :: "WalletBalanceDto list"

text \<open>The exponent the response builders use: two decimals when the currency is unknown.\<close>

definition display_exponent :: "ctx \<Rightarrow> string \<Rightarrow> nat" where
  "display_exponent c code = (case Lookup (unicode_upper c) code of Some cur \<Rightarrow> c_Exponent cur | None \<Rightarrow> 2)"

definition TransactionFromModel :: "ctx \<Rightarrow> transaction \<Rightarrow> TransactionResDto" where
  "TransactionFromModel c t =
     (let ex = display_exponent c (tx_Currency t) in
      \<lparr>rs_ID = tx_ID t, rs_MerchantID = tx_MerchantID t, rs_OrderID = tx_OrderID t, rs_ProviderRef = tx_ProviderRef t,
       rs_Rrn = tx_RRN t, rs_CallbackURL = tx_CallbackURL t, rs_Type = tx_Type t, rs_Status = tx_Status t,
       rs_Narration = tx_Narration t, rs_Amount = MoneyFromMinor (tx_Amount t) ex, rs_Fee = MoneyFromMinor (tx_Fee t) ex,
       rs_Currency = tx_Currency t, rs_IsCompleted = tx_IsCompleted t, rs_DateCompleted = tx_DateCompleted t,
       rs_CreatedAt = tx_CreatedAt t, rs_Transfers = [], rs_Balances = []\<rparr>)"

text \<open>A plan that does not decode is shown without legs.\<close>

definition WithTransfers :: "ctx \<Rightarrow> transaction \<Rightarrow> TransactionResDto \<Rightarrow> TransactionResDto" where
  "WithTransfers c t d =
     (let ex = display_exponent c (tx_Currency t);
          legs = (case DecodeTransferLegs (parse_uuid c) (tx_Transfers t) of Some ls \<Rightarrow> ls | None \<Rightarrow> [])
      in d\<lparr>rs_Transfers := map (\<lambda>l. \<lparr>ld_WalletID = tl_WalletID l, ld_Action = tl_Action l, ld_Amount = MoneyFromMinor (tl_Amount l) ex,
            ld_Purpose = tl_Purpose l, ld_IsFee = tl_IsFee l, ld_IsInitial = tl_IsInitial l\<rparr>) legs\<rparr>)"

section \<open>Pages\<close>

record pagination =
  pg_Page :: int
  pg_PageSize :: int

definition DefaultPageSize :: int where "DefaultPageSize = 20"
definition MaxPageSize :: int where "MaxPageSize = 100"

definition page_Normalize :: "pagination \<Rightarrow> pagination" where
  "page_Normalize p =
     (let size = (if pg_PageSize p < 1 then DefaultPageSize else pg_PageSize p)
      in \<lparr>pg_Page = (if pg_Page p < 1 then 1 else pg_Page p), pg_PageSize = (if size > MaxPageSize then MaxPageSize else size)\<rparr>)"

text \<open>Go's \<open>int\<close> has 64 bits here.\<close>

definition Offset :: "pagination \<Rightarrow> int" where
  "Offset p = wrap64 (wrap64 (pg_Page p - 1) * pg_PageSize p)"

record 'a page =
  pe_Data :: "'a list"
  pe_Page :: int
  pe_PageSize :: int
  pe_Total :: int

definition NewPage :: "'a list \<Rightarrow> pagination \<Rightarrow> int \<Rightarrow> 'a page" where
  "NewPage xs p n = \<lparr>pe_Data = xs, pe_Page = pg_Page p, pe_PageSize = pg_PageSize p, pe_Total = n\<rparr>"

text \<open>\<open>Offset(...).Limit(...)\<close> of a query, on its rows in order; GORM drops an offset that is not positive.\<close>

definition page_rows :: "pagination \<Rightarrow> 'a list \<Rightarrow> 'a list" where
  "page_rows p rows = take (nat (pg_PageSize p)) (drop (nat (Offset p)) rows)"

lemma page_Normalize_range: "1 \<le> pg_Page (page_Normalize p)" "1 \<le> pg_PageSize (page_Normalize p)" "pg_PageSize (page_Normalize p) \<le> MaxPageSize"
  by (simp_all add: page_Normalize_def Let_def DefaultPageSize_def MaxPageSize_def)

text \<open>
  The pages of a listing are a partition of it. For any requested page size, concatenating the pages
  1, 2, ... in order gives exactly the rows of the listing, each once and in order, as long as the page numbers stay below \<open>2^56\<close>.
\<close>

theorem pages_partition_listing:
  assumes "length rows < 2 ^ 56" "s = pg_PageSize (page_Normalize \<lparr>pg_Page = 1, pg_PageSize = sz\<rparr>)" "length rows \<le> n * nat s" "n < 2 ^ 56"
  shows "concat (map (\<lambda>k. page_rows (page_Normalize \<lparr>pg_Page = int k + 1, pg_PageSize = sz\<rparr>) rows) [0..<n]) = rows"
proof -
  have s: "1 \<le> s" "s \<le> 100" using page_Normalize_range(2,3) [of "\<lparr>pg_Page = 1, pg_PageSize = sz\<rparr>"] assms(2) by (simp_all add: MaxPageSize_def)
  have norm: "page_Normalize \<lparr>pg_Page = int k + 1, pg_PageSize = sz\<rparr> = \<lparr>pg_Page = int k + 1, pg_PageSize = s\<rparr>" for k
    using assms(2) by (simp add: page_Normalize_def Let_def)
  have page: "page_rows \<lparr>pg_Page = int k + 1, pg_PageSize = s\<rparr> rows = take (nat s) (drop (k * nat s) rows)" if "k < n" for k
  proof -
    have up: "int k * s < 2 ^ 56 * 100" using that assms(4) s by (intro mult_less_le_imp_less) simp_all
    have low: "0 \<le> int k * s" using s by simp
    have "is_int64 x" if "x < 2 ^ 56 * 100" "0 \<le> x" for x using that by (simp add: is_int64_def MaxInt64_def MinInt64_def)
    from this [OF up low] have "is_int64 (int k * s)" .
    moreover have "is_int64 (int k)" using that assms(4) by (simp add: is_int64_def MaxInt64_def MinInt64_def)
    ultimately have "Offset \<lparr>pg_Page = int k + 1, pg_PageSize = s\<rparr> = int k * s" by (simp add: Offset_def wrap64_id)
    then show ?thesis using low by (simp add: page_rows_def nat_mult_distrib)
  qed
  have "concat (map (\<lambda>k. take (nat s) (drop (k * nat s) rows)) [0..<m]) = take (m * nat s) rows" for m
    by (induction m) (simp_all add: take_add [symmetric] add.commute)
  then have "concat (map (\<lambda>k. take (nat s) (drop (k * nat s) rows)) [0..<n]) = rows" using assms(3) by simp
  moreover have "map (\<lambda>k. page_rows (page_Normalize \<lparr>pg_Page = int k + 1, pg_PageSize = sz\<rparr>) rows) [0..<n] =
      map (\<lambda>k. take (nat s) (drop (k * nat s) rows)) [0..<n]" using page norm by simp
  ultimately show ?thesis by (simp only:)
qed

theorem pages_partition_listing_witness:
  "concat (map (\<lambda>k. page_rows (page_Normalize \<lparr>pg_Page = int k + 1, pg_PageSize = 2\<rparr>) [10, 20, 30 :: nat]) [0..<2]) = [10, 20, 30]"
  by (rule pages_partition_listing [where s = 2]) (simp_all add: page_Normalize_def MaxPageSize_def)

end
