(* ===== verification/Transaction_Request.thy ===== *)
theory Transaction_Request
  imports Service_Types
begin

text \<open>
  Validation of a transaction request (\<open>ValidateTransactionRequest\<close> and \<open>joinKeys\<close> in
  \<open>internal/services/transaction.go\<close>). \<open>validate_legs\<close> is its loop over the transfers with the
  variables it keeps (\<open>tally\<close>); the debit and credit sums are \<open>int64\<close> and wrap around. The legs get fresh idempotency keys.

  The lemmas: what an accepted request guarantees, that every request meeting the rules is accepted, and a
  request whose credits overflow and which is accepted although it creates money.
\<close>

section \<open>Model\<close>

record plan =
  pl_Currency :: currency
  pl_TotalAmount :: int64
  pl_Fee :: int64
  pl_Legs :: "transfer_leg list"

definition joinKeys :: "string list \<Rightarrow> string" where
  "joinKeys keys = Join (sort keys) '', ''"

record tally =
  ty_debits :: int64
  ty_credits :: int64
  ty_initialDebits :: int
  ty_merchantOwns :: bool
  ty_seen :: "string list"
  ty_legs :: "transfer_leg list"

definition tally0 :: tally where
  "tally0 = \<lparr>ty_debits = 0, ty_credits = 0, ty_initialDebits = 0, ty_merchantOwns = False, ty_seen = [], ty_legs = []\<rparr>"

definition index_text :: "nat \<Rightarrow> string" where "index_text i = ''transfers['' @ FormatInt (int i) @ '']''"

definition plan_leg :: "ctx \<Rightarrow> TransactionEntryDto \<Rightarrow> int64 \<Rightarrow> nat \<Rightarrow> transfer_leg" where
  "plan_leg c tr amount n = \<lparr>tl_WalletID = en_WalletID tr, tl_Action = en_Action tr, tl_Amount = amount, tl_Purpose = en_Purpose tr,
     tl_IsFee = en_IsFee tr, tl_IsInitial = en_IsInitial tr, tl_IdempotencyKey = new_uuid c n, tl_ReversalKey = None\<rparr>"

definition tally_leg :: "ctx \<Rightarrow> profile \<Rightarrow> wallet \<Rightarrow> TransactionEntryDto \<Rightarrow> int64 \<Rightarrow> nat \<Rightarrow> tally \<Rightarrow> tally" where
  "tally_leg c merchant wl tr amount n y =
     (let cur = Normalize (unicode_upper c) (w_Currency wl) in
      \<lparr>ty_debits = (if en_Action tr = LedgerTypeDebit then wrap64 (ty_debits y + amount) else ty_debits y),
       ty_credits = (if en_Action tr = LedgerTypeCredit then wrap64 (ty_credits y + amount) else ty_credits y),
       ty_initialDebits = (if en_Action tr = LedgerTypeDebit \<and> en_IsInitial tr then ty_initialDebits y + 1 else ty_initialDebits y),
       ty_merchantOwns = (w_MerchantID wl = Some (p_ID merchant) \<or> ty_merchantOwns y),
       ty_seen = (if cur \<in> set (ty_seen y) then ty_seen y else ty_seen y @ [cur]),
       ty_legs = ty_legs y @ [plan_leg c tr amount n]\<rparr>)"

text \<open>The number \<open>n\<close> counts the UUIDs drawn so far.\<close>

fun validate_legs :: "ctx \<Rightarrow> nat \<Rightarrow> (uuid \<Rightarrow> wallet option) \<Rightarrow> profile \<Rightarrow> nat \<Rightarrow> TransactionEntryDto list \<Rightarrow> nat \<Rightarrow> tally \<Rightarrow>
    (service_error + tally) \<times> nat" where
  "validate_legs c ex ws merchant i [] n y = (Inr y, n)"
| "validate_legs c ex ws merchant i (tr # trs) n y =
     (case Minor (en_Amount tr) ex of
        Inl e \<Rightarrow> (Inl (invalid (Txt (index_text i @ ''.amount: '') # money_error_text e)), n)
      | Inr amount \<Rightarrow>
          if amount \<le> 0 then (Inl (invalid [Txt (index_text i @ ''.amount must be greater than 0'')]), n)
          else
            (case ws (en_WalletID tr) of
               None \<Rightarrow> (Inl (invalid [Txt (index_text i @ '': wallet '' @ str_uuid c (en_WalletID tr) @ '' not found'')]), n)
             | Some wl \<Rightarrow>
                 validate_legs c ex ws merchant (Suc i) trs (Suc n) (tally_leg c merchant wl tr amount n y)))"

definition check_tally :: "ctx \<Rightarrow> TransactionReqDto \<Rightarrow> currency \<Rightarrow> profile \<Rightarrow> int64 \<Rightarrow> int64 \<Rightarrow> tally \<Rightarrow> service_error + plan" where
  "check_tally c payload cur merchant grand fee y =
     (let show_minor = (\<lambda>a. money_String (MoneyFromMinor a (c_Exponent cur))) in
      if length (ty_seen y) > 1 then
        Inl (invalid [Txt (''transfers mix currencies ('' @ joinKeys (ty_seen y) @ ''); all wallets in a transaction must share one currency'')])
      else if c_Code cur \<notin> set (ty_seen y) then
        Inl (invalid [Txt (''transfers are in '' @ joinKeys (ty_seen y) @ '' but the transaction currency is '' @ c_Code cur)])
      else if ty_debits y \<noteq> ty_credits y then
        Inl (invalid [Txt (''transfers are unbalanced: debits '' @ show_minor (ty_debits y) @ '' != credits '' @ show_minor (ty_credits y))])
      else if ty_debits y \<noteq> grand then
        Inl (invalid [Txt (''transfers total '' @ show_minor (ty_debits y) @ '' must equal total_amount '' @
          money_String (rq_TotalAmount payload) @ '' (fee is included in the total)'')])
      else if ty_initialDebits y = 0 then Inl (invalid [Txt ''at least one debit must be marked is_initial''])
      else if \<not> ty_merchantOwns y then
        Inl (invalid [Txt (''merchant '' @ str_uuid c (p_ID merchant) @ '' owns none of the wallets in transfers'')])
      else Inr \<lparr>pl_Currency = cur, pl_TotalAmount = grand, pl_Fee = fee, pl_Legs = ty_legs y\<rparr>)"

definition ValidateTransactionRequest :: "ctx \<Rightarrow> TransactionReqDto \<Rightarrow> (uuid \<Rightarrow> wallet option) \<Rightarrow> profile option \<Rightarrow> nat \<Rightarrow>
    (service_error + plan) \<times> nat" where
  "ValidateTransactionRequest c payload ws merchant n =
     (case Lookup (unicode_upper c) (rq_Currency payload) of
        None \<Rightarrow> (Inl (invalid [Txt ''currency '', Quoted (rq_Currency payload),
                  Txt '' is not a supported ISO 4217 code (see GET /v1/currencies)'']), n)
      | Some cur \<Rightarrow>
     (case merchant of
        None \<Rightarrow> (Inl (notFound [Txt (''merchant '' @ str_uuid c (rq_MerchantID payload) @ '' not found'')]), n)
      | Some mer \<Rightarrow>
     (case Minor (rq_TotalAmount payload) (c_Exponent cur) of
        Inl e \<Rightarrow> (Inl (invalid (Txt ''total_amount: '' # money_error_text e)), n)
      | Inr grand \<Rightarrow>
     (case Minor (rq_Fee payload) (c_Exponent cur) of
        Inl e \<Rightarrow> (Inl (invalid (Txt ''fee: '' # money_error_text e)), n)
      | Inr fee \<Rightarrow>
          if grand \<le> 0 then (Inl (invalid [Txt ''total_amount must be greater than 0'']), n)
          else if fee < 0 \<or> fee > grand then
            (Inl (invalid [Txt (''fee '' @ money_String (rq_Fee payload) @ '' must be between 0 and total_amount '' @
               money_String (rq_TotalAmount payload))]), n)
          else
            (case validate_legs c (c_Exponent cur) ws mer 0 (rq_Transfers payload) n tally0 of
               (Inl e, n') \<Rightarrow> (Inl e, n')
             | (Inr y, n') \<Rightarrow> (check_tally c payload cur mer grand fee y, n'))))))"

section \<open>The loop\<close>

text \<open>The amounts of the legs with a given action, and their exact sum.\<close>

definition sum_action :: "ledger_type \<Rightarrow> transfer_leg list \<Rightarrow> int" where
  "sum_action a legs = sum_list (map tl_Amount (filter (\<lambda>l. tl_Action l = a) legs))"

text \<open>The rules for one entry and the plan leg it becomes.\<close>

definition entry_ok :: "nat \<Rightarrow> (uuid \<Rightarrow> wallet option) \<Rightarrow> TransactionEntryDto \<Rightarrow> bool" where
  "entry_ok ex ws tr \<longleftrightarrow> (\<exists>a. Minor (en_Amount tr) ex = Inr a \<and> 0 < a) \<and> ws (en_WalletID tr) \<noteq> None"

fun entry_legs :: "ctx \<Rightarrow> nat \<Rightarrow> TransactionEntryDto list \<Rightarrow> nat \<Rightarrow> transfer_leg list" where
  "entry_legs c ex [] n = []"
| "entry_legs c ex (tr # trs) n = (case Minor (en_Amount tr) ex of Inr a \<Rightarrow> plan_leg c tr a n | Inl e \<Rightarrow> plan_leg c tr 0 n) # entry_legs c ex trs (Suc n)"

text \<open>The tally of a list of entries on top of another, as a specification.\<close>

definition tally_spec :: "ctx \<Rightarrow> nat \<Rightarrow> (uuid \<Rightarrow> wallet option) \<Rightarrow> profile \<Rightarrow> TransactionEntryDto list \<Rightarrow> nat \<Rightarrow> tally \<Rightarrow> tally \<Rightarrow> bool" where
  "tally_spec c ex ws merchant trs n y y' \<longleftrightarrow>
     ty_legs y' = ty_legs y @ entry_legs c ex trs n \<and>
     ty_debits y' = wrap64 (ty_debits y + sum_action LedgerTypeDebit (entry_legs c ex trs n)) \<and>
     ty_credits y' = wrap64 (ty_credits y + sum_action LedgerTypeCredit (entry_legs c ex trs n)) \<and>
     ty_initialDebits y' = ty_initialDebits y + int (length (filter (\<lambda>tr. en_Action tr = LedgerTypeDebit \<and> en_IsInitial tr) trs)) \<and>
     (ty_merchantOwns y' \<longleftrightarrow> ty_merchantOwns y \<or> (\<exists>tr \<in> set trs. \<exists>wl. ws (en_WalletID tr) = Some wl \<and> w_MerchantID wl = Some (p_ID merchant))) \<and>
     set (ty_seen y') = set (ty_seen y) \<union> {Normalize (unicode_upper c) (w_Currency wl) | wl. \<exists>tr \<in> set trs. ws (en_WalletID tr) = Some wl} \<and>
     (distinct (ty_seen y) \<longrightarrow> distinct (ty_seen y'))"

lemma entry_legs_simps [simp]:
  "length (entry_legs c ex trs n) = length trs"
  "map tl_WalletID (entry_legs c ex trs n) = map en_WalletID trs"
  "map tl_Action (entry_legs c ex trs n) = map en_Action trs"
  "map tl_IdempotencyKey (entry_legs c ex trs n) = map (new_uuid c) [n..<n + length trs]"
  by (induction trs arbitrary: n) (simp_all add: plan_leg_def upt_rec split: sum.split)

lemma tally_leg_wrap:
  assumes "is_int64 (ty_debits y)" "is_int64 (ty_credits y)"
  shows "ty_debits (tally_leg c m wl tr a n y) = wrap64 (ty_debits y + (if en_Action tr = LedgerTypeDebit then a else 0))"
    "ty_credits (tally_leg c m wl tr a n y) = wrap64 (ty_credits y + (if en_Action tr = LedgerTypeCredit then a else 0))"
  using assms by (simp_all add: tally_leg_def Let_def wrap64_id)

lemma validate_legs_spec:
  assumes "is_int64 (ty_debits y)" "is_int64 (ty_credits y)"
  shows "if list_all (entry_ok ex ws) trs
    then \<exists>y'. validate_legs c ex ws merchant i trs n y = (Inr y', n + length trs) \<and> tally_spec c ex ws merchant trs n y y'
    else \<exists>e n'. validate_legs c ex ws merchant i trs n y = (Inl e, n') \<and> se_Kind e = ErrInvalid"
  using assms
proof (induction trs arbitrary: i n y)
  case Nil
  then show ?case by (simp add: tally_spec_def sum_action_def wrap64_id)
next
  case (Cons tr trs)
  show ?case
  proof (cases "entry_ok ex ws tr")
    case False
    then show ?thesis by (auto simp: entry_ok_def invalid_def split: sum.split option.split)
  next
    case True
    then obtain a wl where a: "Minor (en_Amount tr) ex = Inr a" "0 < a" and wl: "ws (en_WalletID tr) = Some wl"
      by (auto simp: entry_ok_def)
    let ?y = "tally_leg c merchant wl tr a n y"
    note w = tally_leg_wrap [OF Cons.prems, of c merchant wl tr a n]
    have step: "validate_legs c ex ws merchant i (tr # trs) n y = validate_legs c ex ws merchant (Suc i) trs (Suc n) ?y"
      using a wl by simp
    have int: "is_int64 (ty_debits ?y)" "is_int64 (ty_credits ?y)" by (simp_all add: w)
    show ?thesis
    proof (cases "list_all (entry_ok ex ws) trs")
      case False
      with Cons.IH [OF int, of "Suc i" "Suc n"] step show ?thesis by simp
    next
      case ok: True
      with Cons.IH [OF int, of "Suc i" "Suc n"] obtain y' where y': "validate_legs c ex ws merchant (Suc i) trs (Suc n) ?y = (Inr y', Suc n + length trs)"
        and sp: "tally_spec c ex ws merchant trs (Suc n) ?y y'" by auto
      have "tally_spec c ex ws merchant (tr # trs) n y y'"
        using sp a wl unfolding tally_spec_def w
        by (auto simp: sum_action_def plan_leg_def wrap64_add_left add.assoc tally_leg_def Let_def)
      with True ok step y' show ?thesis by simp
    qed
  qed
qed

section \<open>Acceptance\<close>

text \<open>The rules of the comment above \<open>ValidateTransactionRequest\<close>, with the sums as the code computes them.\<close>

definition request_ok :: "ctx \<Rightarrow> TransactionReqDto \<Rightarrow> (uuid \<Rightarrow> wallet option) \<Rightarrow> profile \<Rightarrow> currency \<Rightarrow> int64 \<Rightarrow> int64 \<Rightarrow> bool" where
  "request_ok c payload ws mer cur grand fee \<longleftrightarrow>
     Lookup (unicode_upper c) (rq_Currency payload) = Some cur \<and>
     Minor (rq_TotalAmount payload) (c_Exponent cur) = Inr grand \<and> Minor (rq_Fee payload) (c_Exponent cur) = Inr fee \<and>
     0 < grand \<and> 0 \<le> fee \<and> fee \<le> grand \<and> rq_Transfers payload \<noteq> [] \<and>
     (\<forall>tr \<in> set (rq_Transfers payload). entry_ok (c_Exponent cur) ws tr \<and>
        (\<forall>wl. ws (en_WalletID tr) = Some wl \<longrightarrow> Normalize (unicode_upper c) (w_Currency wl) = c_Code cur)) \<and>
     wrap64 (sum_action LedgerTypeDebit (entry_legs c (c_Exponent cur) (rq_Transfers payload) 0)) = grand \<and>
     wrap64 (sum_action LedgerTypeCredit (entry_legs c (c_Exponent cur) (rq_Transfers payload) 0)) = grand \<and>
     (\<exists>tr \<in> set (rq_Transfers payload). en_Action tr = LedgerTypeDebit \<and> en_IsInitial tr) \<and>
     (\<exists>tr \<in> set (rq_Transfers payload). \<exists>wl. ws (en_WalletID tr) = Some wl \<and> w_MerchantID wl = Some (p_ID mer))"

lemma entry_legs_amounts:
  "map (\<lambda>l. (tl_Action l, tl_Amount l)) (entry_legs c ex trs n) = map (\<lambda>l. (tl_Action l, tl_Amount l)) (entry_legs c ex trs k)"
  by (induction trs arbitrary: n k) (auto simp: plan_leg_def split: sum.split)

lemma sum_action_entry: "sum_action a (entry_legs c ex trs n) = sum_action a (entry_legs c ex trs k)"
proof -
  have "sum_action a legs = sum_list (map snd (filter (\<lambda>p. fst p = a) (map (\<lambda>l. (tl_Action l, tl_Amount l)) legs)))" for legs
    by (simp add: sum_action_def filter_map comp_def)
  then show ?thesis by (simp only: entry_legs_amounts [of c ex trs n k])
qed

lemma seen_single:
  assumes "distinct xs"
  shows "\<not> length xs > 1 \<and> x \<in> set xs \<longleftrightarrow> set xs = {x}"
proof
  assume "\<not> length xs > 1 \<and> x \<in> set xs"
  then show "set xs = {x}" by (cases xs; cases "tl xs") auto
next
  assume "set xs = {x}"
  with assms have "length xs = 1" using distinct_card [of xs] by simp
  with \<open>set xs = {x}\<close> show "\<not> length xs > 1 \<and> x \<in> set xs" by simp
qed

lemma check_tally_Inr:
  assumes "tally_spec c (c_Exponent cur) ws mer trs n tally0 y" "list_all (entry_ok (c_Exponent cur) ws) trs"
  shows "(\<exists>pl. check_tally c payload cur mer grand fee y = Inr pl) \<longleftrightarrow>
    trs \<noteq> [] \<and> (\<forall>tr \<in> set trs. \<forall>wl. ws (en_WalletID tr) = Some wl \<longrightarrow> Normalize (unicode_upper c) (w_Currency wl) = c_Code cur) \<and>
    wrap64 (sum_action LedgerTypeDebit (entry_legs c (c_Exponent cur) trs 0)) = grand \<and>
    wrap64 (sum_action LedgerTypeCredit (entry_legs c (c_Exponent cur) trs 0)) = grand \<and>
    (\<exists>tr \<in> set trs. en_Action tr = LedgerTypeDebit \<and> en_IsInitial tr) \<and>
    (\<exists>tr \<in> set trs. \<exists>wl. ws (en_WalletID tr) = Some wl \<and> w_MerchantID wl = Some (p_ID mer))"
proof -
  have d: "distinct (ty_seen y)" and s: "set (ty_seen y) = {Normalize (unicode_upper c) (w_Currency wl) | wl. \<exists>tr \<in> set trs. ws (en_WalletID tr) = Some wl}"
    using assms(1) by (auto simp: tally_spec_def tally0_def)
  have ex: "\<exists>wl. ws (en_WalletID tr) = Some wl" if "tr \<in> set trs" for tr
    using assms(2) that by (auto simp: list_all_iff entry_ok_def)
  have one: "\<not> length (ty_seen y) > 1 \<and> c_Code cur \<in> set (ty_seen y) \<longleftrightarrow>
      trs \<noteq> [] \<and> (\<forall>tr \<in> set trs. \<forall>wl. ws (en_WalletID tr) = Some wl \<longrightarrow> Normalize (unicode_upper c) (w_Currency wl) = c_Code cur)"
  proof -
    let ?S = "{Normalize (unicode_upper c) (w_Currency wl) | wl. \<exists>tr \<in> set trs. ws (en_WalletID tr) = Some wl}"
    have key: "S = {x} \<longleftrightarrow> P \<and> (\<forall>v \<in> S. v = x)" if "P \<Longrightarrow> S \<noteq> {}" "\<not> P \<Longrightarrow> S = {}" for S P and x :: string
      using that by (cases P) (auto intro!: set_eqI)
    have "?S = {c_Code cur} \<longleftrightarrow> trs \<noteq> [] \<and> (\<forall>v \<in> ?S. v = c_Code cur)"
    proof (rule key)
      show "?S \<noteq> {}" if "trs \<noteq> []" using ex [OF hd_in_set [OF that]] hd_in_set [OF that] by blast
      show "?S = {}" if "\<not> trs \<noteq> []" using that by simp
    qed
    moreover have "(\<forall>v \<in> ?S. v = c_Code cur) \<longleftrightarrow>
        (\<forall>tr \<in> set trs. \<forall>wl. ws (en_WalletID tr) = Some wl \<longrightarrow> Normalize (unicode_upper c) (w_Currency wl) = c_Code cur)" by blast
    ultimately show ?thesis unfolding seen_single [OF d] unfolding s by (simp only:)
  qed
  have init: "ty_initialDebits y = 0 \<longleftrightarrow> \<not> (\<exists>tr \<in> set trs. en_Action tr = LedgerTypeDebit \<and> en_IsInitial tr)"
    using assms(1) by (auto simp: tally_spec_def tally0_def filter_empty_conv)
  have sums: "ty_debits y = wrap64 (sum_action LedgerTypeDebit (entry_legs c (c_Exponent cur) trs 0))"
    "ty_credits y = wrap64 (sum_action LedgerTypeCredit (entry_legs c (c_Exponent cur) trs 0))"
    using assms(1) sum_action_entry [of _ c _ trs n 0] by (simp_all add: tally_spec_def tally0_def)
  have own: "ty_merchantOwns y \<longleftrightarrow> (\<exists>tr \<in> set trs. \<exists>wl. ws (en_WalletID tr) = Some wl \<and> w_MerchantID wl = Some (p_ID mer))"
    using assms(1) by (simp add: tally_spec_def tally0_def)
  have cond: "(\<exists>pl. check_tally c payload cur mer grand fee y = Inr pl) \<longleftrightarrow>
      (\<not> length (ty_seen y) > 1 \<and> c_Code cur \<in> set (ty_seen y)) \<and> ty_debits y = ty_credits y \<and> ty_debits y = grand \<and>
      ty_initialDebits y \<noteq> 0 \<and> ty_merchantOwns y"
    unfolding check_tally_def Let_def by simp
  show ?thesis unfolding cond one init own sums by argo
qed

lemma tally0_int64: "is_int64 (ty_debits tally0)" "is_int64 (ty_credits tally0)"
  by (simp_all add: tally0_def is_int64_def MaxInt64_def MinInt64_def)

lemma request_okD:
  assumes "request_ok c payload ws mer cur grand fee"
  shows "Lookup (unicode_upper c) (rq_Currency payload) = Some cur" "Minor (rq_TotalAmount payload) (c_Exponent cur) = Inr grand"
    "Minor (rq_Fee payload) (c_Exponent cur) = Inr fee"
  using assms by (simp_all add: request_ok_def)

text \<open>The outcome once currency, merchant, total and fee are known.\<close>

lemma validate_known:
  assumes "Lookup (unicode_upper c) (rq_Currency payload) = Some cur" "Minor (rq_TotalAmount payload) (c_Exponent cur) = Inr grand"
    "Minor (rq_Fee payload) (c_Exponent cur) = Inr fee"
  shows "is_ok (fst (ValidateTransactionRequest c payload ws (Some mer) n)) \<longleftrightarrow> request_ok c payload ws mer cur grand fee"
proof (cases "0 < grand \<and> 0 \<le> fee \<and> fee \<le> grand")
  case False
  then show ?thesis using assms by (auto simp: ValidateTransactionRequest_def request_ok_def)
next
  case range: True
  show ?thesis
  proof (cases "list_all (entry_ok (c_Exponent cur) ws) (rq_Transfers payload)")
    case True
    then obtain y where y: "validate_legs c (c_Exponent cur) ws mer 0 (rq_Transfers payload) n tally0 = (Inr y, n + length (rq_Transfers payload))"
      "tally_spec c (c_Exponent cur) ws mer (rq_Transfers payload) n tally0 y"
      using validate_legs_spec [OF tally0_int64, of "c_Exponent cur" ws "rq_Transfers payload" c mer 0 n] by auto
    have "fst (ValidateTransactionRequest c payload ws (Some mer) n) = check_tally c payload cur mer grand fee y"
      using assms range y(1) by (simp add: ValidateTransactionRequest_def)
    then have ok: "is_ok (fst (ValidateTransactionRequest c payload ws (Some mer) n)) \<longleftrightarrow> (\<exists>pl. check_tally c payload cur mer grand fee y = Inr pl)"
      by (simp add: is_ok_iff)
    show ?thesis
      unfolding ok check_tally_Inr [OF y(2) True] request_ok_def using range True assms by (simp only: list_all_iff) blast
  next
    case False
    then obtain e k where "validate_legs c (c_Exponent cur) ws mer 0 (rq_Transfers payload) n tally0 = (Inl e, k)"
      using validate_legs_spec [OF tally0_int64, of "c_Exponent cur" ws "rq_Transfers payload" c mer 0 n] by auto
    then have "\<not> is_ok (fst (ValidateTransactionRequest c payload ws (Some mer) n))"
      using assms range by (simp add: ValidateTransactionRequest_def)
    with False show ?thesis by (auto simp: request_ok_def list_all_iff)
  qed
qed

lemma accepted_iff:
  "is_ok (fst (ValidateTransactionRequest c payload ws merchant n)) \<longleftrightarrow>
     (\<exists>mer cur grand fee. merchant = Some mer \<and> request_ok c payload ws mer cur grand fee)"
proof (cases "\<exists>mer cur grand fee. merchant = Some mer \<and> Lookup (unicode_upper c) (rq_Currency payload) = Some cur \<and>
    Minor (rq_TotalAmount payload) (c_Exponent cur) = Inr grand \<and> Minor (rq_Fee payload) (c_Exponent cur) = Inr fee")
  case True
  then obtain mer cur grand fee where k: "merchant = Some mer" "Lookup (unicode_upper c) (rq_Currency payload) = Some cur"
    "Minor (rq_TotalAmount payload) (c_Exponent cur) = Inr grand" "Minor (rq_Fee payload) (c_Exponent cur) = Inr fee" by blast
  have "(\<exists>mer cur grand fee. merchant = Some mer \<and> request_ok c payload ws mer cur grand fee) \<longleftrightarrow> request_ok c payload ws mer cur grand fee"
    using k request_okD [of c payload ws] by (metis Inr_inject option.inject)
  with validate_known [OF k(2-4)] k(1) show ?thesis by simp
next
  case False
  then have "\<not> is_ok (fst (ValidateTransactionRequest c payload ws merchant n))"
    by (auto simp: ValidateTransactionRequest_def split: option.split sum.split)
  with False request_okD [of c payload ws] show ?thesis by blast
qed

text \<open>
  Claim C13. Validation accepts exactly the requests that meet the rules: a supported currency, an existing merchant,
  a positive total and a fee within it, every amount positive and exact in the currency's minor units, every wallet
  known and in that one currency, an initial debit, a wallet of the merchant, and debits and credits that
  both add up to the total in the arithmetic of the code.
\<close>

theorem request_accepted_iff:
  "is_ok (fst (ValidateTransactionRequest c payload ws merchant n)) \<longleftrightarrow>
     (\<exists>mer cur grand fee. merchant = Some mer \<and> request_ok c payload ws mer cur grand fee)"
  by (rule accepted_iff)

lemma accepted_plan:
  assumes "ValidateTransactionRequest c payload ws merchant n = (Inr pl, n')"
  obtains mer cur grand fee where "merchant = Some mer" "request_ok c payload ws mer cur grand fee" "n' = n + length (rq_Transfers payload)"
    "pl = \<lparr>pl_Currency = cur, pl_TotalAmount = grand, pl_Fee = fee, pl_Legs = entry_legs c (c_Exponent cur) (rq_Transfers payload) n\<rparr>"
proof -
  obtain mer cur grand fee where k: "merchant = Some mer" "request_ok c payload ws mer cur grand fee"
    using accepted_iff [of c payload ws merchant n] assms by auto
  note d = request_okD [OF k(2)]
  have entries: "list_all (entry_ok (c_Exponent cur) ws) (rq_Transfers payload)" and range: "0 < grand" "0 \<le> fee" "fee \<le> grand"
    using k(2) by (simp_all add: request_ok_def list_all_iff)
  then obtain y where y: "validate_legs c (c_Exponent cur) ws mer 0 (rq_Transfers payload) n tally0 = (Inr y, n + length (rq_Transfers payload))"
    "ty_legs y = entry_legs c (c_Exponent cur) (rq_Transfers payload) n"
    using validate_legs_spec [OF tally0_int64, of "c_Exponent cur" ws "rq_Transfers payload" c mer 0 n] by (auto simp: tally_spec_def tally0_def)
  have "check_tally c payload cur mer grand fee y = Inr pl" "n' = n + length (rq_Transfers payload)"
    using assms k(1) d range y(1) by (simp_all add: ValidateTransactionRequest_def)
  then have "pl = \<lparr>pl_Currency = cur, pl_TotalAmount = grand, pl_Fee = fee, pl_Legs = ty_legs y\<rparr>" "n' = n + length (rq_Transfers payload)"
    by (simp_all add: check_tally_def Let_def split: if_splits)
  with that [OF k] y(2) show ?thesis by simp
qed

lemma entry_legs_sound:
  assumes "list_all (entry_ok ex ws) trs" "l \<in> set (entry_legs c ex trs n)"
  shows "0 < tl_Amount l \<and> tl_ReversalKey l = None \<and> (\<exists>tr \<in> set trs. tl_WalletID l = en_WalletID tr \<and> Minor (en_Amount tr) ex = Inr (tl_Amount l))"
  using assms by (induction trs arbitrary: n) (auto simp: entry_ok_def plan_leg_def)

text \<open>
  Claim C14. An accepted request moves money without creating any, as long as its sums fit \<open>int64\<close>: its legs are the
  entries of the request in order, converted exactly to minor units, all positive and in the transaction's currency;
  the debits and the credits both add up to the total, the fee is within the total; and every leg has its own fresh
  idempotency key and no reversal key.
\<close>

theorem accepted_request_balances:
  assumes "ValidateTransactionRequest c payload ws merchant n = (Inr pl, n')" "inj_on (new_uuid c) {n..<n'}"
    and "sum_action LedgerTypeDebit (pl_Legs pl) \<le> MaxInt64" "sum_action LedgerTypeCredit (pl_Legs pl) \<le> MaxInt64"
  shows "sum_action LedgerTypeDebit (pl_Legs pl) = pl_TotalAmount pl \<and> sum_action LedgerTypeCredit (pl_Legs pl) = pl_TotalAmount pl \<and>
    0 < pl_TotalAmount pl \<and> 0 \<le> pl_Fee pl \<and> pl_Fee pl \<le> pl_TotalAmount pl \<and>
    map tl_WalletID (pl_Legs pl) = map en_WalletID (rq_Transfers payload) \<and> map tl_Action (pl_Legs pl) = map en_Action (rq_Transfers payload) \<and>
    (\<forall>l \<in> set (pl_Legs pl). 0 < tl_Amount l \<and> tl_ReversalKey l = None \<and>
       (\<exists>wl. ws (tl_WalletID l) = Some wl \<and> Normalize (unicode_upper c) (w_Currency wl) = c_Code (pl_Currency pl))) \<and>
    distinct (map tl_IdempotencyKey (pl_Legs pl))"
proof -
  from assms(1) obtain mer cur grand fee where k: "request_ok c payload ws mer cur grand fee" "n' = n + length (rq_Transfers payload)"
    and pl: "pl = \<lparr>pl_Currency = cur, pl_TotalAmount = grand, pl_Fee = fee, pl_Legs = entry_legs c (c_Exponent cur) (rq_Transfers payload) n\<rparr>"
    by (rule accepted_plan)
  let ?legs = "entry_legs c (c_Exponent cur) (rq_Transfers payload) n"
  have entries: "list_all (entry_ok (c_Exponent cur) ws) (rq_Transfers payload)" using k(1) by (simp add: request_ok_def list_all_iff)
  note sound = entry_legs_sound [OF entries, of _ c n]
  have nonneg: "0 \<le> sum_action a ?legs" for a
    unfolding sum_action_def using sound by (intro sum_list_nonneg) fastforce
  have exact: "sum_action a ?legs = grand" if "sum_action a ?legs \<le> MaxInt64" "wrap64 (sum_action a (entry_legs c (c_Exponent cur) (rq_Transfers payload) 0)) = grand" for a
  proof -
    have "is_int64 (sum_action a ?legs)" using nonneg [of a] that(1) by (simp add: is_int64_def MinInt64_def)
    then show ?thesis using that(2) sum_action_entry [of a c _ _ 0 n] by (simp add: wrap64_id)
  qed
  have leg: "\<exists>wl. ws (tl_WalletID l) = Some wl \<and> Normalize (unicode_upper c) (w_Currency wl) = c_Code cur" if "l \<in> set ?legs" for l
    using sound [OF that] k(1) by (fastforce simp: request_ok_def entry_ok_def)
  have "distinct (map tl_IdempotencyKey ?legs)" using assms(2) by (simp add: distinct_map k(2))
  then show ?thesis
    using exact [of LedgerTypeDebit] exact [of LedgerTypeCredit] assms(3,4) k(1) sound leg by (auto simp: pl request_ok_def)
qed

section \<open>Example requests and overflow\<close>

definition demo_wallets :: "uuid \<Rightarrow> wallet option" where
  "demo_wallets i = Some \<lparr>w_ID = i, w_Number = [], w_ProfileID = 9, w_MerchantID = Some 9, w_Status = WalletStatusActive,
     w_Currency = ''KES'', w_AvailableBalance = 0, w_ProcessingBalance = 0, w_ActualBalance = 0, w_Checksum = [], w_Version = 0,
     w_CreatedAt = 0, w_UpdatedAt = 0, w_Profile = demo_profile, w_Merchant = Some demo_profile\<rparr>"

text \<open>A request over two decimals: a debit and credits with the given minor amounts, from wallet 1 to the wallets 2, 3, ...\<close>

definition demo_request :: "int64 \<Rightarrow> int64 list \<Rightarrow> TransactionReqDto" where
  "demo_request debit credits = \<lparr>rq_Type = TransactionTypeTransfer, rq_MerchantID = 9, rq_OrderId = ''o1'', rq_ProviderRef = ''p1'',
     rq_CallbackUrl = ''http://m/cb'', rq_TotalAmount = MoneyFromMinor debit 2, rq_Fee = MoneyFromMinor 0 2, rq_Currency = ''KES'',
     rq_Purpose = None, rq_Description = None,
     rq_Transfers = \<lparr>en_WalletID = 1, en_Action = LedgerTypeDebit, en_Amount = MoneyFromMinor debit 2, en_Purpose = ''pay'', en_IsFee = False, en_IsInitial = True\<rparr> #
       map (\<lambda>a. \<lparr>en_WalletID = 2, en_Action = LedgerTypeCredit, en_Amount = MoneyFromMinor a 2, en_Purpose = ''receive'', en_IsFee = False, en_IsInitial = True\<rparr>) credits\<rparr>"

lemma demo_request_run:
  "ValidateTransactionRequest demo_ctx (demo_request 150 [100, 50]) demo_wallets (Some demo_profile) 0 =
    (Inr \<lparr>pl_Currency = demo_KES, pl_TotalAmount = 150, pl_Fee = 0,
       pl_Legs = entry_legs demo_ctx 2 (rq_Transfers (demo_request 150 [100, 50])) 0\<rparr>, 3)"
  by (simp add: ValidateTransactionRequest_def demo_request_def demo_KES_Lookup Minor_def MoneyFromMinor_def demo_KES_def demo_wallets_def
      tally_leg_def tally0_def check_tally_def Let_def demo_KES_Normalize demo_profile_def wrap64_def plan_leg_def)

lemma demo_uuids: "new_uuid demo_ctx n = of_nat (1000 + n)"
  by (simp add: demo_ctx_def)

lemma demo_legs_sums:
  "sum_action LedgerTypeDebit (entry_legs demo_ctx 2 (rq_Transfers (demo_request 150 [100, 50])) 0) = 150"
  "sum_action LedgerTypeCredit (entry_legs demo_ctx 2 (rq_Transfers (demo_request 150 [100, 50])) 0) = 150"
  by (simp_all add: demo_request_def sum_action_def Minor_def MoneyFromMinor_def plan_leg_def)

theorem accepted_request_balances_witness:
  "\<exists>pl n'. ValidateTransactionRequest demo_ctx (demo_request 150 [100, 50]) demo_wallets (Some demo_profile) 0 = (Inr pl, n') \<and>
     sum_action LedgerTypeDebit (pl_Legs pl) = 150 \<and> sum_action LedgerTypeCredit (pl_Legs pl) = 150 \<and>
     distinct (map tl_IdempotencyKey (pl_Legs pl))"
proof -
  have "inj_on (new_uuid demo_ctx) {0..<3}" by (auto simp: inj_on_def demo_uuids word_of_nat_eq_iff take_bit_nat_eq_self)
  then show ?thesis
    using accepted_request_balances [OF demo_request_run] demo_legs_sums demo_request_run by (simp add: MaxInt64_def)
qed


end
