(* ===== verification/Cache.thy ===== *)
theory Cache
  imports Store
begin

text \<open>
  The Redis layer of \<open>dpk/cache\<close>. \<open>cache\<close> is the process-wide client with the store behind it: a value with the
  time it expires at, under each key. A value is held in its JSON form, of type \<open>'v\<close>; a \<open>codec\<close> is
  \<open>json.Marshal\<close> and \<open>json.Unmarshal\<close> at one Go type. Every round trip may fail, before or after it had its
  effect; as in the code, a failure is never more than a miss.

  The lemmas give the contract clients rely on (locale \<open>value_cache\<close>): a cache never serves a value
  that was not put under that key with that value, so a cache that agrees with the database keeps
  agreeing under reads, fills and invalidations, and a read through it returns what the
  database would have returned.
\<close>

section \<open>Model\<close>

record 'v cache =
  ch_live :: bool
  ch_ttl :: time
  ch_store :: "string \<Rightarrow> ('v \<times> time) option"
  ch_calls :: nat

record ('a, 'v) codec =
  marshal :: "'a \<Rightarrow> 'v option"
  unmarshal :: "'v \<Rightarrow> 'a option"

definition Enabled :: "'v cache \<Rightarrow> bool" where "Enabled ch \<longleftrightarrow> ch_live ch"

text \<open>One round trip to Redis.\<close>

definition cache_call :: "ctx \<Rightarrow> 'v cache \<Rightarrow> fault \<times> 'v cache" where
  "cache_call c ch = (cache_fault c (ch_calls ch), ch\<lparr>ch_calls := Suc (ch_calls ch)\<rparr>)"

text \<open>What Redis answers for a key now: entries past their expiry are gone.\<close>

definition stored :: "ctx \<Rightarrow> 'v cache \<Rightarrow> string \<Rightarrow> 'v option" where
  "stored c ch key = (case ch_store ch key of
      Some (v, expiry) \<Rightarrow> if now c < expiry then Some v else None
    | None \<Rightarrow> None)"

definition Cache_Get :: "ctx \<Rightarrow> ('a, 'v) codec \<Rightarrow> string \<Rightarrow> 'v cache \<Rightarrow> 'a option \<times> 'v cache" where
  "Cache_Get c cd key ch =
     (if \<not> Enabled ch then (None, ch)
      else
        (let (f, ch1) = cache_call c ch in
         (case f of
            NoFault \<Rightarrow> (case stored c ch key of None \<Rightarrow> None | Some v \<Rightarrow> unmarshal cd v)
          | _ \<Rightarrow> None, ch1)))"

definition Cache_GetMany :: "ctx \<Rightarrow> ('a, 'v) codec \<Rightarrow> string list \<Rightarrow> 'v cache \<Rightarrow> 'a option list \<times> 'v cache" where
  "Cache_GetMany c cd keys ch =
     (if \<not> Enabled ch \<or> keys = [] then (map (\<lambda>k. None) keys, ch)
      else
        (let (f, ch1) = cache_call c ch in
         (case f of
            NoFault \<Rightarrow> map (\<lambda>k. case stored c ch k of None \<Rightarrow> None | Some v \<Rightarrow> unmarshal cd v) keys
          | _ \<Rightarrow> map (\<lambda>k. None) keys, ch1)))"

definition Cache_Set :: "ctx \<Rightarrow> ('a, 'v) codec \<Rightarrow> string \<Rightarrow> 'a \<Rightarrow> time \<Rightarrow> 'v cache \<Rightarrow> 'v cache" where
  "Cache_Set c cd key x ttl0 ch =
     (if \<not> Enabled ch then ch
      else
        (let ttl = (if ttl0 \<le> 0 then ch_ttl ch else ttl0) in
         (case marshal cd x of
            None \<Rightarrow> ch
          | Some v \<Rightarrow>
              (let (f, ch1) = cache_call c ch in
               (case f of
                  Failed m \<Rightarrow> ch1
                | _ \<Rightarrow> ch1\<lparr>ch_store := (ch_store ch1)(key \<mapsto> (v, now c + ttl))\<rparr>)))))"

definition Cache_Delete :: "ctx \<Rightarrow> string list \<Rightarrow> 'v cache \<Rightarrow> 'v cache" where
  "Cache_Delete c keys ch =
     (if \<not> Enabled ch \<or> keys = [] then ch
      else
        (let (f, ch1) = cache_call c ch in
         (case f of
            Failed m \<Rightarrow> ch1
          | _ \<Rightarrow> ch1\<lparr>ch_store := (\<lambda>k. if k \<in> set keys then None else ch_store ch1 k)\<rparr>)))"

definition Cache_Exists :: "ctx \<Rightarrow> string \<Rightarrow> 'v cache \<Rightarrow> bool \<times> 'v cache" where
  "Cache_Exists c key ch =
     (if \<not> Enabled ch then (False, ch)
      else (let (f, ch1) = cache_call c ch in (f = NoFault \<and> stored c ch key \<noteq> None, ch1)))"

text \<open>\<open>load\<close> reads the database; it runs only on a miss.\<close>

definition Remember :: "ctx \<Rightarrow> ('a, 'v) codec \<Rightarrow> string \<Rightarrow> time \<Rightarrow> ('w \<Rightarrow> ('e + 'a) \<times> 'w) \<Rightarrow> 'v cache \<Rightarrow> 'w \<Rightarrow>
    ('e + 'a) \<times> 'v cache \<times> 'w" where
  "Remember c cd key ttl load ch w =
     (let (hit, ch1) = Cache_Get c cd key ch in
      (case hit of
         Some v \<Rightarrow> (Inr v, ch1, w)
       | None \<Rightarrow>
           (case load w of
              (Inl e, w1) \<Rightarrow> (Inl e, ch1, w1)
            | (Inr v, w1) \<Rightarrow> (Inr v, Cache_Set c cd key v ttl ch1, w1))))"

text \<open>\<open>Start\<close>: the address is empty, unreachable, or answered.\<close>

definition Start :: "string \<Rightarrow> bool \<Rightarrow> time \<Rightarrow> 'v cache" where
  "Start addr reachable ttl =
     \<lparr>ch_live = (addr \<noteq> [] \<and> reachable), ch_ttl = (if ttl \<le> 0 then 5 * minute else ttl), ch_store = (\<lambda>k. None), ch_calls = 0\<rparr>"

section \<open>Contract\<close>

text \<open>
  What a client may assume: \<open>view s k\<close> is what a read of \<open>k\<close> may be served. Nothing is served that is not in
  view, and a fill brings only its own value into view.
\<close>

definition agrees :: "('s \<Rightarrow> 'k \<Rightarrow> 'a option) \<Rightarrow> ('k \<Rightarrow> 'a \<Rightarrow> bool) \<Rightarrow> 's \<Rightarrow> bool" where
  "agrees view true s \<longleftrightarrow> (\<forall>k x. view s k = Some x \<longrightarrow> true k x)"

locale value_cache =
  fixes get :: "'k \<Rightarrow> 's \<Rightarrow> 'a option \<times> 's"
    and put :: "'k \<Rightarrow> 'a \<Rightarrow> 's \<Rightarrow> 's"
    and forget :: "'k list \<Rightarrow> 's \<Rightarrow> 's"
    and view :: "'s \<Rightarrow> 'k \<Rightarrow> 'a option"
  assumes get_view: "fst (get k s) = Some x \<Longrightarrow> view s k = Some x"
    and get_keep: "view (snd (get k s)) j = view s j"
    and put_view: "view (put k x s) j = Some y \<Longrightarrow> (j = k \<and> y = x) \<or> view s j = Some y"
    and forget_view: "view (forget ks s) j = Some y \<Longrightarrow> view s j = Some y"
begin

lemma agrees_get: "agrees view true s \<Longrightarrow> agrees view true (snd (get k s))"
  by (simp add: agrees_def get_keep)

lemma agrees_put: "agrees view true s \<Longrightarrow> true k x \<Longrightarrow> agrees view true (put k x s)"
  unfolding agrees_def by (blast dest: put_view)

lemma agrees_forget: "agrees view true s \<Longrightarrow> agrees view true (forget ks s)"
  unfolding agrees_def by (blast dest: forget_view)

lemma served_is_true: "agrees view true s \<Longrightarrow> fst (get k s) = Some x \<Longrightarrow> true k x"
  unfolding agrees_def by (blast dest: get_view)

end

definition codec_ok :: "('a, 'v) codec \<Rightarrow> bool" where
  "codec_ok cd \<longleftrightarrow> (\<forall>x v. marshal cd x = Some v \<longrightarrow> unmarshal cd v = Some x)"

definition cache_view :: "ctx \<Rightarrow> ('a, 'v) codec \<Rightarrow> 'v cache \<Rightarrow> string \<Rightarrow> 'a option" where
  "cache_view c cd ch key = (if \<not> Enabled ch then None else case stored c ch key of None \<Rightarrow> None | Some v \<Rightarrow> unmarshal cd v)"

text \<open>The store itself, as one entry per key, seen from one point of view.\<close>

lemma stored_calls [simp]: "stored c (ch\<lparr>ch_calls := n\<rparr>) = stored c ch"
  by (rule ext) (simp add: stored_def)

lemma Enabled_frame [simp]:
  "Enabled (ch\<lparr>ch_calls := n\<rparr>) = Enabled ch" "Enabled (ch\<lparr>ch_store := st\<rparr>) = Enabled ch"
  by (simp_all add: Enabled_def)

lemma view_calls [simp]: "cache_view c cd (ch\<lparr>ch_calls := n\<rparr>) = cache_view c cd ch"
  by (rule ext) (simp add: cache_view_def)

lemma Get_served: "fst (Cache_Get c cd k ch) = Some x \<Longrightarrow> cache_view c cd ch k = Some x"
  by (simp add: Cache_Get_def cache_call_def cache_view_def split: if_splits fault.splits)

lemma Get_view [simp]: "cache_view c cd' (snd (Cache_Get c cd k ch)) = cache_view c cd' ch"
  by (simp add: Cache_Get_def cache_call_def)

lemma GetMany_view [simp]: "cache_view c cd' (snd (Cache_GetMany c cd ks ch)) = cache_view c cd' ch"
  by (simp add: Cache_GetMany_def cache_call_def)

lemma GetMany_length [simp]: "length (fst (Cache_GetMany c cd ks ch)) = length ks"
  by (simp add: Cache_GetMany_def cache_call_def split: fault.split)

lemma GetMany_served:
  "i < length ks \<Longrightarrow> fst (Cache_GetMany c cd ks ch) ! i = Some x \<Longrightarrow> cache_view c cd ch (ks ! i) = Some x"
  by (simp add: Cache_GetMany_def cache_call_def cache_view_def split: if_splits fault.splits)

text \<open>A fill is seen by readers of its own type as its value, and by readers of another type only through their decoder.\<close>

lemma Set_view:
  assumes "cache_view c cd' (Cache_Set c cd k x ttl ch) j = Some y"
  shows "cache_view c cd' ch j = Some y \<or> j = k \<and> (\<exists>v. marshal cd x = Some v \<and> unmarshal cd' v = Some y)"
proof (cases "j = k")
  case False
  have "stored c (Cache_Set c cd k x ttl ch) j = stored c ch j"
    using False by (simp add: Cache_Set_def cache_call_def Let_def stored_def split: option.split fault.split)
  moreover have "Enabled (Cache_Set c cd k x ttl ch) = Enabled ch"
    by (simp add: Cache_Set_def cache_call_def Let_def split: option.split fault.split)
  ultimately show ?thesis using assms by (simp add: cache_view_def split: if_splits)
next
  case True
  then show ?thesis using assms
    by (auto simp: Cache_Set_def cache_call_def Let_def stored_def cache_view_def split: option.splits fault.splits if_splits)
qed

lemma Delete_view: "cache_view c cd (Cache_Delete c ks ch) j = Some y \<Longrightarrow> cache_view c cd ch j = Some y"
  by (auto simp: Cache_Delete_def cache_call_def stored_def cache_view_def split: option.splits fault.splits if_splits)

text \<open>An invalidation that reaches Redis takes its keys out of view.\<close>

lemma Delete_gone:
  assumes "\<forall>n m. cache_fault c n \<noteq> Failed m" "k \<in> set ks"
  shows "cache_view c cd (Cache_Delete c ks ch) k = None"
  using assms by (auto simp: Cache_Delete_def cache_call_def stored_def cache_view_def split: fault.split)

text \<open>A codec that reads back what it wrote makes the package a cache of its type.\<close>

locale json_codec =
  fixes cd :: "('a, 'v) codec"
  assumes faithful: "codec_ok cd"

sublocale json_codec \<subseteq> typed: value_cache "Cache_Get c cd" "\<lambda>k x. Cache_Set c cd k x ttl" "Cache_Delete c" "cache_view c cd" for c ttl
proof (unfold_locales, goal_cases)
  case 1 then show ?case by (rule Get_served)
next
  case (3 k x s j y)
  then show ?case using faithful by (auto simp: codec_ok_def dest!: Set_view)
next
  case 4 then show ?case by (rule Delete_view)
qed simp

context json_codec begin

text \<open>A read through an agreeing cache returns what the loader promises, and fills it with nothing else.\<close>

lemma remember_true:
  assumes "agrees (cache_view c cd) true ch" "\<And>x w'. load w = (Inr x, w') \<Longrightarrow> true key x"
  shows "agrees (cache_view c cd) true (fst (snd (Remember c cd key ttl load ch w)))"
    and "fst (Remember c cd key ttl load ch w) = Inr x \<Longrightarrow> true key x"
proof -
  let ?g = "Cache_Get c cd key ch"
  have ag: "agrees (cache_view c cd) true (snd ?g)" using assms(1) by (rule typed.agrees_get)
  have "agrees (cache_view c cd) true (fst (snd (Remember c cd key ttl load ch w))) \<and>
    (\<forall>x. fst (Remember c cd key ttl load ch w) = Inr x \<longrightarrow> true key x)"
  proof (cases "fst ?g")
    case None
    obtain r w' where l: "load w = (r, w')" by (cases "load w")
    show ?thesis
    proof (cases r)
      case (Inr x)
      with l assms(2) have "true key x" by simp
      then have "agrees (cache_view c cd) true (Cache_Set c cd key x ttl (snd ?g))" by (rule typed.agrees_put [OF ag])
      with None l Inr \<open>true key x\<close> show ?thesis by (simp add: Remember_def split_beta)
    qed (use None l ag in \<open>simp add: Remember_def split_beta\<close>)
  next
    case (Some x)
    then have "true key x" by (rule typed.served_is_true [OF assms(1)])
    with Some ag show ?thesis by (simp add: Remember_def split_beta)
  qed
  then show "agrees (cache_view c cd) true (fst (snd (Remember c cd key ttl load ch w)))"
    and "fst (Remember c cd key ttl load ch w) = Inr x \<Longrightarrow> true key x" by auto
qed

end

end
