(* ===== verification/Service_State.thy ===== *)
theory Service_State
  imports Cache Service_Types
begin

text \<open>
  What the three services share: the profile and wallet shapes of \<open>internal/types\<close>, the balance-free wallet view of
  \<open>internal/services/wallet.go\<close>, the values they cache with their codecs, and the state they act on. \<open>svc\<close> is
  the database (\<open>world\<close>, the profiles table, and the ids of the wallets table in the order they were inserted), the cache, and the sequence that numbers wallets.

  A query is one database round trip; a query that fails has only its error text. Values in the cache carry the Go type they
  were marshalled from: the keys of different types never coincide, so a decoder only meets its own type.
\<close>

section \<open>Shapes\<close>

record ProfileReqDto =
  pq_ExternalId :: string
  pq_Type :: profile_type
  pq_FullName :: string
  pq_Email :: string
  pq_Phone :: "string option"
  pq_Metadata :: string

record ProfileResDto =
  pr_Req :: ProfileReqDto
  pr_ID :: uuid
  pr_CreatedAt :: time
  pr_UpdatedAt :: time

record WalletReqDto =
  wq_ProfileID :: uuid
  wq_MerchantID :: uuid
  wq_Currency :: string

record ProfileDto =
  pd_FullName :: string
  pd_ID :: uuid

record WalletResDto =
  wr_ID :: uuid
  wr_CreatedAt :: time
  wr_UpdatedAt :: time
  wr_Number :: string
  wr_Status :: wallet_status
  wr_Currency :: string
  wr_AvailableBalance :: money
  wr_ProcessingBalance :: money
  wr_ActualBalance :: money
  wr_Version :: int64
  wr_Profile :: ProfileDto
  wr_Merchant :: ProfileDto

record ProfileFilter =
  pf_ExternalID :: "string option"
  pf_Type :: "profile_type option"
  pf_Search :: "string option"

record WalletFilter =
  wf_MerchantID :: "uuid option"
  wf_ProfileID :: "uuid option"
  wf_Currency :: "string option"
  wf_Status :: "wallet_status option"

record walletMeta =
  wm_ID :: uuid
  wm_Number :: string
  wm_ProfileID :: uuid
  wm_MerchantID :: "uuid option"
  wm_Status :: wallet_status
  wm_Currency :: string
  wm_ProfileName :: string
  wm_MerchantName :: string

section \<open>Cached values\<close>

datatype cached = CProfile profile | CWallet WalletResDto | CMeta walletMeta | CTransaction TransactionResDto

definition profile_codec :: "(profile, cached) codec" where
  "profile_codec = \<lparr>marshal = (\<lambda>p. Some (CProfile p)), unmarshal = (\<lambda>v. case v of CProfile p \<Rightarrow> Some p | _ \<Rightarrow> None)\<rparr>"

definition wallet_codec :: "(WalletResDto, cached) codec" where
  "wallet_codec = \<lparr>marshal = (\<lambda>d. Some (CWallet d)), unmarshal = (\<lambda>v. case v of CWallet d \<Rightarrow> Some d | _ \<Rightarrow> None)\<rparr>"

definition meta_codec :: "(walletMeta, cached) codec" where
  "meta_codec = \<lparr>marshal = (\<lambda>m. Some (CMeta m)), unmarshal = (\<lambda>v. case v of CMeta m \<Rightarrow> Some m | _ \<Rightarrow> None)\<rparr>"

definition txn_codec :: "(TransactionResDto, cached) codec" where
  "txn_codec = \<lparr>marshal = (\<lambda>d. Some (CTransaction d)), unmarshal = (\<lambda>v. case v of CTransaction d \<Rightarrow> Some d | _ \<Rightarrow> None)\<rparr>"

lemmas codec_defs = profile_codec_def wallet_codec_def meta_codec_def txn_codec_def

interpretation profiles_cached: json_codec profile_codec
  by unfold_locales (simp add: codec_ok_def codec_defs)

interpretation wallets_cached: json_codec wallet_codec
  by unfold_locales (simp add: codec_ok_def codec_defs)

interpretation metas_cached: json_codec meta_codec
  by unfold_locales (simp add: codec_ok_def codec_defs)

interpretation txns_cached: json_codec txn_codec
  by unfold_locales (simp add: codec_ok_def codec_defs)

text \<open>Filling a key with one type brings nothing of another type into view.\<close>

lemma other_codec_agrees:
  assumes "agrees (cache_view c cd') true ch" "\<And>v. marshal cd x = Some v \<Longrightarrow> unmarshal cd' v = None"
  shows "agrees (cache_view c cd') true (Cache_Set c cd k x ttl ch)"
  using assms by (fastforce simp: agrees_def dest!: Set_view)

lemma codecs_apart [simp]:
  "unmarshal profile_codec (CWallet d) = None" "unmarshal profile_codec (CMeta m) = None" "unmarshal profile_codec (CTransaction t) = None"
  "unmarshal wallet_codec (CProfile p) = None" "unmarshal wallet_codec (CMeta m) = None" "unmarshal wallet_codec (CTransaction t) = None"
  "unmarshal meta_codec (CWallet d) = None" "unmarshal meta_codec (CProfile p) = None" "unmarshal meta_codec (CTransaction t) = None"
  "unmarshal txn_codec (CWallet d) = None" "unmarshal txn_codec (CMeta m) = None" "unmarshal txn_codec (CProfile p) = None"
  "marshal profile_codec p = Some (CProfile p)" "marshal wallet_codec d = Some (CWallet d)"
  "marshal meta_codec m = Some (CMeta m)" "marshal txn_codec t = Some (CTransaction t)"
  by (simp_all add: codec_defs)

section \<open>State\<close>

record svc =
  sv_world :: world
  sv_profiles :: "profile list"
  sv_cache :: "cached cache"
  sv_wids :: "uuid list"
  sv_seq :: nat

text \<open>One statement sent to the database, and one query: a query that did not answer has an error.\<close>

definition svc_call :: "ctx \<Rightarrow> svc \<Rightarrow> fault \<times> svc" where
  "svc_call c s = (fst (db_call c (sv_world s)), s\<lparr>sv_world := snd (db_call c (sv_world s))\<rparr>)"

definition svc_query :: "ctx \<Rightarrow> svc \<Rightarrow> string option \<times> svc" where
  "svc_query c s = (case fst (svc_call c s) of NoFault \<Rightarrow> None | Failed m \<Rightarrow> Some m | LostAck m \<Rightarrow> Some m, snd (svc_call c s))"

lemma svc_call_frame [simp]:
  "sv_profiles (snd (svc_call c s)) = sv_profiles s" "sv_cache (snd (svc_call c s)) = sv_cache s" "sv_seq (snd (svc_call c s)) = sv_seq s"
  "sv_wids (snd (svc_call c s)) = sv_wids s"
  "wallets (sv_world (snd (svc_call c s))) = wallets (sv_world s)" "ledgers (sv_world (snd (svc_call c s))) = ledgers (sv_world s)"
  "txns (sv_world (snd (svc_call c s))) = txns (sv_world s)" "txbox (sv_world (snd (svc_call c s))) = txbox (sv_world s)"
  "notices (sv_world (snd (svc_call c s))) = notices (sv_world s)" "n_uuid (sv_world (snd (svc_call c s))) = n_uuid (sv_world s)"
  "outbox (sv_world (snd (svc_call c s))) = outbox (sv_world s)" "n_rrn (sv_world (snd (svc_call c s))) = n_rrn (sv_world s)"
  by (simp_all add: svc_call_def db_call_def)

lemma svc_query_state [simp]: "snd (svc_query c s) = snd (svc_call c s)"
  by (simp add: svc_query_def)

lemma svc_query_ok [simp]: "faultless c \<Longrightarrow> fst (svc_query c s) = None" "faultless c \<Longrightarrow> fst (svc_call c s) = NoFault"
  by (simp_all add: svc_query_def svc_call_def db_call_def faultless_def)

definition with_cache :: "(cached cache \<Rightarrow> cached cache) \<Rightarrow> svc \<Rightarrow> svc" where
  "with_cache f s = s\<lparr>sv_cache := f (sv_cache s)\<rparr>"

lemma with_cache_frame [simp]:
  "sv_world (with_cache f s) = sv_world s" "sv_profiles (with_cache f s) = sv_profiles s" "sv_seq (with_cache f s) = sv_seq s"
  "sv_wids (with_cache f s) = sv_wids s"
  "sv_cache (with_cache f s) = f (sv_cache s)"
  by (simp_all add: with_cache_def)

text \<open>\<open>First\<close> orders by primary key.\<close>

definition first_by :: "('r \<Rightarrow> uuid) \<Rightarrow> ('r \<Rightarrow> bool) \<Rightarrow> 'r list \<Rightarrow> 'r option" where
  "first_by key P rows = (case sort_key key (filter P rows) of [] \<Rightarrow> None | r # rs \<Rightarrow> Some r)"

lemma first_by_None: "first_by key P rows = None \<longleftrightarrow> (\<forall>r \<in> set rows. \<not> P r)"
proof -
  have "sort_key key (filter P rows) = [] \<longleftrightarrow> filter P rows = []" by (metis length_0_conv length_sort)
  then show ?thesis by (auto simp: first_by_def filter_empty_conv split: list.split)
qed

lemma first_by_Some: "first_by key P rows = Some r \<Longrightarrow> r \<in> set rows \<and> P r \<and> (\<forall>r' \<in> set rows. P r' \<longrightarrow> key r \<le> key r')"
proof -
  assume "first_by key P rows = Some r"
  then obtain rs where rs: "sort_key key (filter P rows) = r # rs" by (auto simp: first_by_def split: list.splits)
  have "sorted (map key (r # rs))" "set (r # rs) = set (filter P rows)" by (metis rs sorted_sort_key, metis rs set_sort)
  then show ?thesis by auto
qed

lemma first_by_unique: "first_by key P rows = Some r" if "filter P rows = [r]"
  using that by (simp add: first_by_def)

text \<open>A listing: filter, newest first, one page of it, and the number of rows before paging.\<close>

definition listing :: "('r \<Rightarrow> bool) \<Rightarrow> ('r \<Rightarrow> time) \<Rightarrow> ('r \<Rightarrow> 'd) \<Rightarrow> pagination \<Rightarrow> 'r list \<Rightarrow> 'd page" where
  "listing P created dto page rows =
     NewPage (map dto (page_rows page (sort_key (\<lambda>r. - created r) (filter P rows)))) page (int (length (filter P rows)))"

end
