(* ===== verification/Profile_Service.thy ===== *)
theory Profile_Service
  imports Service_State
begin

text \<open>
  The ProfileService (\<open>internal/services/profile.go\<close>): registration, lookups by id and by username through
  the cache, and the filtered listing with its \<open>LIKE\<close> search.

  The lemmas: a cache filled by this service only ever serves registered profiles that match the key asked for, so a
  lookup by id is a lookup in the table; registration keeps ids, emails and external ids
  unique; the search of a text without wildcards is a substring search.
\<close>

section \<open>Model\<close>

definition profileTTL :: time where "profileTTL = 30 * minute"

definition cacheProfile :: "ctx \<Rightarrow> profile \<Rightarrow> svc \<Rightarrow> svc" where
  "cacheProfile c pr s =
     (let s1 = with_cache (Cache_Set c profile_codec (ProfileKey (str_uuid c (p_ID pr))) pr profileTTL) s;
          s2 = with_cache (Cache_Set c profile_codec (ProfileUsernameKey (ToLower (unicode_lower c) (p_Email pr))) pr profileTTL) s1
      in (case p_Phone pr of
            Some phone \<Rightarrow> if phone \<noteq> [] then with_cache (Cache_Set c profile_codec (ProfileUsernameKey phone) pr profileTTL) s2 else s2
          | None \<Rightarrow> s2))"

definition FindByID :: "ctx \<Rightarrow> uuid \<Rightarrow> svc \<Rightarrow> (service_error + profile option) \<times> svc" where
  "FindByID c i s0 =
     (let (hit, ch) = Cache_Get c profile_codec (ProfileKey (str_uuid c i)) (sv_cache s0); s1 = s0\<lparr>sv_cache := ch\<rparr> in
      (case hit of
         Some p \<Rightarrow> (Inr (Some p), s1)
       | None \<Rightarrow>
           (let (err, s) = svc_query c s1 in
            (case err of
               Some m \<Rightarrow> (Inl (other_error (''find profile: '' @ m)), s)
             | None \<Rightarrow>
                 (case first_by p_ID (\<lambda>p. p_ID p = i) (sv_profiles s) of
                    None \<Rightarrow> (Inr None, s)
                  | Some p \<Rightarrow> (Inr (Some p), cacheProfile c p s))))))"

definition FindByIDs :: "ctx \<Rightarrow> uuid list \<Rightarrow> svc \<Rightarrow> (service_error + (uuid \<Rightarrow> profile option)) \<times> svc" where
  "FindByIDs c ids s0 =
     (let (err, s) = svc_query c s0 in
      (case err of
         Some m \<Rightarrow> Inl (other_error (''find profiles: '' @ m))
       | None \<Rightarrow> Inr (map_of (map (\<lambda>p. (p_ID p, p)) (rev (filter (\<lambda>p. p_ID p \<in> set ids) (sv_profiles s))))), s))"

definition profileToDto :: "profile \<Rightarrow> ProfileResDto" where
  "profileToDto m =
     \<lparr>pr_Req = \<lparr>pq_ExternalId = p_ExternalID m, pq_Type = p_Type m, pq_FullName = p_FullName m, pq_Email = p_Email m,
        pq_Phone = p_Phone m, pq_Metadata = p_Metadata m\<rparr>,
      pr_ID = p_ID m, pr_CreatedAt = p_CreatedAt m, pr_UpdatedAt = p_UpdatedAt m\<rparr>"

definition profile_Get :: "ctx \<Rightarrow> uuid \<Rightarrow> svc \<Rightarrow> (service_error + ProfileResDto) \<times> svc" where
  "profile_Get c i s0 =
     (case FindByID c i s0 of
        (Inl e, s) \<Rightarrow> (Inl e, s)
      | (Inr None, s) \<Rightarrow> (Inl (notFound [Txt ''profile not found'']), s)
      | (Inr (Some p), s) \<Rightarrow> (Inr (profileToDto p), s))"

text \<open>SQL's \<open>LOWER\<close> is taken to be the same case mapping as \<open>strings.ToLower\<close>.\<close>

definition username_matches :: "ctx \<Rightarrow> string \<Rightarrow> profile \<Rightarrow> bool" where
  "username_matches c u p \<longleftrightarrow> ToLower (unicode_lower c) (p_Email p) = ToLower (unicode_lower c) u \<or> p_Phone p = Some u"

definition GetByUsername :: "ctx \<Rightarrow> string \<Rightarrow> svc \<Rightarrow> (service_error + ProfileResDto) \<times> svc" where
  "GetByUsername c username0 s0 =
     (let username = TrimSpace username0 in
      if username = [] then (Inl (invalid [Txt ''username is required'']), s0)
      else
        (let (hit, ch) = Cache_Get c profile_codec (ProfileUsernameKey (ToLower (unicode_lower c) username)) (sv_cache s0);
             s1 = s0\<lparr>sv_cache := ch\<rparr> in
         (case hit of
            Some p \<Rightarrow> (Inr (profileToDto p), s1)
          | None \<Rightarrow>
              (let (err, s) = svc_query c s1 in
               (case err of
                  Some m \<Rightarrow> (Inl (other_error (''find profile: '' @ m)), s)
                | None \<Rightarrow>
                    (case first_by p_ID (username_matches c username) (sv_profiles s) of
                       None \<Rightarrow> (Inl (notFound [Txt ''profile not found'']), s)
                     | Some p \<Rightarrow> (Inr (profileToDto p), cacheProfile c p s)))))))"

text \<open>SQL's \<open>LIKE\<close>: any text, any one character, and the escape character.\<close>

fun sql_like :: "string \<Rightarrow> string \<Rightarrow> bool" where
  "sql_like [] s \<longleftrightarrow> s = []"
| "sql_like (p # ps) [] \<longleftrightarrow> p = CHR ''%'' \<and> sql_like ps []"
| "sql_like (p # ps) (x # s) \<longleftrightarrow>
     (if p = CHR ''%'' then sql_like ps (x # s) \<or> sql_like (p # ps) s
      else if p = CHR ''_'' then sql_like ps s
      else if p = CHR 0x5C then (case ps of [] \<Rightarrow> False | q # qs \<Rightarrow> q = x \<and> sql_like qs s)
      else p = x \<and> sql_like ps s)"

definition profile_filter :: "ctx \<Rightarrow> ProfileFilter \<Rightarrow> profile \<Rightarrow> bool" where
  "profile_filter c f p \<longleftrightarrow>
     (case pf_ExternalID f of None \<Rightarrow> True | Some e \<Rightarrow> p_ExternalID p = e) \<and>
     (case pf_Type f of None \<Rightarrow> True | Some t \<Rightarrow> p_Type p = t) \<and>
     (case pf_Search f of
        None \<Rightarrow> True
      | Some q \<Rightarrow>
          (let like = ''%'' @ ToLower (unicode_lower c) q @ ''%'' in
           sql_like like (ToLower (unicode_lower c) (p_FullName p)) \<or> sql_like like (ToLower (unicode_lower c) (p_Email p)) \<or>
           (case p_Phone p of None \<Rightarrow> False | Some phone \<Rightarrow> sql_like like phone)))"

definition profile_List :: "ctx \<Rightarrow> ProfileFilter \<Rightarrow> pagination \<Rightarrow> svc \<Rightarrow> (service_error + ProfileResDto page) \<times> svc" where
  "profile_List c f page0 s0 =
     (let page = page_Normalize page0; (err, s1) = svc_query c s0 in
      (case err of
         Some m \<Rightarrow> (Inl (other_error (''count profiles: '' @ m)), s1)
       | None \<Rightarrow>
           (let (err, s2) = svc_query c s1 in
            (case err of
               Some m \<Rightarrow> (Inl (other_error (''list profiles: '' @ m)), s2)
             | None \<Rightarrow> (Inr (listing (profile_filter c f) p_CreatedAt profileToDto page (sv_profiles s2)), s2)))))"

text \<open>The insert, with the unique indexes of the table and the id the database draws.\<close>

definition new_profile :: "ctx \<Rightarrow> ProfileReqDto \<Rightarrow> uuid \<Rightarrow> profile" where
  "new_profile c payload i =
     \<lparr>p_ID = i, p_ExternalID = pq_ExternalId payload, p_Type = pq_Type payload, p_FullName = pq_FullName payload,
      p_Email = pq_Email payload, p_Phone = pq_Phone payload,
      p_Metadata = (if pq_Metadata payload = [] then ''{}'' else pq_Metadata payload), p_CreatedAt = now c, p_UpdatedAt = now c\<rparr>"

definition insert_profile :: "ctx \<Rightarrow> ProfileReqDto \<Rightarrow> svc \<Rightarrow> (string + profile) \<times> svc" where
  "insert_profile c payload s0 =
     (let (f, s1) = svc_call c s0;
          row = new_profile c payload (new_uuid c (n_uuid (sv_world s1)));
          s2 = s1\<lparr>sv_world := (sv_world s1)\<lparr>n_uuid := Suc (n_uuid (sv_world s1))\<rparr>\<rparr>;
          s3 = s2\<lparr>sv_profiles := sv_profiles s2 @ [row]\<rparr> in
      (case f of
         Failed m \<Rightarrow> (Inl m, s1)
       | _ \<Rightarrow>
           if list_ex (\<lambda>p. p_ID p = p_ID row \<or> p_Email p = p_Email row \<or> p_ExternalID p = p_ExternalID row) (sv_profiles s1)
           then (Inl ''duplicate key value violates unique constraint'', s2)
           else (case f of LostAck m \<Rightarrow> (Inl m, s3) | _ \<Rightarrow> (Inr row, s3))))"

definition Register :: "ctx \<Rightarrow> ProfileReqDto \<Rightarrow> svc \<Rightarrow> (service_error + ProfileResDto) \<times> svc" where
  "Register c payload s0 =
     (let (err, s1) = svc_query c s0 in
      (case err of
         Some m \<Rightarrow> (Inl (other_error (''check profile: '' @ m)), s1)
       | None \<Rightarrow>
           if list_ex (\<lambda>p. p_Email p = pq_Email payload \<or> p_ExternalID p = pq_ExternalId payload) (sv_profiles s1)
           then (Inl (conflict [Txt ''profile with given email or external_id already exists'']), s1)
           else
             (case insert_profile c payload s1 of
                (Inl m, s2) \<Rightarrow> (Inl (other_error (''create profile: '' @ m)), s2)
              | (Inr row, s2) \<Rightarrow>
                  (Inr \<lparr>pr_Req = payload, pr_ID = p_ID row, pr_CreatedAt = p_CreatedAt row, pr_UpdatedAt = p_UpdatedAt row\<rparr>,
                   cacheProfile c row s2))))"

section \<open>What the cache holds\<close>

text \<open>A cached profile is a registered one, under a key made from its own id, email or phone.\<close>

definition profile_true :: "ctx \<Rightarrow> profile list \<Rightarrow> string \<Rightarrow> profile \<Rightarrow> bool" where
  "profile_true c ps k p \<longleftrightarrow> p \<in> set ps \<and>
     (k = ProfileKey (str_uuid c (p_ID p)) \<or> k = ProfileUsernameKey (ToLower (unicode_lower c) (p_Email p)) \<or>
      (\<exists>phone. p_Phone p = Some phone \<and> phone \<noteq> [] \<and> k = ProfileUsernameKey phone))"

definition profiles_cache_ok :: "ctx \<Rightarrow> svc \<Rightarrow> bool" where
  "profiles_cache_ok c s \<longleftrightarrow> agrees (cache_view c profile_codec) (profile_true c (sv_profiles s)) (sv_cache s)"

definition profiles_ok :: "ctx \<Rightarrow> svc \<Rightarrow> bool" where
  "profiles_ok c s \<longleftrightarrow> distinct (map p_ID (sv_profiles s)) \<and> distinct (map p_Email (sv_profiles s)) \<and>
     distinct (map p_ExternalID (sv_profiles s)) \<and> profiles_cache_ok c s"

lemma profile_keys [simp]:
  "ProfileKey i = ProfileKey j \<longleftrightarrow> i = j" "ProfileUsernameKey u = ProfileUsernameKey v \<longleftrightarrow> u = v"
  "ProfileKey i \<noteq> ProfileUsernameKey u" "ProfileUsernameKey u \<noteq> ProfileKey i"
  by (simp_all add: ProfileKey_def ProfileUsernameKey_def)

lemma cacheProfile_frame [simp]:
  "sv_profiles (cacheProfile c p s) = sv_profiles s" "sv_world (cacheProfile c p s) = sv_world s"
  by (simp_all add: cacheProfile_def Let_def split: option.split)

lemma cacheProfile_ok: "profiles_cache_ok c s \<Longrightarrow> p \<in> set (sv_profiles s) \<Longrightarrow> profiles_cache_ok c (cacheProfile c p s)"
  by (simp add: profiles_cache_ok_def cacheProfile_def Let_def profile_true_def profiles_cached.typed.agrees_put split: option.split)

lemma cache_read_ok: "profiles_cache_ok c (s\<lparr>sv_cache := snd (Cache_Get c cd k (sv_cache s))\<rparr>) = profiles_cache_ok c s"
  by (simp add: profiles_cache_ok_def agrees_def)

lemma svc_call_profiles [simp]: "profiles_cache_ok c (snd (svc_call c s)) = profiles_cache_ok c s"
  by (simp add: profiles_cache_ok_def)

lemma profiles_cache_mono:
  "profiles_cache_ok c s \<Longrightarrow> sv_cache s' = sv_cache s \<Longrightarrow> set (sv_profiles s) \<subseteq> set (sv_profiles s') \<Longrightarrow> profiles_cache_ok c s'"
  by (auto simp: profiles_cache_ok_def agrees_def profile_true_def)

lemmas cache_first_simps = split_beta Let_def svc_query_state

lemma FindByID_ok:
  assumes "profiles_cache_ok c s"
  shows "profiles_cache_ok c (snd (FindByID c i s)) \<and> sv_profiles (snd (FindByID c i s)) = sv_profiles s"
proof -
  let ?s1 = "s\<lparr>sv_cache := snd (Cache_Get c profile_codec (ProfileKey (str_uuid c i)) (sv_cache s))\<rparr>"
  have ok: "profiles_cache_ok c ?s1" using assms by (simp only: cache_read_ok)
  have "profiles_cache_ok c (cacheProfile c p (snd (svc_call c ?s1)))" if "first_by p_ID (\<lambda>p. p_ID p = i) (sv_profiles s) = Some p" for p
    using ok first_by_Some [OF that] by (intro cacheProfile_ok) simp_all
  with ok show ?thesis by (simp add: FindByID_def cache_first_simps split: option.split)
qed

lemma GetByUsername_ok:
  assumes "profiles_cache_ok c s"
  shows "profiles_cache_ok c (snd (GetByUsername c u s)) \<and> sv_profiles (snd (GetByUsername c u s)) = sv_profiles s"
proof -
  let ?s1 = "s\<lparr>sv_cache := snd (Cache_Get c profile_codec (ProfileUsernameKey (ToLower (unicode_lower c) (TrimSpace u))) (sv_cache s))\<rparr>"
  have ok: "profiles_cache_ok c ?s1" using assms by (simp only: cache_read_ok)
  have "profiles_cache_ok c (cacheProfile c p (snd (svc_call c ?s1)))"
    if "first_by p_ID (username_matches c (TrimSpace u)) (sv_profiles s) = Some p" for p
    using ok first_by_Some [OF that] by (intro cacheProfile_ok) simp_all
  with ok assms show ?thesis by (simp add: GetByUsername_def cache_first_simps split: option.split)
qed

lemma profile_Get_state: "snd (profile_Get c i s) = snd (FindByID c i s)"
  by (simp add: profile_Get_def split: prod.split sum.split option.split)

lemma profile_List_state [simp]:
  "sv_profiles (snd (profile_List c f page s)) = sv_profiles s" "sv_cache (snd (profile_List c f page s)) = sv_cache s"
  by (simp_all add: profile_List_def split_beta Let_def split: option.split)

lemma new_profile_fields [simp]:
  "p_ID (new_profile c payload i) = i" "p_Email (new_profile c payload i) = pq_Email payload"
  "p_ExternalID (new_profile c payload i) = pq_ExternalId payload"
  by (simp_all add: new_profile_def)

lemma profiles_ok_snoc:
  assumes "profiles_ok c s" "sv_profiles s' = sv_profiles s @ [p]" "sv_cache s' = sv_cache s"
    "\<forall>q \<in> set (sv_profiles s). \<not> (p_ID q = p_ID p \<or> p_Email q = p_Email p \<or> p_ExternalID q = p_ExternalID p)"
  shows "profiles_ok c s'"
  using assms profiles_cache_mono [of c s s'] by (fastforce simp: profiles_ok_def)

lemma profiles_ok_cong: "sv_profiles s' = sv_profiles s \<Longrightarrow> sv_cache s' = sv_cache s \<Longrightarrow> profiles_ok c s' = profiles_ok c s"
  by (simp add: profiles_ok_def profiles_cache_ok_def)

lemma insert_profile_ok:
  assumes "profiles_ok c s"
  shows "profiles_ok c (snd (insert_profile c payload s))"
    and "fst (insert_profile c payload s) = Inr row \<Longrightarrow> sv_profiles (snd (insert_profile c payload s)) = sv_profiles s @ [row] \<and>
      row = new_profile c payload (p_ID row)"
proof -
  obtain f s1 where f: "svc_call c s = (f, s1)" by (cases "svc_call c s")
  have fr: "sv_profiles s1 = sv_profiles s" "sv_cache s1 = sv_cache s" using svc_call_frame(1,2) [of c s] by (simp_all add: f)
  let ?s2 = "s1\<lparr>sv_world := (sv_world s1)\<lparr>n_uuid := Suc (n_uuid (sv_world s1))\<rparr>\<rparr>"
  let ?p = "new_profile c payload (new_uuid c (n_uuid (sv_world s1)))"
  have same: "profiles_ok c s1" "profiles_ok c ?s2" using assms fr profiles_ok_cong [of s1 s c] profiles_ok_cong [of ?s2 s c] by simp_all
  have snoc: "profiles_ok c (?s2\<lparr>sv_profiles := sv_profiles ?s2 @ [?p]\<rparr>)"
    if "\<not> list_ex (\<lambda>q. p_ID q = p_ID ?p \<or> p_Email q = p_Email ?p \<or> p_ExternalID q = p_ExternalID ?p) (sv_profiles s1)"
    using that fr by (intro profiles_ok_snoc [OF assms, where p = ?p]) (simp_all add: list_ex_iff)
  show "profiles_ok c (snd (insert_profile c payload s))"
    unfolding insert_profile_def f Let_def prod.case using same snoc
    by (cases f) (simp_all del: new_profile_fields)
  show "fst (insert_profile c payload s) = Inr row \<Longrightarrow> sv_profiles (snd (insert_profile c payload s)) = sv_profiles s @ [row] \<and>
      row = new_profile c payload (p_ID row)"
    by (cases f) (auto simp: insert_profile_def f Let_def fr split: if_splits)
qed

lemma Register_ok:
  assumes "profiles_ok c s"
  shows "profiles_ok c (snd (Register c payload s))"
proof -
  let ?s1 = "snd (svc_call c s)"
  have ok1: "profiles_ok c ?s1" using assms by (simp add: profiles_ok_def)
  obtain r s2 where i: "insert_profile c payload ?s1 = (r, s2)" by (cases "insert_profile c payload ?s1")
  note ok2 = insert_profile_ok [OF ok1, of payload, unfolded i fst_conv snd_conv]
  have "profiles_ok c (cacheProfile c row s2)" if "r = Inr row" for row
    using ok2(1) ok2(2) [OF that] cacheProfile_ok [of c s2 row] by (simp add: profiles_ok_def)
  then show ?thesis
    using ok1 ok2(1) by (cases r) (simp_all add: Register_def cache_first_simps i split: option.split)
qed

section \<open>Search\<close>

definition plain_text :: "string \<Rightarrow> bool" where
  "plain_text s \<longleftrightarrow> CHR ''%'' \<notin> set s \<and> CHR ''_'' \<notin> set s \<and> CHR 0x5C \<notin> set s"

lemma like_any: "sql_like (CHR ''%'' # ps) s \<longleftrightarrow> (\<exists>a b. s = a @ b \<and> sql_like ps b)"
proof (induction s)
  case (Cons x s)
  have "(\<exists>a b. x # s = a @ b \<and> sql_like ps b) \<longleftrightarrow> sql_like ps (x # s) \<or> (\<exists>a b. s = a @ b \<and> sql_like ps b)"
    by (metis append_Cons append_Nil list.exhaust list.inject)
  with Cons show ?case by simp
qed simp

lemma like_prefix: "plain_text s \<Longrightarrow> sql_like (s @ ''%'') t \<longleftrightarrow> (\<exists>b. t = s @ b)"
proof (induction s arbitrary: t)
  case Nil
  show ?case by (simp add: like_any)
next
  case (Cons x s)
  then show ?case by (cases t) (auto simp: plain_text_def)
qed

lemma like_substring: "plain_text s \<Longrightarrow> sql_like (''%'' @ s @ ''%'') t \<longleftrightarrow> (\<exists>a b. t = a @ s @ b)"
  by (auto simp: like_any like_prefix)

section \<open>Properties\<close>

datatype profile_cmd = CmdGet uuid | CmdUsername string | CmdList ProfileFilter pagination | CmdRegister ProfileReqDto

fun profile_exec :: "ctx \<Rightarrow> svc \<Rightarrow> profile_cmd \<Rightarrow> svc" where
  "profile_exec c s (CmdGet i) = snd (profile_Get c i s)"
| "profile_exec c s (CmdUsername u) = snd (GetByUsername c u s)"
| "profile_exec c s (CmdList f page) = snd (profile_List c f page s)"
| "profile_exec c s (CmdRegister payload) = snd (Register c payload s)"

lemma profile_exec_ok: "profiles_ok c s \<Longrightarrow> profiles_ok c (profile_exec c s cmd)"
proof (cases cmd)
  case (CmdGet i)
  then show "profiles_ok c s \<Longrightarrow> ?thesis" using FindByID_ok [of c s i] by (simp add: profiles_ok_def profile_Get_state)
next
  case (CmdUsername u)
  then show "profiles_ok c s \<Longrightarrow> ?thesis" using GetByUsername_ok [of c s u] by (simp add: profiles_ok_def)
next
  case (CmdList f page)
  then show "profiles_ok c s \<Longrightarrow> ?thesis"
    using profiles_ok_cong [of "snd (profile_List c f page s)" s c] by simp
next
  case (CmdRegister payload)
  then show "profiles_ok c s \<Longrightarrow> ?thesis" using Register_ok by simp
qed

text \<open>
  Claim C26. Profiles stay unique and the cache stays honest. After any sequence of lookups, listings and
  registrations, with any database and cache failures, ids, emails and external ids are unique, and every profile the
  cache would serve is a registered profile stored under its own id, its email in lower case, or its phone.
\<close>

theorem profile_service_invariant:
  assumes "profiles_ok c s"
  shows "profiles_ok c (foldl (profile_exec c) s cmds)"
  using assms by (induction cmds arbitrary: s) (simp_all add: profile_exec_ok)

definition demo_cache :: "cached cache" where "demo_cache = Start ''redis:6379'' True 0"

definition demo_svc :: svc where
  "demo_svc = \<lparr>sv_world = empty_world, sv_profiles = [demo_profile], sv_cache = demo_cache, sv_wids = [], sv_seq = 0\<rparr>"

definition demo_registration :: "string \<Rightarrow> string \<Rightarrow> ProfileReqDto" where
  "demo_registration ext email = \<lparr>pq_ExternalId = ext, pq_Type = ''individual'', pq_FullName = ''Ann'', pq_Email = email,
     pq_Phone = None, pq_Metadata = []\<rparr>"

lemma demo_cache_empty: "cache_view c cd demo_cache k = None"
  by (simp add: demo_cache_def Start_def cache_view_def stored_def)

lemma demo_profiles_ok: "profiles_ok demo_ctx demo_svc"
  by (simp add: profiles_ok_def profiles_cache_ok_def demo_svc_def agrees_def demo_cache_empty)

theorem profile_service_invariant_witness:
  "profiles_ok demo_ctx (foldl (profile_exec demo_ctx) demo_svc [CmdRegister (demo_registration ''e1'' ''ann@x''), CmdUsername ''ann@x''])"
  by (rule profile_service_invariant [OF demo_profiles_ok])

lemma find_by_id: "distinct (map p_ID ps) \<Longrightarrow> p \<in> set ps \<Longrightarrow> find (\<lambda>q. p_ID q = p_ID p) ps = Some p"
  by (induction ps) auto

text \<open>
  A lookup by id through the cache is a lookup in the table: whenever it answers, it answers with the
  registered profile of that id, or with none when there is none. A lookup by username that answers,
  answers with a registered profile whose email is the username up to case, or whose phone is the username (or the username in lower case).
\<close>

theorem profile_lookup_correct:
  assumes "profiles_ok c s" "uuid_codec c"
  shows "(\<forall>r. fst (FindByID c i s) = Inr r \<longrightarrow> r = find (\<lambda>p. p_ID p = i) (sv_profiles s)) \<and>
    (\<forall>d. fst (GetByUsername c u s) = Inr d \<longrightarrow> (\<exists>p \<in> set (sv_profiles s). d = profileToDto p \<and>
       (username_matches c (TrimSpace u) p \<or> p_Phone p = Some (ToLower (unicode_lower c) (TrimSpace u)))))"
proof (intro conjI allI impI)
  fix r assume r: "fst (FindByID c i s) = Inr r"
  have ag: "agrees (cache_view c profile_codec) (profile_true c (sv_profiles s)) (sv_cache s)"
    and dist: "distinct (map p_ID (sv_profiles s))" using assms(1) by (simp_all add: profiles_ok_def profiles_cache_ok_def)
  note one = find_by_id [OF dist]
  show "r = find (\<lambda>p. p_ID p = i) (sv_profiles s)"
  proof (cases "fst (Cache_Get c profile_codec (ProfileKey (str_uuid c i)) (sv_cache s))")
    case None
    then have e: "r = first_by p_ID (\<lambda>p. p_ID p = i) (sv_profiles s)"
      using r by (auto simp: FindByID_def cache_first_simps split: option.splits)
    show ?thesis
    proof (cases r)
      case None
      with e [symmetric] have "\<forall>p \<in> set (sv_profiles s). p_ID p \<noteq> i" by (simp add: first_by_None)
      then have "find (\<lambda>p. p_ID p = i) (sv_profiles s) = None" by (auto simp: find_None_iff)
      with None show ?thesis by simp
    next
      case (Some p)
      with first_by_Some [OF e [symmetric, unfolded Some]] one [of p] show ?thesis by simp
    qed
  next
    case (Some p)
    then have "profile_true c (sv_profiles s) (ProfileKey (str_uuid c i)) p" by (rule profiles_cached.typed.served_is_true [OF ag])
    then have "p \<in> set (sv_profiles s)" "p_ID p = i" using str_uuid_inject [OF assms(2)] by (auto simp: profile_true_def)
    then show ?thesis using r Some one [of p] by (simp add: FindByID_def cache_first_simps)
  qed
next
  fix d assume d: "fst (GetByUsername c u s) = Inr d"
  let ?k = "ProfileUsernameKey (ToLower (unicode_lower c) (TrimSpace u))"
  have ag: "agrees (cache_view c profile_codec) (profile_true c (sv_profiles s)) (sv_cache s)"
    using assms(1) by (simp add: profiles_ok_def profiles_cache_ok_def)
  show "\<exists>p \<in> set (sv_profiles s). d = profileToDto p \<and>
       (username_matches c (TrimSpace u) p \<or> p_Phone p = Some (ToLower (unicode_lower c) (TrimSpace u)))"
  proof (cases "fst (Cache_Get c profile_codec ?k (sv_cache s))")
    case None
    then obtain p where p: "d = profileToDto p" "first_by p_ID (username_matches c (TrimSpace u)) (sv_profiles s) = Some p"
      using d by (auto simp: GetByUsername_def cache_first_simps split: option.splits if_splits)
    then show ?thesis using first_by_Some [OF p(2)] by auto
  next
    case (Some p)
    then have "profile_true c (sv_profiles s) ?k p" by (rule profiles_cached.typed.served_is_true [OF ag])
    moreover have "d = profileToDto p" using d Some by (simp add: GetByUsername_def cache_first_simps split: if_splits)
    ultimately show ?thesis by (auto simp: profile_true_def username_matches_def)
  qed
qed

theorem profile_lookup_correct_witness:
  "fst (FindByID demo_ctx 9 demo_svc) = Inr (Some demo_profile)"
proof -
  have "is_ok (fst (FindByID demo_ctx 9 demo_svc))" by code_simp
  then obtain r where r: "fst (FindByID demo_ctx 9 demo_svc) = Inr r" by (auto simp: is_ok_iff)
  moreover have "r = find (\<lambda>p. p_ID p = 9) (sv_profiles demo_svc)"
    using profile_lookup_correct [OF demo_profiles_ok demo_codec, where i = 9 and u = "''x''"] r by blast
  ultimately show ?thesis by (simp add: demo_svc_def demo_profile_def)
qed

text \<open>
  Two profiles can share a username. Registration compares emails exactly while the lookup and the cache key ignore
  case: after registering \<open>Ann@x\<close> and then \<open>ann@x\<close>, both accepted, looking up \<open>Ann@x\<close> answers with the second profile.
\<close>

theorem case_variant_shadows_profile:
  "let (r1, s1) = Register demo_ctx (demo_registration ''e1'' ''Ann@x'') demo_svc;
       (r2, s2) = Register demo_ctx (demo_registration ''e2'' ''ann@x'') s1;
       (r3, s3) = GetByUsername demo_ctx ''Ann@x'' s2
   in is_ok r1 \<and> is_ok r2 \<and> is_ok r3 \<and> pr_ID (projr r1) \<noteq> pr_ID (projr r2) \<and> pr_ID (projr r3) = pr_ID (projr r2)"
proof -
  have a: "char_of (97 :: nat) = CHR ''a''" by (simp add: char_of_def bit_Suc_0_iff)
  have low: "ToLower f ''Ann@x'' = ''ann@x''" "ToLower f ''ann@x'' = ''ann@x''" for f
    by (simp_all add: ToLower_def is_ascii_def ascii_lower_def a)
  have trim: "TrimSpace ''Ann@x'' = ''Ann@x''" by (rule TrimSpace_id) (simp_all add: plain_char_def)
  show ?thesis
    by (simp add: Register_def GetByUsername_def trim low insert_profile_def svc_query_def svc_call_def db_call_def split_beta Let_def
        demo_svc_def demo_registration_def demo_profile_def empty_world_def new_profile_def cacheProfile_def with_cache_def Cache_Set_def
        Cache_Get_def stored_def demo_cache_def Start_def cache_call_def Enabled_def profileToDto_def profile_codec_def demo_ctx_def
        profileTTL_def minute_def second_def)
qed

text \<open>
  The listing's search is a substring search. For a search text without \<open>%\<close>, \<open>_\<close> and backslash, a
  profile is found exactly when the text, in lower case, occurs in its name or email in lower case, or in its phone.
\<close>

theorem search_is_substring:
  assumes "plain_text (ToLower (unicode_lower c) q)"
  shows "profile_filter c \<lparr>pf_ExternalID = None, pf_Type = None, pf_Search = Some q\<rparr> p \<longleftrightarrow>
    (\<exists>a b. ToLower (unicode_lower c) (p_FullName p) = a @ ToLower (unicode_lower c) q @ b) \<or>
    (\<exists>a b. ToLower (unicode_lower c) (p_Email p) = a @ ToLower (unicode_lower c) q @ b) \<or>
    (\<exists>phone a b. p_Phone p = Some phone \<and> phone = a @ ToLower (unicode_lower c) q @ b)"
  using like_substring [OF assms] by (auto simp: profile_filter_def Let_def split: option.split)

theorem search_is_substring_witness:
  "profile_filter demo_ctx \<lparr>pf_ExternalID = None, pf_Type = None, pf_Search = Some ''nN''\<rparr> demo_profile"
proof -
  have "plain_text (ToLower (unicode_lower demo_ctx) ''nN'')" by code_simp
  moreover have "ToLower (unicode_lower demo_ctx) (p_FullName demo_profile) = ''a'' @ ToLower (unicode_lower demo_ctx) ''nN'' @ []" by code_simp
  ultimately show ?thesis using search_is_substring [of demo_ctx "''nN''" demo_profile] by blast
qed

end
