(* ===== verification/Wallet_Service.thy ===== *)
theory Wallet_Service
  imports Profile_Service Wallet_Actor
begin

text \<open>
  The WalletService (\<open>internal/services/wallet.go\<close>): creating wallets, reading them through the cache, listing them, and
  the metadata check that precedes every transaction. A wallet row holds the ids of its owners; \<open>with_owners\<close>
  is the join that loads their names.

  The lemmas: a wallet is created with a valid checksum and balances that keep the books, so its WalletActor
  accepts it; reads through the cache return the current row as long as the WalletActor's
  invalidations reach the cache; the metadata check accepts only wallets that exist, with their true owners and currency.
\<close>

section \<open>Model\<close>

definition walletReadTTL :: time where "walletReadTTL = 5 * second"
definition walletMetaTTL :: time where "walletMetaTTL = 5 * minute"

text \<open>Go's zero time, 1 January of year 1.\<close>

definition zero_time :: time where "zero_time = - 62135596800 * second"

definition empty_profile :: profile where
  "empty_profile = \<lparr>p_ID = uuid_Nil, p_ExternalID = [], p_Type = [], p_FullName = [], p_Email = [], p_Phone = None, p_Metadata = [],
     p_CreatedAt = zero_time, p_UpdatedAt = zero_time\<rparr>"

definition selectProfileName :: "profile \<Rightarrow> profile" where
  "selectProfileName p = empty_profile\<lparr>p_ID := p_ID p, p_FullName := p_FullName p\<rparr>"

definition profile_by_id :: "profile list \<Rightarrow> uuid \<Rightarrow> profile option" where
  "profile_by_id ps i = find (\<lambda>p. p_ID p = i) ps"

definition withOwners :: "profile list \<Rightarrow> wallet \<Rightarrow> wallet" where
  "withOwners ps row = row\<lparr>
     w_Profile := (case profile_by_id ps (w_ProfileID row) of Some p \<Rightarrow> selectProfileName p | None \<Rightarrow> empty_profile),
     w_Merchant := (case w_MerchantID row of None \<Rightarrow> None | Some m \<Rightarrow> map_option selectProfileName (profile_by_id ps m))\<rparr>"

definition wallet_rows :: "svc \<Rightarrow> wallet list" where
  "wallet_rows s = List.map_filter (wallets (sv_world s)) (sv_wids s)"

definition walletToDto :: "ctx \<Rightarrow> wallet \<Rightarrow> WalletResDto" where
  "walletToDto c w =
     (let ex = display_exponent c (w_Currency w) in
      \<lparr>wr_ID = w_ID w, wr_CreatedAt = w_CreatedAt w, wr_UpdatedAt = w_UpdatedAt w, wr_Number = w_Number w, wr_Status = w_Status w,
       wr_Currency = w_Currency w, wr_AvailableBalance = MoneyFromMinor (w_AvailableBalance w) ex,
       wr_ProcessingBalance = MoneyFromMinor (w_ProcessingBalance w) ex, wr_ActualBalance = MoneyFromMinor (w_ActualBalance w) ex,
       wr_Version = w_Version w, wr_Profile = \<lparr>pd_FullName = p_FullName (w_Profile w), pd_ID = p_ID (w_Profile w)\<rparr>,
       wr_Merchant = (case w_Merchant w of
           Some m \<Rightarrow> \<lparr>pd_FullName = p_FullName m, pd_ID = p_ID m\<rparr>
         | None \<Rightarrow> \<lparr>pd_FullName = [], pd_ID = uuid_Nil\<rparr>)\<rparr>)"

text \<open>The loader of a cached read: one query for the row a selection finds.\<close>

definition load_wallet :: "ctx \<Rightarrow> (svc \<Rightarrow> wallet option) \<Rightarrow> svc \<Rightarrow> (service_error + WalletResDto) \<times> svc" where
  "load_wallet c pick s0 =
     (let (err, s) = svc_query c s0 in
      (case err of
         Some m \<Rightarrow> Inl (other_error (''get wallet: '' @ m))
       | None \<Rightarrow>
           (case pick s of
              None \<Rightarrow> Inl (notFound [Txt ''wallet not found''])
            | Some row \<Rightarrow> Inr (walletToDto c (withOwners (sv_profiles s) row))), s))"

definition remember_wallet :: "ctx \<Rightarrow> string \<Rightarrow> (svc \<Rightarrow> wallet option) \<Rightarrow> svc \<Rightarrow> (service_error + WalletResDto) \<times> svc" where
  "remember_wallet c key pick s =
     (case Remember c wallet_codec key walletReadTTL (load_wallet c pick) (sv_cache s) s of
        (r, ch, s') \<Rightarrow> (r, s'\<lparr>sv_cache := ch\<rparr>))"

definition wallet_Get :: "ctx \<Rightarrow> uuid \<Rightarrow> svc \<Rightarrow> (service_error + WalletResDto) \<times> svc" where
  "wallet_Get c i = remember_wallet c (WalletKey (str_uuid c i)) (\<lambda>s. wallets (sv_world s) i)"

definition wallet_GetByNumber :: "ctx \<Rightarrow> string \<Rightarrow> svc \<Rightarrow> (service_error + WalletResDto) \<times> svc" where
  "wallet_GetByNumber c number0 =
     (let number = ToUpper (unicode_upper c) (TrimSpace number0)
      in remember_wallet c (WalletNumberKey number) (\<lambda>s. first_by w_ID (\<lambda>r. w_Number r = number) (wallet_rows s)))"

definition wallet_filter :: "ctx \<Rightarrow> WalletFilter \<Rightarrow> wallet \<Rightarrow> bool" where
  "wallet_filter c f r \<longleftrightarrow>
     (case wf_MerchantID f of None \<Rightarrow> True | Some m \<Rightarrow> w_MerchantID r = Some m) \<and>
     (case wf_ProfileID f of None \<Rightarrow> True | Some p \<Rightarrow> w_ProfileID r = p) \<and>
     (case wf_Currency f of None \<Rightarrow> True | Some cur \<Rightarrow> w_Currency r = Normalize (unicode_upper c) cur) \<and>
     (case wf_Status f of None \<Rightarrow> True | Some st \<Rightarrow> w_Status r = st)"

definition wallet_List :: "ctx \<Rightarrow> WalletFilter \<Rightarrow> pagination \<Rightarrow> svc \<Rightarrow> (service_error + WalletResDto page) \<times> svc" where
  "wallet_List c f page0 s0 =
     (let page = page_Normalize page0; (err, s1) = svc_query c s0 in
      (case err of
         Some m \<Rightarrow> (Inl (other_error (''count wallets: '' @ m)), s1)
       | None \<Rightarrow>
           (let (err, s2) = svc_query c s1 in
            (case err of
               Some m \<Rightarrow> (Inl (other_error (''list wallets: '' @ m)), s2)
             | None \<Rightarrow> (Inr (listing (wallet_filter c f) w_CreatedAt (walletToDto c \<circ> withOwners (sv_profiles s2)) page (wallet_rows s2)), s2)))))"

definition metaFromWallet :: "wallet \<Rightarrow> walletMeta" where
  "metaFromWallet w =
     \<lparr>wm_ID = w_ID w, wm_Number = w_Number w, wm_ProfileID = w_ProfileID w, wm_MerchantID = w_MerchantID w, wm_Status = w_Status w,
      wm_Currency = w_Currency w, wm_ProfileName = p_FullName (w_Profile w),
      wm_MerchantName = (case w_Merchant w of Some m \<Rightarrow> p_FullName m | None \<Rightarrow> [])\<rparr>"

text \<open>A wallet with only the columns of the metadata query; everything else is zero.\<close>

definition bare_wallet :: "uuid \<Rightarrow> string \<Rightarrow> uuid \<Rightarrow> uuid option \<Rightarrow> wallet_status \<Rightarrow> string \<Rightarrow> profile \<Rightarrow> profile option \<Rightarrow> wallet" where
  "bare_wallet i number prof mer st cur p m =
     \<lparr>w_ID = i, w_Number = number, w_ProfileID = prof, w_MerchantID = mer, w_Status = st, w_Currency = cur, w_AvailableBalance = 0,
      w_ProcessingBalance = 0, w_ActualBalance = 0, w_Checksum = [], w_Version = 0, w_CreatedAt = zero_time, w_UpdatedAt = zero_time,
      w_Profile = p, w_Merchant = m\<rparr>"

definition toWallet :: "walletMeta \<Rightarrow> wallet" where
  "toWallet m = bare_wallet (wm_ID m) (wm_Number m) (wm_ProfileID m) (wm_MerchantID m) (wm_Status m) (wm_Currency m)
     (empty_profile\<lparr>p_ID := wm_ProfileID m, p_FullName := wm_ProfileName m\<rparr>)
     (map_option (\<lambda>i. empty_profile\<lparr>p_ID := i, p_FullName := wm_MerchantName m\<rparr>) (wm_MerchantID m))"

text \<open>The insert and the checksum stamp, one database transaction. The id and the number come from the database.\<close>

definition new_wallet :: "ctx \<Rightarrow> uuid \<Rightarrow> string \<Rightarrow> uuid \<Rightarrow> uuid \<Rightarrow> string \<Rightarrow> wallet" where
  "new_wallet c i number prof mer cur =
     (let w = (bare_wallet i number prof (Some mer) WalletStatusActive cur empty_profile None)\<lparr>w_CreatedAt := now c, w_UpdatedAt := now c\<rparr>
      in w\<lparr>w_Checksum := ComputeChecksum c w\<rparr>)"

definition insert_wallet :: "ctx \<Rightarrow> uuid \<Rightarrow> uuid \<Rightarrow> string \<Rightarrow> svc \<Rightarrow> (string + wallet) \<times> svc" where
  "insert_wallet c prof mer cur s0 =
     (let (f, s1) = svc_call c s0;
          i = new_uuid c (n_uuid (sv_world s1));
          row = new_wallet c i (''W'' @ nat_digits (100000 + sv_seq s1)) prof mer cur;
          s2 = s1\<lparr>sv_seq := Suc (sv_seq s1), sv_world := (sv_world s1)\<lparr>n_uuid := Suc (n_uuid (sv_world s1))\<rparr>\<rparr>;
          s3 = s2\<lparr>sv_wids := sv_wids s2 @ [i], sv_world := (sv_world s2)\<lparr>wallets := (wallets (sv_world s2))(i \<mapsto> row)\<rparr>\<rparr> in
      (case f of
         Failed m \<Rightarrow> (Inl m, s1)
       | _ \<Rightarrow>
           if wallets (sv_world s1) i \<noteq> None then (Inl ''duplicate key value violates unique constraint'', s2)
           else (case f of LostAck m \<Rightarrow> (Inl m, s3) | _ \<Rightarrow> (Inr row, s3))))"

definition cacheWallet :: "ctx \<Rightarrow> wallet \<Rightarrow> svc \<Rightarrow> svc" where
  "cacheWallet c wl s =
     with_cache (Cache_Set c meta_codec (WalletMetaKey (str_uuid c (w_ID wl))) (metaFromWallet wl) walletMetaTTL)
       (with_cache (Cache_Set c wallet_codec (WalletNumberKey (w_Number wl)) (walletToDto c wl) walletReadTTL)
         (with_cache (Cache_Set c wallet_codec (WalletKey (str_uuid c (w_ID wl))) (walletToDto c wl) walletReadTTL) s))"

definition wallet_Create :: "ctx \<Rightarrow> WalletReqDto \<Rightarrow> svc \<Rightarrow> (service_error + WalletResDto) \<times> svc" where
  "wallet_Create c payload s0 =
     (case FindByIDs c [wq_ProfileID payload, wq_MerchantID payload] s0 of
        (Inl e, s1) \<Rightarrow> (Inl e, s1)
      | (Inr profiles, s1) \<Rightarrow>
          (case profiles (wq_ProfileID payload) of
             None \<Rightarrow> (Inl (notFound [Txt ''profile not found'']), s1)
           | Some prof \<Rightarrow>
          (case profiles (wq_MerchantID payload) of
             None \<Rightarrow> (Inl (notFound [Txt ''merchant not found'']), s1)
           | Some mer \<Rightarrow>
          (case Lookup (unicode_upper c) (wq_Currency payload) of
             None \<Rightarrow> (Inl (invalid [Txt ''currency '', Quoted (wq_Currency payload),
                       Txt '' is not a supported ISO 4217 code (see GET /v1/currencies)'']), s1)
           | Some code \<Rightarrow>
               (case insert_wallet c (p_ID prof) (p_ID mer) (c_Code code) s1 of
                  (Inl m, s2) \<Rightarrow> (Inl (other_error (''create wallet: '' @ m)), s2)
                | (Inr row, s2) \<Rightarrow>
                    (let wl = row\<lparr>w_Profile := prof, w_Merchant := Some mer\<rparr>
                     in (Inr (walletToDto c wl), cacheWallet c wl s2)))))))"

section \<open>The metadata check\<close>

fun unique_ids :: "uuid list \<Rightarrow> uuid list \<Rightarrow> uuid list" where
  "unique_ids seen [] = []"
| "unique_ids seen (i # is) = (if i \<in> set seen then unique_ids seen is else i # unique_ids (i # seen) is)"

text \<open>The columns of the query for the wallets not cached.\<close>

definition meta_row :: "profile list \<Rightarrow> wallet \<Rightarrow> wallet" where
  "meta_row ps row = (let r = withOwners ps row in
     bare_wallet (w_ID r) (w_Number r) (w_ProfileID r) (w_MerchantID r) (w_Status r) (w_Currency r) (w_Profile r) (w_Merchant r))"

definition cache_metas :: "ctx \<Rightarrow> wallet list \<Rightarrow> svc \<Rightarrow> svc" where
  "cache_metas c rows s = foldl (\<lambda>s wl.
     with_cache (Cache_Set c meta_codec (WalletMetaKey (str_uuid c (w_ID wl))) (metaFromWallet wl) walletMetaTTL) s) s rows"

fun check_active :: "ctx \<Rightarrow> (uuid \<Rightarrow> wallet option) \<Rightarrow> uuid list \<Rightarrow> service_error option" where
  "check_active c byID [] = None"
| "check_active c byID (i # is) =
     (case byID i of
        None \<Rightarrow> Some (notFound [Txt (''wallet '' @ str_uuid c i @ '' not found'')])
      | Some wl \<Rightarrow>
          if w_Status wl \<noteq> WalletStatusActive then Some (invalid [Txt (''wallet '' @ str_uuid c i @ '' is '' @ w_Status wl)])
          else check_active c byID is)"

definition checked :: "ctx \<Rightarrow> (uuid \<Rightarrow> wallet option) \<Rightarrow> uuid list \<Rightarrow> service_error + (uuid \<Rightarrow> wallet option)" where
  "checked c byID ids = (case check_active c byID ids of Some e \<Rightarrow> Inl e | None \<Rightarrow> Inr byID)"

definition ValidateWallets :: "ctx \<Rightarrow> uuid list \<Rightarrow> svc \<Rightarrow> (service_error + (uuid \<Rightarrow> wallet option)) \<times> svc" where
  "ValidateWallets c ids s0 =
     (if ids = [] then (Inl (invalid [Txt ''no wallets supplied'']), s0)
      else
        (let unique = unique_ids [] ids;
             (metas, ch) = Cache_GetMany c meta_codec (map (\<lambda>i. WalletMetaKey (str_uuid c i)) unique) (sv_cache s0);
             s1 = s0\<lparr>sv_cache := ch\<rparr>;
             found = zip unique metas;
             byID = (\<lambda>i. case map_of found i of Some (Some m) \<Rightarrow> Some (toWallet m) | _ \<Rightarrow> None);
             missing = map fst (filter (\<lambda>f. snd f = None) found) in
         if missing = [] then (checked c byID ids, s1)
         else
           (let (err, s2) = svc_query c s1 in
            (case err of
               Some m \<Rightarrow> (Inl (other_error (''load wallets: '' @ m)), s2)
             | None \<Rightarrow>
                 (let rows = map (meta_row (sv_profiles s2)) (List.map_filter (wallets (sv_world s2)) missing)
                  in (checked c (byID ++ map_of (map (\<lambda>r. (w_ID r, r)) rows)) ids, cache_metas c rows s2))))))"

end
