(* ===== verification/Wallet_Reads.thy ===== *)
theory Wallet_Reads
  imports Wallet_Service
begin

text \<open>
  What the wallet reads promise, across the WalletService, the cache and the WalletActor. The invariant
  \<open>wallets_ok\<close>: the table is well formed, every cached wallet is the current row with its owners' names, and every
  cached metadata entry has the row's true owners and currency (its status may be older).
\<close>

section \<open>Invariant\<close>

definition shown :: "ctx \<Rightarrow> svc \<Rightarrow> wallet \<Rightarrow> WalletResDto" where
  "shown c s row = walletToDto c (withOwners (sv_profiles s) row)"

definition wallet_true :: "ctx \<Rightarrow> svc \<Rightarrow> string \<Rightarrow> WalletResDto \<Rightarrow> bool" where
  "wallet_true c s k d \<longleftrightarrow> (\<exists>row. wallets (sv_world s) (w_ID row) = Some row \<and> d = shown c s row \<and>
     (k = WalletKey (str_uuid c (w_ID row)) \<or> k = WalletNumberKey (w_Number row)))"

definition same_meta :: "walletMeta \<Rightarrow> wallet \<Rightarrow> bool" where
  "same_meta m row \<longleftrightarrow> wm_ID m = w_ID row \<and> wm_Number m = w_Number row \<and> wm_ProfileID m = w_ProfileID row \<and>
     wm_MerchantID m = w_MerchantID row \<and> wm_Currency m = w_Currency row"

definition meta_true :: "ctx \<Rightarrow> svc \<Rightarrow> string \<Rightarrow> walletMeta \<Rightarrow> bool" where
  "meta_true c s k m \<longleftrightarrow> (\<exists>row. wallets (sv_world s) (w_ID row) = Some row \<and> same_meta m row \<and> k = WalletMetaKey (str_uuid c (w_ID row)))"

definition wallet_table_ok :: "svc \<Rightarrow> bool" where
  "wallet_table_ok s \<longleftrightarrow>
     (\<forall>i row. wallets (sv_world s) i = Some row \<longrightarrow> w_ID row = i \<and> i \<in> set (sv_wids s) \<and>
        (\<exists>p \<in> set (sv_profiles s). p_ID p = w_ProfileID row) \<and>
        (\<forall>m. w_MerchantID row = Some m \<longrightarrow> (\<exists>p \<in> set (sv_profiles s). p_ID p = m)) \<and>
        (\<exists>k < sv_seq s. w_Number row = ''W'' @ nat_digits (100000 + k))) \<and>
     (\<forall>i j r q. wallets (sv_world s) i = Some r \<longrightarrow> wallets (sv_world s) j = Some q \<longrightarrow> w_Number r = w_Number q \<longrightarrow> i = j) \<and>
     (\<forall>i \<in> set (sv_wids s). wallets (sv_world s) i \<noteq> None)"

definition wallets_ok :: "ctx \<Rightarrow> svc \<Rightarrow> bool" where
  "wallets_ok c s \<longleftrightarrow> wallet_table_ok s \<and>
     agrees (cache_view c wallet_codec) (wallet_true c s) (sv_cache s) \<and>
     agrees (cache_view c meta_codec) (meta_true c s) (sv_cache s)"

lemma wallet_keys [simp]:
  "WalletKey i = WalletKey j \<longleftrightarrow> i = j" "WalletNumberKey u = WalletNumberKey v \<longleftrightarrow> u = v" "WalletMetaKey i = WalletMetaKey j \<longleftrightarrow> i = j"
  "WalletKey i \<noteq> WalletNumberKey u" "WalletNumberKey u \<noteq> WalletKey i" "WalletKey i \<noteq> WalletMetaKey u" "WalletMetaKey u \<noteq> WalletKey i"
  "WalletNumberKey i \<noteq> WalletMetaKey u" "WalletMetaKey u \<noteq> WalletNumberKey i"
  by (simp_all add: WalletKey_def WalletNumberKey_def WalletMetaKey_def)

lemma wallet_table_okD:
  assumes "wallet_table_ok s" "wallets (sv_world s) i = Some row"
  shows "w_ID row = i" "i \<in> set (sv_wids s)" "\<exists>p \<in> set (sv_profiles s). p_ID p = w_ProfileID row"
    "w_MerchantID row = Some m \<Longrightarrow> \<exists>p \<in> set (sv_profiles s). p_ID p = m"
    "\<exists>k < sv_seq s. w_Number row = ''W'' @ nat_digits (100000 + k)"
    "wallets (sv_world s) j = Some q \<Longrightarrow> w_Number row = w_Number q \<Longrightarrow> i = j"
  using assms unfolding wallet_table_ok_def by blast+

text \<open>The invariant only looks at the tables and the cache.\<close>

lemma wallet_true_cong:
  "wallets (sv_world s') = wallets (sv_world s) \<Longrightarrow> sv_profiles s' = sv_profiles s \<Longrightarrow> wallet_true c s' = wallet_true c s"
  "wallets (sv_world s') = wallets (sv_world s) \<Longrightarrow> meta_true c s' = meta_true c s"
  by (intro ext, simp add: wallet_true_def shown_def)+ (intro ext, simp add: meta_true_def)

lemma wallet_true_mono:
  assumes "\<And>i row. wallets (sv_world s) i = Some row \<Longrightarrow> wallets (sv_world s') i = Some row \<and> shown c s' row = shown c s row"
  shows "wallet_true c s k d \<Longrightarrow> wallet_true c s' k d" "meta_true c s k m \<Longrightarrow> meta_true c s' k m"
  using assms unfolding wallet_true_def meta_true_def by metis+

lemma wallet_table_ok_cong:
  "wallets (sv_world s') = wallets (sv_world s) \<Longrightarrow> sv_profiles s' = sv_profiles s \<Longrightarrow> sv_wids s' = sv_wids s \<Longrightarrow> sv_seq s' = sv_seq s \<Longrightarrow>
   wallet_table_ok s' = wallet_table_ok s"
  by (simp add: wallet_table_ok_def)

lemma wallets_ok_cong:
  assumes "wallets (sv_world s') = wallets (sv_world s)" "sv_profiles s' = sv_profiles s" "sv_wids s' = sv_wids s" "sv_seq s' = sv_seq s"
    "cache_view c wallet_codec (sv_cache s') = cache_view c wallet_codec (sv_cache s)"
    "cache_view c meta_codec (sv_cache s') = cache_view c meta_codec (sv_cache s)"
  shows "wallets_ok c s' = wallets_ok c s"
  using assms wallet_true_cong [of s' s c] wallet_table_ok_cong [of s' s] by (simp add: wallets_ok_def agrees_def)

lemma wallets_ok_call [simp]: "wallets_ok c (snd (svc_call c s)) = wallets_ok c s"
  by (rule wallets_ok_cong) simp_all

lemma wallet_rows_set:
  assumes "wallet_table_ok s"
  shows "set (wallet_rows s) = ran (wallets (sv_world s))"
proof -
  have "set (wallet_rows s) = {row. \<exists>i \<in> set (sv_wids s). wallets (sv_world s) i = Some row}"
    by (force simp: wallet_rows_def List.map_filter_def)
  then show ?thesis using assms by (auto simp: ran_def wallet_table_ok_def)
qed

section \<open>Reading\<close>

text \<open>A cached read of a key whose selection finds only rows of that key.\<close>

lemma remember_wallet_spec:
  assumes "wallets_ok c s"
    and pick: "\<And>s'. wallets (sv_world s') = wallets (sv_world s) \<Longrightarrow> sv_wids s' = sv_wids s \<Longrightarrow> pick s' = pick s"
    and key: "\<And>row. pick s = Some row \<Longrightarrow> wallets (sv_world s) (w_ID row) = Some row \<and>
      (key = WalletKey (str_uuid c (w_ID row)) \<or> key = WalletNumberKey (w_Number row))"
  shows "wallets_ok c (snd (remember_wallet c key pick s))"
    and "fst (remember_wallet c key pick s) = Inr d \<Longrightarrow> wallet_true c s key d"
proof -
  have ag: "agrees (cache_view c wallet_codec) (wallet_true c s) (sv_cache s)"
    and agm: "agrees (cache_view c meta_codec) (meta_true c s) (sv_cache s)" and tab: "wallet_table_ok s"
    using assms(1) by (simp_all add: wallets_ok_def)
  obtain r ch s' where rem: "Remember c wallet_codec key walletReadTTL (load_wallet c pick) (sv_cache s) s = (r, ch, s')"
    by (metis prod_cases3)
  have p1: "pick (snd (svc_call c s)) = pick s" by (rule pick) simp_all
  have load: "wallet_true c s key x" if "load_wallet c pick s = (Inr x, w')" for x w'
    using that key by (auto simp: load_wallet_def split_beta Let_def p1 wallet_true_def shown_def split: option.splits)
  note rt = wallets_cached.remember_true [where c = c and true = "wallet_true c s" and load = "load_wallet c pick" and w = s and
      key = key and ttl = walletReadTTL, OF ag load, unfolded rem fst_conv snd_conv]
  have state: "s' = s \<or> s' = snd (svc_call c s)"
    using rem by (auto simp: Remember_def load_wallet_def split_beta Let_def split: option.splits)
  have metas: "agrees (cache_view c meta_codec) (meta_true c s) ch"
  proof -
    let ?g = "snd (Cache_Get c wallet_codec key (sv_cache s))"
    have g: "agrees (cache_view c meta_codec) (meta_true c s) ?g" using agm by (simp add: agrees_def)
    have "ch = ?g \<or> (\<exists>x. ch = Cache_Set c wallet_codec key x walletReadTTL ?g)"
      using rem by (auto simp: Remember_def split_beta split: option.splits sum.splits prod.splits)
    then show ?thesis using g by (auto intro!: other_codec_agrees)
  qed
  have same: "wallets (sv_world s') = wallets (sv_world s)" "sv_profiles s' = sv_profiles s" "sv_wids s' = sv_wids s" "sv_seq s' = sv_seq s"
    using state by auto
  show "wallets_ok c (snd (remember_wallet c key pick s))"
    using tab rt(1) metas same wallet_true_cong [of "s'\<lparr>sv_cache := ch\<rparr>" s c] wallet_table_ok_cong [of "s'\<lparr>sv_cache := ch\<rparr>" s]
    by (simp add: remember_wallet_def rem wallets_ok_def)
  show "fst (remember_wallet c key pick s) = Inr d \<Longrightarrow> wallet_true c s key d"
    using rt(2) by (simp add: remember_wallet_def rem)
qed

lemma wallet_Get_spec:
  assumes "wallets_ok c s" "uuid_codec c"
  shows "wallets_ok c (snd (wallet_Get c i s))"
    and "fst (wallet_Get c i s) = Inr d \<Longrightarrow> \<exists>row. wallets (sv_world s) i = Some row \<and> d = shown c s row"
proof -
  have key: "wallets (sv_world s) (w_ID row) = Some row \<and>
      (WalletKey (str_uuid c i) = WalletKey (str_uuid c (w_ID row)) \<or> WalletKey (str_uuid c i) = WalletNumberKey (w_Number row))"
    if "wallets (sv_world s) i = Some row" for row using that assms(1) by (auto simp: wallets_ok_def wallet_table_ok_def)
  note spec = remember_wallet_spec [OF assms(1), where pick = "\<lambda>s. wallets (sv_world s) i" and key = "WalletKey (str_uuid c i)", OF _ key]
  show "wallets_ok c (snd (wallet_Get c i s))" unfolding wallet_Get_def by (rule spec(1)) simp_all
  assume "fst (wallet_Get c i s) = Inr d"
  then have "wallet_true c s (WalletKey (str_uuid c i)) d" unfolding wallet_Get_def by (intro spec(2)) simp_all
  then show "\<exists>row. wallets (sv_world s) i = Some row \<and> d = shown c s row"
    using str_uuid_inject [OF assms(2)] by (auto simp: wallet_true_def)
qed

lemma wallet_GetByNumber_spec:
  assumes "wallets_ok c s"
  shows "wallets_ok c (snd (wallet_GetByNumber c number s))"
    and "fst (wallet_GetByNumber c number s) = Inr d \<Longrightarrow>
      \<exists>i row. wallets (sv_world s) i = Some row \<and> w_Number row = ToUpper (unicode_upper c) (TrimSpace number) \<and> d = shown c s row"
proof -
  let ?n = "ToUpper (unicode_upper c) (TrimSpace number)"
  let ?pick = "\<lambda>s. first_by w_ID (\<lambda>r. w_Number r = ?n) (wallet_rows s)"
  have tab: "wallet_table_ok s" using assms by (simp add: wallets_ok_def)
  have pick: "?pick s' = ?pick s" if "wallets (sv_world s') = wallets (sv_world s)" "sv_wids s' = sv_wids s" for s'
    using that by (simp add: wallet_rows_def)
  have key: "wallets (sv_world s) (w_ID row) = Some row \<and>
      (WalletNumberKey ?n = WalletKey (str_uuid c (w_ID row)) \<or> WalletNumberKey ?n = WalletNumberKey (w_Number row))"
    if "?pick s = Some row" for row
  proof -
    from first_by_Some [OF that] have "row \<in> ran (wallets (sv_world s))" "w_Number row = ?n" using wallet_rows_set [OF tab] by auto
    then show ?thesis using tab by (auto simp: ran_def wallet_table_ok_def)
  qed
  note spec = remember_wallet_spec [OF assms, where pick = ?pick and key = "WalletNumberKey ?n", OF pick key]
  show "wallets_ok c (snd (wallet_GetByNumber c number s))" unfolding wallet_GetByNumber_def Let_def by (rule spec(1))
  assume "fst (wallet_GetByNumber c number s) = Inr d"
  then have "wallet_true c s (WalletNumberKey ?n) d" unfolding wallet_GetByNumber_def Let_def by (intro spec(2))
  then show "\<exists>i row. wallets (sv_world s) i = Some row \<and> w_Number row = ?n \<and> d = shown c s row" by (metis wallet_true_def wallet_keys(2,5))
qed

section \<open>Creating\<close>

lemma agrees_mono: "agrees v P s \<Longrightarrow> (\<And>k x. P k x \<Longrightarrow> Q k x) \<Longrightarrow> agrees v Q s"
  by (simp add: agrees_def)

lemma new_wallet_fields [simp]:
  "w_ID (new_wallet c i n p m cur) = i" "w_Number (new_wallet c i n p m cur) = n" "w_ProfileID (new_wallet c i n p m cur) = p"
  "w_MerchantID (new_wallet c i n p m cur) = Some m" "w_Currency (new_wallet c i n p m cur) = cur"
  "w_Status (new_wallet c i n p m cur) = WalletStatusActive" "w_AvailableBalance (new_wallet c i n p m cur) = 0"
  "w_ProcessingBalance (new_wallet c i n p m cur) = 0" "w_ActualBalance (new_wallet c i n p m cur) = 0" "w_Version (new_wallet c i n p m cur) = 0"
  by (simp_all add: new_wallet_def bare_wallet_def Let_def)

lemma new_wallet_checksum: "w_Checksum (new_wallet c i n p m cur) = ComputeChecksum c (new_wallet c i n p m cur)"
  by (simp add: new_wallet_def Let_def)

text \<open>A new row, under a fresh id and a fresh number.\<close>

definition row_added :: "ctx \<Rightarrow> svc \<Rightarrow> wallet \<Rightarrow> svc \<Rightarrow> bool" where
  "row_added c s row s' \<longleftrightarrow> wallets (sv_world s) (w_ID row) = None \<and> wallets (sv_world s') = (wallets (sv_world s))(w_ID row \<mapsto> row) \<and>
     sv_wids s' = sv_wids s @ [w_ID row] \<and> sv_profiles s' = sv_profiles s \<and> sv_cache s' = sv_cache s \<and> sv_seq s' = Suc (sv_seq s) \<and>
     ledgers (sv_world s') = ledgers (sv_world s) \<and> w_Number row = ''W'' @ nat_digits (100000 + sv_seq s)"

lemma row_added_ok:
  assumes "wallets_ok c s" "row_added c s row s'" "\<exists>p \<in> set (sv_profiles s). p_ID p = w_ProfileID row"
    "\<forall>m. w_MerchantID row = Some m \<longrightarrow> (\<exists>p \<in> set (sv_profiles s). p_ID p = m)"
  shows "wallets_ok c s'"
proof -
  have n: "wallets (sv_world s) (w_ID row) = None" "wallets (sv_world s') = (wallets (sv_world s))(w_ID row \<mapsto> row)"
    "sv_wids s' = sv_wids s @ [w_ID row]" "sv_profiles s' = sv_profiles s" "sv_cache s' = sv_cache s" "sv_seq s' = Suc (sv_seq s)"
    "w_Number row = ''W'' @ nat_digits (100000 + sv_seq s)" using assms(2) by (simp_all add: row_added_def)
  have tab: "wallet_table_ok s" using assms(1) by (simp add: wallets_ok_def)
  have old: "w_Number r \<noteq> w_Number row" if r: "wallets (sv_world s) i = Some r" for i r
  proof -
    obtain k where "k < sv_seq s" "w_Number r = ''W'' @ nat_digits (100000 + k)" using wallet_table_okD(5) [OF tab r] by blast
    then show ?thesis using n(7) by (simp add: nat_digits_inject)
  qed
  have seq: "\<exists>k < Suc (sv_seq s). w_Number r = ''W'' @ nat_digits (100000 + k)" if "wallets (sv_world s) i = Some r" for i r
    using wallet_table_okD(5) [OF tab that] less_SucI by blast
  have "wallet_table_ok s'"
    unfolding wallet_table_ok_def n(2-4,6)
  proof (intro conjI allI impI ballI)
    fix i r assume "((wallets (sv_world s))(w_ID row \<mapsto> row)) i = Some r"
    then show "w_ID r = i" "i \<in> set (sv_wids s @ [w_ID row])" "\<exists>p \<in> set (sv_profiles s). p_ID p = w_ProfileID r"
      "\<exists>k < Suc (sv_seq s). w_Number r = ''W'' @ nat_digits (100000 + k)"
      using wallet_table_okD(1-3) [OF tab] assms(3) n(7) seq by (auto split: if_splits)
  next
    fix i r m assume "((wallets (sv_world s))(w_ID row \<mapsto> row)) i = Some r" "w_MerchantID r = Some m"
    then show "\<exists>p \<in> set (sv_profiles s). p_ID p = m" using wallet_table_okD(4) [OF tab] assms(4) by (auto split: if_splits)
  next
    fix i j r q assume "((wallets (sv_world s))(w_ID row \<mapsto> row)) i = Some r" "((wallets (sv_world s))(w_ID row \<mapsto> row)) j = Some q"
      "w_Number r = w_Number q"
    then show "i = j" using wallet_table_okD(6) [OF tab] old [of i r] old [of j q] by (auto split: if_splits)
  next
    fix i assume "i \<in> set (sv_wids s @ [w_ID row])"
    then show "((wallets (sv_world s))(w_ID row \<mapsto> row)) i \<noteq> None" using tab by (auto simp: wallet_table_ok_def)
  qed
  moreover have "wallets (sv_world s') i = Some r \<and> shown c s' r = shown c s r" if "wallets (sv_world s) i = Some r" for i r
    using that n(1,2,4) by (auto simp: shown_def)
  note wallet_true_mono [of s s' c, OF this]
  ultimately show ?thesis
    using assms(1) n(5) agrees_mono [of "cache_view c wallet_codec" "wallet_true c s" _ "wallet_true c s'"]
      agrees_mono [of "cache_view c meta_codec" "meta_true c s" _ "meta_true c s'"]
    by (simp add: wallets_ok_def)
qed

lemma insert_wallet_spec:
  obtains (refused) e where "fst (insert_wallet c prof mer cur s) = Inl e"
      "wallets (sv_world (snd (insert_wallet c prof mer cur s))) = wallets (sv_world s)"
      "sv_profiles (snd (insert_wallet c prof mer cur s)) = sv_profiles s" "sv_wids (snd (insert_wallet c prof mer cur s)) = sv_wids s"
      "sv_seq s \<le> sv_seq (snd (insert_wallet c prof mer cur s))" "sv_cache (snd (insert_wallet c prof mer cur s)) = sv_cache s"
      "ledgers (sv_world (snd (insert_wallet c prof mer cur s))) = ledgers (sv_world s)"
  | (added) row where "row_added c s row (snd (insert_wallet c prof mer cur s))" "\<exists>i n. row = new_wallet c i n prof mer cur"
      "\<forall>r. fst (insert_wallet c prof mer cur s) = Inr r \<longrightarrow> r = row"
proof -
  obtain f s1 where f: "svc_call c s = (f, s1)" by (cases "svc_call c s")
  have fr: "sv_profiles s1 = sv_profiles s" "sv_cache s1 = sv_cache s" "sv_seq s1 = sv_seq s" "sv_wids s1 = sv_wids s"
    "wallets (sv_world s1) = wallets (sv_world s)" "ledgers (sv_world s1) = ledgers (sv_world s)"
    using svc_call_frame [of c s] by (simp_all add: f)
  let ?row = "new_wallet c (new_uuid c (n_uuid (sv_world s1))) (''W'' @ nat_digits (100000 + sv_seq s1)) prof mer cur"
  show thesis
  proof (cases "(\<exists>m. f = Failed m) \<or> wallets (sv_world s) (new_uuid c (n_uuid (sv_world s1))) \<noteq> None")
    case True
    then have "\<exists>e. fst (insert_wallet c prof mer cur s) = Inl e"
      by (cases f) (auto simp: insert_wallet_def f Let_def fr)
    then show thesis using True by (auto simp: insert_wallet_def f Let_def fr intro!: refused split: fault.split)
  next
    case False
    then show thesis
      by (intro added [of ?row]) (cases f; auto simp: insert_wallet_def f Let_def fr row_added_def)+
  qed
qed

lemma cacheWallet_frame [simp]:
  "sv_world (cacheWallet c wl s) = sv_world s" "sv_profiles (cacheWallet c wl s) = sv_profiles s" "sv_wids (cacheWallet c wl s) = sv_wids s"
  "sv_seq (cacheWallet c wl s) = sv_seq s"
  by (simp_all add: cacheWallet_def)

lemma cacheWallet_ok:
  assumes "wallets_ok c s" "wallets (sv_world s) (w_ID row) = Some row" "walletToDto c wl = shown c s row"
    "w_ID wl = w_ID row" "w_Number wl = w_Number row" "same_meta (metaFromWallet wl) row"
  shows "wallets_ok c (cacheWallet c wl s)"
proof -
  let ?s1 = "with_cache (Cache_Set c wallet_codec (WalletKey (str_uuid c (w_ID wl))) (walletToDto c wl) walletReadTTL) s"
  let ?s2 = "with_cache (Cache_Set c wallet_codec (WalletNumberKey (w_Number wl)) (walletToDto c wl) walletReadTTL) ?s1"
  have ok: "agrees (cache_view c wallet_codec) (wallet_true c s) (sv_cache s)" "agrees (cache_view c meta_codec) (meta_true c s) (sv_cache s)"
    using assms(1) by (simp_all add: wallets_ok_def)
  have t: "wallet_true c s (WalletKey (str_uuid c (w_ID wl))) (walletToDto c wl)" "wallet_true c s (WalletNumberKey (w_Number wl)) (walletToDto c wl)"
    "meta_true c s (WalletMetaKey (str_uuid c (w_ID wl))) (metaFromWallet wl)"
    using assms(2-6) by (auto simp: wallet_true_def meta_true_def)
  have w2: "agrees (cache_view c wallet_codec) (wallet_true c s) (sv_cache ?s2)"
    using wallets_cached.typed.agrees_put [OF wallets_cached.typed.agrees_put [OF ok(1) t(1)] t(2)] by simp
  have m2: "agrees (cache_view c meta_codec) (meta_true c s) (sv_cache ?s2)" using ok(2) by (auto intro!: other_codec_agrees)
  have "agrees (cache_view c wallet_codec) (wallet_true c s) (sv_cache (cacheWallet c wl s))"
    "agrees (cache_view c meta_codec) (meta_true c s) (sv_cache (cacheWallet c wl s))"
    using other_codec_agrees [OF w2, of meta_codec] metas_cached.typed.agrees_put [OF m2 t(3)] by (simp_all add: cacheWallet_def)
  then show ?thesis
    using assms(1) wallet_true_cong [of "cacheWallet c wl s" s c] wallet_table_ok_cong [of "cacheWallet c wl s" s] by (simp add: wallets_ok_def)
qed

lemma wallets_ok_seq:
  assumes "wallets_ok c s" "wallets (sv_world s') = wallets (sv_world s)" "sv_profiles s' = sv_profiles s" "sv_wids s' = sv_wids s"
    "sv_cache s' = sv_cache s" "sv_seq s \<le> sv_seq s'"
  shows "wallets_ok c s'"
proof -
  have tab: "wallet_table_ok s" using assms(1) by (simp add: wallets_ok_def)
  have "wallet_table_ok s'"
    using tab unfolding wallet_table_ok_def assms(2-4) using less_le_trans [OF _ assms(6)] by blast
  then show ?thesis using assms wallet_true_cong [of s' s c] by (simp add: wallets_ok_def)
qed

lemma FindByIDs_spec:
  assumes "FindByIDs c ids s = (r, s')"
  shows "s' = snd (svc_call c s)" and "r = Inr ps \<Longrightarrow> ps i = Some p \<Longrightarrow> p \<in> set (sv_profiles s) \<and> p_ID p = i"
proof -
  have "p \<in> set (sv_profiles s) \<and> p_ID p = i"
    if "map_of (map (\<lambda>p. (p_ID p, p)) (rev (filter (\<lambda>p. p_ID p \<in> set ids) (sv_profiles s)))) i = Some p"
    using map_of_SomeD [OF that] by auto
  then show "s' = snd (svc_call c s)" "r = Inr ps \<Longrightarrow> ps i = Some p \<Longrightarrow> p \<in> set (sv_profiles s) \<and> p_ID p = i"
    using assms by (auto simp: FindByIDs_def split_beta Let_def split: option.splits)
qed

lemma owners_shown:
  assumes "distinct (map p_ID (sv_profiles s))" "prof \<in> set (sv_profiles s)" "mer \<in> set (sv_profiles s)"
    "w_ProfileID row = p_ID prof" "w_MerchantID row = Some (p_ID mer)"
  shows "walletToDto c (row\<lparr>w_Profile := prof, w_Merchant := Some mer\<rparr>) = shown c s row"
  using find_by_id [OF assms(1,2)] find_by_id [OF assms(1,3)] assms(4,5)
  by (simp add: walletToDto_def shown_def withOwners_def profile_by_id_def selectProfileName_def Let_def)

text \<open>What a creation can do: refuse, with the tables as they were, or add one row.\<close>

definition wallet_created :: "ctx \<Rightarrow> WalletReqDto \<Rightarrow> svc \<Rightarrow> WalletResDto \<Rightarrow> svc \<Rightarrow> bool" where
  "wallet_created c payload s d s' \<longleftrightarrow> (\<exists>n code row. Lookup (unicode_upper c) (wq_Currency payload) = Some code \<and>
     row = new_wallet c (wr_ID d) n (wq_ProfileID payload) (wq_MerchantID payload) (c_Code code) \<and> d = shown c s row \<and>
     wallets (sv_world s) (wr_ID d) = None \<and> wallets (sv_world s') = (wallets (sv_world s))(wr_ID d \<mapsto> row) \<and>
     ledgers (sv_world s') = ledgers (sv_world s))"

lemma wallet_Create_spec:
  assumes ok: "wallets_ok c s" and dist: "distinct (map p_ID (sv_profiles s))"
  shows "wallets_ok c (snd (wallet_Create c payload s))"
    and "fst (wallet_Create c payload s) = Inr d \<Longrightarrow> wallet_created c payload s d (snd (wallet_Create c payload s))"
proof -
  obtain r1 s1 where fi: "FindByIDs c [wq_ProfileID payload, wq_MerchantID payload] s = (r1, s1)" by fastforce
  have s1: "s1 = snd (svc_call c s)" by (rule FindByIDs_spec(1) [OF fi])
  then have ok1: "wallets_ok c s1" and p1: "sv_profiles s1 = sv_profiles s" and sw: "wallets (sv_world s1) = wallets (sv_world s)"
    and sl: "ledgers (sv_world s1) = ledgers (sv_world s)" using ok by simp_all
  let ?G = "\<lambda>r s'. wallets_ok c s' \<and> (\<forall>d. r = Inr d \<longrightarrow> wallet_created c payload s d s')"
  have "?G (fst (wallet_Create c payload s)) (snd (wallet_Create c payload s))"
  proof (cases "\<exists>ps prof mer code. r1 = Inr ps \<and> ps (wq_ProfileID payload) = Some prof \<and> ps (wq_MerchantID payload) = Some mer \<and>
      Lookup (unicode_upper c) (wq_Currency payload) = Some code")
    case False
    then have "\<exists>e. wallet_Create c payload s = (Inl e, s1)"
      by (auto simp: wallet_Create_def fi split: sum.splits option.splits)
    then show ?thesis using ok1 by auto
  next
    case True
    then obtain ps prof mer code where h: "r1 = Inr ps" "ps (wq_ProfileID payload) = Some prof" "ps (wq_MerchantID payload) = Some mer"
      "Lookup (unicode_upper c) (wq_Currency payload) = Some code" by blast
    note own = FindByIDs_spec(2) [OF fi h(1) h(2)] FindByIDs_spec(2) [OF fi h(1) h(3)]
    let ?ins = "insert_wallet c (p_ID prof) (p_ID mer) (c_Code code) s1"
    have e: "wallet_Create c payload s = (case ?ins of
        (Inl m, s2) \<Rightarrow> (Inl (other_error (''create wallet: '' @ m)), s2)
      | (Inr row, s2) \<Rightarrow> (Inr (walletToDto c (row\<lparr>w_Profile := prof, w_Merchant := Some mer\<rparr>)),
           cacheWallet c (row\<lparr>w_Profile := prof, w_Merchant := Some mer\<rparr>) s2))"
      using h by (simp add: wallet_Create_def fi Let_def split: prod.split sum.split)
    show ?thesis
    proof (cases rule: insert_wallet_spec [of c "p_ID prof" "p_ID mer" "c_Code code" s1])
      case (refused m)
      then have "wallets_ok c (snd ?ins)" by (intro wallets_ok_seq [OF ok1]) simp_all
      moreover have "wallet_Create c payload s = (Inl (other_error (''create wallet: '' @ m)), snd ?ins)"
        using e refused(1) by (simp add: split_beta)
      ultimately show ?thesis by simp
    next
      case (added row)
      let ?s2 = "snd ?ins"
      have row: "row = new_wallet c (w_ID row) (w_Number row) (p_ID prof) (p_ID mer) (c_Code code)" using added(2) by auto
      have f: "w_ProfileID row = p_ID prof" "w_MerchantID row = Some (p_ID mer)" "w_Currency row = c_Code code" by (subst row, simp)+
      have ok2: "wallets_ok c ?s2" using f own p1 by (intro row_added_ok [OF ok1 added(1)]) auto
      have ps2: "sv_profiles ?s2 = sv_profiles s" "wallets (sv_world ?s2) = (wallets (sv_world s))(w_ID row \<mapsto> row)"
        "wallets (sv_world s) (w_ID row) = None" "ledgers (sv_world ?s2) = ledgers (sv_world s)"
        using added(1) p1 sw sl by (simp_all add: row_added_def)
      let ?wl = "row\<lparr>w_Profile := prof, w_Merchant := Some mer\<rparr>"
      have dto: "walletToDto c ?wl = shown c s row" using dist own f by (intro owners_shown) auto
      then have dto2: "walletToDto c ?wl = shown c ?s2 row" using ps2(1) by (simp add: shown_def)
      have "wr_ID (shown c s row) = w_ID row" by (simp add: shown_def walletToDto_def withOwners_def Let_def)
      moreover have "wallets_ok c (cacheWallet c ?wl ?s2)"
        using ps2 dto2 by (intro cacheWallet_ok [OF ok2, of row]) (simp_all add: same_meta_def metaFromWallet_def)
      moreover have "wallet_Create c payload s = (case fst ?ins of
          Inl m \<Rightarrow> (Inl (other_error (''create wallet: '' @ m)), ?s2)
        | Inr r \<Rightarrow> (Inr (shown c s row), cacheWallet c ?wl ?s2))"
        using e added(3) dto by (cases "fst ?ins") (simp_all add: split_beta)
      moreover have "wallet_created c payload s (shown c s row) (cacheWallet c ?wl ?s2)"
        unfolding wallet_created_def using ps2 h(4) own row calculation(1)
        by (intro exI [of _ "w_Number row"] exI [of _ code] exI [of _ row]) simp
      ultimately show ?thesis using ok2 by (cases "fst ?ins") auto
    qed
  qed
  then show "wallets_ok c (snd (wallet_Create c payload s))"
    "fst (wallet_Create c payload s) = Inr d \<Longrightarrow> wallet_created c payload s d (snd (wallet_Create c payload s))" by blast+
qed

section \<open>The metadata check\<close>

definition true_wallet :: "wallet \<Rightarrow> wallet \<Rightarrow> bool" where
  "true_wallet wl row \<longleftrightarrow> w_ID wl = w_ID row \<and> w_Number wl = w_Number row \<and> w_ProfileID wl = w_ProfileID row \<and>
     w_MerchantID wl = w_MerchantID row \<and> w_Currency wl = w_Currency row"

lemma meta_row_fields [simp]:
  "w_ID (meta_row ps row) = w_ID row" "w_Status (meta_row ps row) = w_Status row" "true_wallet (meta_row ps row) row"
  "same_meta (metaFromWallet (meta_row ps row)) row"
  by (simp_all add: meta_row_def withOwners_def bare_wallet_def true_wallet_def same_meta_def metaFromWallet_def Let_def)

lemma toWallet_true: "same_meta m row \<Longrightarrow> true_wallet (toWallet m) row"
  by (simp add: same_meta_def true_wallet_def toWallet_def bare_wallet_def)

lemma unique_ids_set [simp]: "set (unique_ids seen is) = set is - set seen"
  by (induction seen "is" rule: unique_ids.induct) auto

lemma check_active_None: "check_active c byID is = None \<longleftrightarrow> (\<forall>i \<in> set is. \<exists>wl. byID i = Some wl \<and> w_Status wl = WalletStatusActive)"
  by (induction "is") (auto split: option.split)

lemma rows_lookup:
  assumes "\<And>i row. T i = Some row \<Longrightarrow> w_ID row = i"
  shows "map_of (map (\<lambda>r. (w_ID r, r)) (map (meta_row ps) (List.map_filter T is))) i =
    (if i \<in> set is then map_option (meta_row ps) (T i) else None)"
proof (induction "is")
  case (Cons j js)
  then show ?case using assms [of j] by (cases "T j") auto
qed simp

lemma rows_true:
  assumes "\<And>i row. T i = Some row \<Longrightarrow> w_ID row = i" "r \<in> set (map (meta_row ps) (List.map_filter T is))"
  shows "\<exists>row. T (w_ID row) = Some row \<and> w_ID r = w_ID row \<and> same_meta (metaFromWallet r) row"
proof -
  obtain i row where "T i = Some row" "r = meta_row ps row" using assms(2) by (auto simp: List.map_filter_def)
  then show ?thesis using assms(1) [of i row] by (intro exI [of _ row]) simp
qed

lemma cache_metas_frame [simp]:
  "sv_world (cache_metas c rows s) = sv_world s" "sv_profiles (cache_metas c rows s) = sv_profiles s"
  "sv_wids (cache_metas c rows s) = sv_wids s" "sv_seq (cache_metas c rows s) = sv_seq s"
  unfolding cache_metas_def by (induction rows arbitrary: s) simp_all

lemma cache_metas_ok:
  assumes "wallets_ok c s" "\<forall>r \<in> set rows. \<exists>row. wallets (sv_world s) (w_ID row) = Some row \<and> w_ID r = w_ID row \<and> same_meta (metaFromWallet r) row"
  shows "wallets_ok c (cache_metas c rows s)"
  using assms
proof (induction rows arbitrary: s)
  case Nil
  then show ?case by (simp add: cache_metas_def)
next
  case (Cons r rows)
  let ?s1 = "with_cache (Cache_Set c meta_codec (WalletMetaKey (str_uuid c (w_ID r))) (metaFromWallet r) walletMetaTTL) s"
  have t: "meta_true c s (WalletMetaKey (str_uuid c (w_ID r))) (metaFromWallet r)" using Cons.prems(2) by (auto simp: meta_true_def)
  have ok: "wallet_table_ok s" "agrees (cache_view c wallet_codec) (wallet_true c s) (sv_cache s)"
    "agrees (cache_view c meta_codec) (meta_true c s) (sv_cache s)" using Cons.prems(1) by (simp_all add: wallets_ok_def)
  have "wallets_ok c ?s1"
    using ok(1) other_codec_agrees [OF ok(2), of meta_codec] metas_cached.typed.agrees_put [OF ok(3) t]
      wallet_true_cong [of ?s1 s c] wallet_table_ok_cong [of ?s1 s] by (simp add: wallets_ok_def)
  from Cons.IH [OF this] Cons.prems(2) show ?case by (simp add: cache_metas_def)
qed

text \<open>The state of the check after its reads, and what it looked up.\<close>

lemma ValidateWallets_cases:
  assumes "wallets_ok c s" "uuid_codec c" "ids \<noteq> []"
  obtains (failed) e where "fst (ValidateWallets c ids s) = Inl (other_error e)" "\<not> faultless c" "wallets_ok c (snd (ValidateWallets c ids s))"
  | (looked_up) byID where "fst (ValidateWallets c ids s) = checked c byID ids" "wallets_ok c (snd (ValidateWallets c ids s))"
      "\<And>i wl. byID i = Some wl \<Longrightarrow> \<exists>row. wallets (sv_world s) i = Some row \<and> true_wallet wl row"
      "\<And>i. \<not> Enabled (sv_cache s) \<Longrightarrow> i \<in> set ids \<Longrightarrow> byID i = map_option (meta_row (sv_profiles s)) (wallets (sv_world s) i)"
proof -
  let ?u = "unique_ids [] ids"
  let ?many = "Cache_GetMany c meta_codec (map (\<lambda>i. WalletMetaKey (str_uuid c i)) ?u) (sv_cache s)"
  let ?s1 = "s\<lparr>sv_cache := snd ?many\<rparr>" and ?found = "zip ?u (fst ?many)"
  let ?byID = "\<lambda>i. case map_of ?found i of Some (Some m) \<Rightarrow> Some (toWallet m) | _ \<Rightarrow> None"
  let ?missing = "map fst (filter (\<lambda>f. snd f = None) ?found)"
  let ?rows = "map (meta_row (sv_profiles s)) (List.map_filter (wallets (sv_world s)) ?missing)"
  have tab: "wallet_table_ok s" and ag: "agrees (cache_view c meta_codec) (meta_true c s) (sv_cache s)"
    using assms(1) by (simp_all add: wallets_ok_def)
  have ok1: "wallets_ok c ?s1" using assms(1) by (subst wallets_ok_cong [of _ s]) simp_all
  have ok2: "wallets_ok c (cache_metas c ?rows (snd (svc_call c ?s1)))"
    using ok1 rows_true [of "wallets (sv_world s)", OF wallet_table_okD(1) [OF tab]] by (intro cache_metas_ok) simp_all
  have hit: "\<exists>row. wallets (sv_world s) i = Some row \<and> true_wallet wl row" if b: "?byID i = Some wl" for i wl
  proof -
    obtain m where "(i, Some m) \<in> set ?found" and wl: "wl = toWallet m"
      using b map_of_SomeD [of ?found i] by (auto split: option.splits)
    then obtain n where n: "n < length ?u" "?u ! n = i" "fst ?many ! n = Some m" by (auto simp: set_zip)
    have "cache_view c meta_codec (sv_cache s) (WalletMetaKey (str_uuid c i)) = Some m"
      using GetMany_served [of n "map (\<lambda>i. WalletMetaKey (str_uuid c i)) ?u" c meta_codec "sv_cache s" m] n by simp
    then have "meta_true c s (WalletMetaKey (str_uuid c i)) m" using ag by (simp add: agrees_def)
    then show ?thesis using wl toWallet_true str_uuid_inject [OF assms(2)] by (auto simp: meta_true_def)
  qed
  have rows: "map_of (map (\<lambda>r. (w_ID r, r)) ?rows) i =
      (if i \<in> set ?missing then map_option (meta_row (sv_profiles s)) (wallets (sv_world s) i) else None)" for i
    by (rule rows_lookup) (rule wallet_table_okD(1) [OF tab])
  have off: "?missing = ?u" "?byID = (\<lambda>i. None)" if "\<not> Enabled (sv_cache s)"
  proof -
    have f: "fst ?many = map (\<lambda>k. None) ?u" using that by (simp add: Cache_GetMany_def)
    have "map fst (filter (\<lambda>f. snd f = None) (zip xs (map (\<lambda>k. None) xs))) = xs" for xs :: "uuid list" by (induction xs) simp_all
    then show "?missing = ?u" unfolding f .
    have "map_of (zip xs (map (\<lambda>k. None) xs)) i \<noteq> Some (Some m)" for xs :: "uuid list" and i and m :: walletMeta
      using map_of_SomeD [of "zip xs (map (\<lambda>k. None) xs)" i "Some m"] by (auto simp: set_zip)
    then show "?byID = (\<lambda>i. None)" unfolding f by (auto intro!: ext split: option.split)
  qed
  have un: "?u \<noteq> []" using assms(3) unique_ids_set [of "[]" ids] by (metis Diff_empty list.set(1) set_empty)
  note V = ValidateWallets_def [of c ids s, unfolded split_beta Let_def svc_query_state]
  show thesis
  proof (cases "?missing = []")
    case True
    then show thesis
      by (intro looked_up [of ?byID]) (use assms(3) ok1 hit off un in \<open>auto simp: V\<close>)
  next
    case False
    show thesis
    proof (cases "fst (svc_query c ?s1)")
      case (Some m)
      have "\<not> faultless c" using Some by auto
      then show thesis using False Some assms(3) ok1 by (intro failed [of "''load wallets: '' @ m"]) (auto simp: V)
    next
      case None
      have e: "ValidateWallets c ids s = (checked c (?byID ++ map_of (map (\<lambda>r. (w_ID r, r)) ?rows)) ids, cache_metas c ?rows (snd (svc_call c ?s1)))"
        using False None assms(3) by (simp add: V)
      show thesis
      proof (rule looked_up [of "?byID ++ map_of (map (\<lambda>r. (w_ID r, r)) ?rows)"])
        fix i wl assume "(?byID ++ map_of (map (\<lambda>r. (w_ID r, r)) ?rows)) i = Some wl"
        then show "\<exists>row. wallets (sv_world s) i = Some row \<and> true_wallet wl row"
          unfolding map_add_Some_iff rows using hit [of i wl] by (auto split: if_splits)
      next
        fix i assume d: "\<not> Enabled (sv_cache s)" "i \<in> set ids"
        have "i \<in> set ?missing" using d(2) unfolding off(1) [OF d(1)] by simp
        moreover have "?byID i = None" using off(2) [OF d(1)] by (rule fun_cong)
        ultimately show "(?byID ++ map_of (map (\<lambda>r. (w_ID r, r)) ?rows)) i = map_option (meta_row (sv_profiles s)) (wallets (sv_world s) i)"
          unfolding map_add_def rows by (simp split: option.split)
      qed (use e ok2 in simp_all)
    qed
  qed
qed

section \<open>Invalidation by the WalletActor\<close>

definition no_lost_acks :: "ctx \<Rightarrow> bool" where "no_lost_acks c \<longleftrightarrow> (\<forall>n m. fault c n \<noteq> LostAck m)"

definition unmoved :: "world \<Rightarrow> world \<Rightarrow> bool" where
  "unmoved w w' \<longleftrightarrow> same_tables w w' \<and> evicted w' = evicted w"

text \<open>Either nothing changes, or one row does, and both its keys are invalidated.\<close>

definition touched :: "ctx \<Rightarrow> world \<Rightarrow> world \<Rightarrow> bool" where
  "touched c w w' \<longleftrightarrow> unmoved w w' \<or>
     (\<exists>wl row. wallets w (w_ID wl) = Some wl \<and> true_wallet row wl \<and> wallets w' = (wallets w)(w_ID wl \<mapsto> row) \<and>
        evicted w' = evicted w @ [WalletKey (str_uuid c (w_ID wl)), WalletNumberKey (w_Number wl)])"

lemma unmoved_refl [simp]: "unmoved w w"
  by (simp add: unmoved_def)

lemma touched_after: "unmoved w w1 \<Longrightarrow> touched c w1 w' \<Longrightarrow> touched c w w'"
  unfolding touched_def unmoved_def same_tables_def by simp

lemma load_unmoved: "unmoved w (snd (load c i w))"
  by (simp add: load_def db_call_def Let_def unmoved_def same_tables_def)

lemma current_unmoved: "unmoved w (snd (snd (current c i a w)))"
  using load_unmoved [of w c i] by (auto simp: current_def split: option.split prod.split sum.split)

lemma findLedger_unmoved: "unmoved w (snd (findLedger c i k w))"
  by (simp add: findLedger_def db_call_def Let_def unmoved_def same_tables_def)

lemma persist_touched:
  assumes "quiet c" "no_lost_acks c" "wallets w (w_ID wl) = Some wl" "persist c wl action txID key amount purpose a w = (r, a', w')"
  shows "touched c w w'" "r = Inl e \<Longrightarrow> unmoved w w'"
proof -
  have q: "interfere c n t = t" for n t using assms(1) by (simp add: quiet_def)
  have l: "fault c n \<noteq> LostAck m" for n m using assms(2) by (simp add: no_lost_acks_def)
  let ?row = "write_wallet c (next_wallet c wl action amount) wl"
  have row: "true_wallet ?row wl" by (simp add: true_wallet_def write_wallet_def)
  have "(\<exists>e. r = Inl e) \<and> unmoved w w' \<or> (\<exists>x. r = Inr x) \<and> wallets w' = (wallets w)(w_ID wl \<mapsto> ?row) \<and>
      evicted w' = evicted w @ [WalletKey (str_uuid c (w_ID wl)), WalletNumberKey (w_Number wl)]"
    using assms(3,4) l
    by (auto simp: persist_def Let_def db_call_def q unmoved_def same_tables_def cache_Delete_def split: if_splits fault.splits)
  then show "touched c w w'" "r = Inl e \<Longrightarrow> unmoved w w'" using row assms(3) unfolding touched_def by auto
qed

lemma wa_attempts_touched:
  assumes "quiet c" "no_lost_acks c" "books c op w" "coherent a w"
  shows "touched c w (snd (snd (wa_attempts c n lastErr action i txID key amount purpose a w)))"
  using assms(3,4)
proof (induction n arbitrary: a w lastErr)
  case 0
  then show ?case by (simp add: touched_def)
next
  case (Suc n)
  obtain rc a1 w1 where cur: "current c i a w = (rc, a1, w1)" by (metis prod_cases3)
  have u1: "unmoved w w1" using current_unmoved [of w c i a] by (simp add: cur)
  have c1: "same_tables w w1" "\<And>wl. rc = Inr wl \<Longrightarrow> wallets w i = Some wl \<and> w_ID wl = i"
    using current_spec [OF cur Suc.prems(2,1)] by auto
  show ?case
  proof (cases "\<exists>wl. rc = Inr wl \<and> \<not> (action = LedgerTypeDebit \<and> w_AvailableBalance wl < amount)")
    case False
    then have "snd (snd (wa_attempts c (Suc n) lastErr action i txID key amount purpose a w)) = w1"
      using cur by (auto split: sum.split)
    then show ?thesis using u1 by (simp add: touched_def)
  next
    case True
    then obtain wl where wl: "rc = Inr wl" "\<not> (action = LedgerTypeDebit \<and> w_AvailableBalance wl < amount)" by blast
    obtain rp a2 w2 where p: "persist c wl action txID key amount purpose a1 w1 = (rp, a2, w2)" by (metis prod_cases3)
    have row: "wallets w1 (w_ID wl) = Some wl" using c1 wl(1) by (simp add: same_tables_def)
    note t = persist_touched [OF assms(1,2) row p]
    have tw: "touched c w w2" using touched_after [OF u1 t(1)] .
    have again: "touched c w (snd (snd (wa_attempts c n err action i txID key amount purpose (a2\<lparr>wa_wallet := None\<rparr>) w2)))"
      if "rp = Inl err" for err
    proof -
      have u: "unmoved w w2" using u1 t(2) [OF that] by (simp add: unmoved_def same_tables_def)
      then have "books c op w2" using Suc.prems(1) same_tables_books [of w w2] by (simp add: unmoved_def)
      then show ?thesis by (intro touched_after [OF u] Suc.IH) (simp_all add: coherent_def)
    qed
    show ?thesis
      using cur wl p tw again by (auto simp: Let_def split: sum.split)
  qed
qed

lemma wa_handle_touched:
  assumes "quiet c" "no_lost_acks c" "books c op w" "coherent a w"
  shows "touched c w (snd (snd (wa_handle c action m a w)))"
proof -
  have "touched c w (snd (snd (wa_apply c action ws ts ks amount purpose a w)))" for ws ts ks amount purpose
  proof (cases "\<exists>i t k. parse_uuid c ws = Some i \<and> parse_uuid c ts = Some t \<and> parse_uuid c ks = Some k \<and> \<not> amount \<le> 0 \<and>
      \<not> (wa_walletID a \<noteq> uuid_Nil \<and> wa_walletID a \<noteq> i)")
    case False
    then show ?thesis by (auto simp: wa_apply_def touched_def split: option.split)
  next
    case True
    then obtain i t k where h: "parse_uuid c ws = Some i" "parse_uuid c ts = Some t" "parse_uuid c ks = Some k" "\<not> amount \<le> 0"
      "\<not> (wa_walletID a \<noteq> uuid_Nil \<and> wa_walletID a \<noteq> i)" by blast
    obtain rf w1 where fl: "findLedger c i k w = (rf, w1)" by fastforce
    have u: "unmoved w w1" using findLedger_unmoved [of w c i k] by (simp add: fl)
    then have b: "books c op w1" "coherent a w1"
      using assms(3,4) same_tables_books [of w w1] same_tables_coherent [of w w1] by (simp_all add: unmoved_def)
    have "touched c w (snd (snd (wa_attempts c maxVersionRetries (OtherErr []) action i t k amount purpose a w1)))"
      by (rule touched_after [OF u wa_attempts_touched [OF assms(1,2) b]])
    then show ?thesis using h fl u by (auto simp: wa_apply_def touched_def split: sum.split option.split)
  qed
  then show ?thesis by (simp add: wa_handle_def Let_def split: prod.split sum.split) (metis snd_conv)
qed

text \<open>One message to a WalletActor, with the invalidations it asks for.\<close>

definition deliver :: "ctx \<Rightarrow> wallet_msg \<Rightarrow> wallet_actor \<Rightarrow> svc \<Rightarrow> WalletResultMsg \<times> wallet_actor \<times> svc" where
  "deliver c m a s =
     (case wa_handle c (wallet_msg_action m) (wallet_msg_op m) a (sv_world s) of
        (reply, a', w') \<Rightarrow>
          (reply, a', with_cache (Cache_Delete c (drop (length (evicted (sv_world s))) (evicted w'))) (s\<lparr>sv_world := w'\<rparr>)))"

lemma moved_row_table:
  assumes "wallet_table_ok s" "wallets (sv_world s) (w_ID wl) = Some wl" "true_wallet row wl"
    "wallets (sv_world s') = (wallets (sv_world s))(w_ID wl \<mapsto> row)" "sv_profiles s' = sv_profiles s" "sv_wids s' = sv_wids s" "sv_seq s' = sv_seq s"
  shows "wallet_table_ok s'"
proof -
  have old: "\<exists>r0. wallets (sv_world s) i = Some r0 \<and> true_wallet r r0" if "wallets (sv_world s') i = Some r" for i r
    using that assms(2-4) by (cases "i = w_ID wl") (auto simp: true_wallet_def)
  show ?thesis
    unfolding wallet_table_ok_def assms(5-7)
  proof (intro conjI allI impI ballI)
    fix i r assume r: "wallets (sv_world s') i = Some r"
    obtain r0 where r0: "wallets (sv_world s) i = Some r0" "true_wallet r r0" using old [OF r] by blast
    show "w_ID r = i" "i \<in> set (sv_wids s)" "\<exists>p \<in> set (sv_profiles s). p_ID p = w_ProfileID r"
      "\<exists>k < sv_seq s. w_Number r = ''W'' @ nat_digits (100000 + k)"
      using wallet_table_okD [OF assms(1) r0(1)] r0(2) by (auto simp: true_wallet_def)
    show "\<exists>p \<in> set (sv_profiles s). p_ID p = m" if "w_MerchantID r = Some m" for m
      using wallet_table_okD(4) [OF assms(1) r0(1)] r0(2) that by (auto simp: true_wallet_def)
  next
    fix i j r q assume "wallets (sv_world s') i = Some r" "wallets (sv_world s') j = Some q" "w_Number r = w_Number q"
    then show "i = j" using old [of i r] old [of j q] wallet_table_okD(6) [OF assms(1)] by (fastforce simp: true_wallet_def)
  next
    fix i assume "i \<in> set (sv_wids s)"
    then show "wallets (sv_world s') i \<noteq> None" using assms(1,4) by (auto simp: wallet_table_ok_def)
  qed
qed

lemma deliver_ok:
  assumes "wallets_ok c s" "touched c (sv_world s) w'" "\<forall>n m. cache_fault c n \<noteq> Failed m"
  shows "wallets_ok c (with_cache (Cache_Delete c (drop (length (evicted (sv_world s))) (evicted w'))) (s\<lparr>sv_world := w'\<rparr>))"
  (is "wallets_ok c ?s'")
  using assms(2) unfolding touched_def
proof (elim disjE exE conjE)
  assume "unmoved (sv_world s) w'"
  then show ?thesis using assms(1) by (subst wallets_ok_cong [of _ s]) (simp_all add: unmoved_def same_tables_def Cache_Delete_def)
next
  fix wl row assume h: "wallets (sv_world s) (w_ID wl) = Some wl" "true_wallet row wl" "wallets w' = (wallets (sv_world s))(w_ID wl \<mapsto> row)"
    "evicted w' = evicted (sv_world s) @ [WalletKey (str_uuid c (w_ID wl)), WalletNumberKey (w_Number wl)]"
  let ?ks = "[WalletKey (str_uuid c (w_ID wl)), WalletNumberKey (w_Number wl)]"
  have tab: "wallet_table_ok s" and ag: "agrees (cache_view c wallet_codec) (wallet_true c s) (sv_cache s)"
    "agrees (cache_view c meta_codec) (meta_true c s) (sv_cache s)" using assms(1) by (simp_all add: wallets_ok_def)
  have ch: "sv_cache ?s' = Cache_Delete c ?ks (sv_cache s)" by (simp add: h(4))
  have "wallet_true c ?s' k d" if v: "cache_view c wallet_codec (sv_cache ?s') k = Some d" for k d
  proof -
    have k: "k \<notin> set ?ks" using v Delete_gone [OF assms(3), of k ?ks wallet_codec "sv_cache s"] unfolding ch by auto
    have "wallet_true c s k d" using ag(1) Delete_view [OF v [unfolded ch]] by (simp add: agrees_def)
    then obtain r where r: "wallets (sv_world s) (w_ID r) = Some r" "d = shown c s r"
      "k = WalletKey (str_uuid c (w_ID r)) \<or> k = WalletNumberKey (w_Number r)" unfolding wallet_true_def by blast
    have "w_ID r \<noteq> w_ID wl"
    proof
      assume "w_ID r = w_ID wl"
      then have "r = wl" using r(1) h(1) by (metis option.inject)
      then show False using k r(3) by auto
    qed
    then show ?thesis unfolding wallet_true_def using r h(3) by (intro exI [of _ r]) (simp add: shown_def)
  qed
  moreover have "meta_true c ?s' k m" if v: "cache_view c meta_codec (sv_cache ?s') k = Some m" for k m
  proof -
    have "meta_true c s k m" using ag(2) Delete_view [OF v [unfolded ch]] by (simp add: agrees_def)
    then obtain r where r: "wallets (sv_world s) (w_ID r) = Some r" "same_meta m r" "k = WalletMetaKey (str_uuid c (w_ID r))"
      unfolding meta_true_def by blast
    show ?thesis
    proof (cases "w_ID r = w_ID wl")
      case True
      then have "r = wl" using r(1) h(1) by (metis option.inject)
      then show ?thesis
        unfolding meta_true_def using r(2,3) h(2,3) by (intro exI [of _ row]) (simp add: same_meta_def true_wallet_def)
    next
      case False
      then show ?thesis unfolding meta_true_def using r h(3) by (intro exI [of _ r]) simp
    qed
  qed
  moreover have "wallet_table_ok ?s'" by (rule moved_row_table [OF tab h(1,2)]) (simp_all add: h(3))
  ultimately show ?thesis by (simp add: wallets_ok_def agrees_def)
qed

end
