(* ===== verification/Wallet_Guarantees.thy ===== *)
theory Wallet_Guarantees
  imports Wallet_Reads
begin

text \<open>
  The properties of the WalletService, alone and together with the WalletActor: what creation, cached reads,
  the metadata check and invalidation guarantee.
\<close>

section \<open>Commands\<close>

datatype wallet_cmd = ReadWallet uuid | ReadNumber string | ListWallets WalletFilter pagination | CreateWallet WalletReqDto | CheckWallets "uuid list"

fun wallet_exec :: "ctx \<Rightarrow> svc \<Rightarrow> wallet_cmd \<Rightarrow> svc" where
  "wallet_exec c s (ReadWallet i) = snd (wallet_Get c i s)"
| "wallet_exec c s (ReadNumber n) = snd (wallet_GetByNumber c n s)"
| "wallet_exec c s (ListWallets f page) = snd (wallet_List c f page s)"
| "wallet_exec c s (CreateWallet payload) = snd (wallet_Create c payload s)"
| "wallet_exec c s (CheckWallets ids) = snd (ValidateWallets c ids s)"

lemma wallet_List_frame [simp]:
  "wallets (sv_world (snd (wallet_List c f page s))) = wallets (sv_world s)"
  "sv_profiles (snd (wallet_List c f page s)) = sv_profiles s" "sv_cache (snd (wallet_List c f page s)) = sv_cache s"
  "sv_wids (snd (wallet_List c f page s)) = sv_wids s" "sv_seq (snd (wallet_List c f page s)) = sv_seq s"
  by (simp_all add: wallet_List_def split_beta Let_def split: option.split)

lemma ValidateWallets_ok: "wallets_ok c s \<Longrightarrow> uuid_codec c \<Longrightarrow> wallets_ok c (snd (ValidateWallets c ids s))"
  by (cases "ids = []") (simp add: ValidateWallets_def, blast elim: ValidateWallets_cases)

lemma Remember_state: "snd (snd (Remember c cd key ttl ld ch w)) = w \<or> snd (snd (Remember c cd key ttl ld ch w)) = snd (ld w)"
  by (simp add: Remember_def split_beta split: option.split sum.split prod.split)

lemma wallet_reads_profiles:
  "sv_profiles (snd (remember_wallet c key pick s)) = sv_profiles s"
  using Remember_state [of c wallet_codec key walletReadTTL "load_wallet c pick" "sv_cache s" s]
  by (auto simp: remember_wallet_def load_wallet_def split_beta Let_def)

lemma insert_wallet_profiles [simp]: "sv_profiles (snd (insert_wallet c p m cur s)) = sv_profiles s"
  by (cases rule: insert_wallet_spec [of c p m cur s]) (simp_all add: row_added_def)

lemma wallet_Create_profiles [simp]: "sv_profiles (snd (wallet_Create c payload s)) = sv_profiles s"
proof -
  obtain r1 s1 where f: "FindByIDs c [wq_ProfileID payload, wq_MerchantID payload] s = (r1, s1)" by fastforce
  have s1: "sv_profiles s1 = sv_profiles s" using FindByIDs_spec(1) [OF f] by simp
  have s2: "insert_wallet c p m cur s1 = (r, s2) \<Longrightarrow> sv_profiles s2 = sv_profiles s" for p m cur r s2
    using insert_wallet_profiles [of c p m cur s1] s1 by simp
  show ?thesis unfolding wallet_Create_def f Let_def using s1 by (simp add: s2 split: sum.split option.split prod.split)
qed

lemma wallet_exec_profiles: "sv_profiles (wallet_exec c s cmd) = sv_profiles s"
proof (cases cmd)
  case (CreateWallet payload)
  then show ?thesis by simp
next
  case (CheckWallets ids)
  then show ?thesis by (simp add: ValidateWallets_def split_beta Let_def split: option.split)
qed (simp_all add: wallet_Get_def wallet_GetByNumber_def Let_def wallet_reads_profiles)

lemma wallet_exec_ok:
  assumes "wallets_ok c s" "distinct (map p_ID (sv_profiles s))" "uuid_codec c"
  shows "wallets_ok c (wallet_exec c s cmd)"
proof (cases cmd)
  case (ListWallets f page)
  then show ?thesis using assms(1) by (simp add: wallets_ok_cong [of "snd (wallet_List c f page s)" s c])
qed (use assms wallet_Get_spec(1) wallet_GetByNumber_spec(1) wallet_Create_spec(1) ValidateWallets_ok in simp_all)

section \<open>Properties\<close>

text \<open>
  Cached wallet reads are current. After any sequence of reads, listings, creations and metadata checks,
  with any database and cache failures, a read by id or by number that answers, answers with the row the table holds
  at that moment, with its owners' names.
\<close>

theorem wallet_reads_current:
  assumes "wallets_ok c s" "distinct (map p_ID (sv_profiles s))" "uuid_codec c" "s' = foldl (wallet_exec c) s cmds"
  shows "(\<forall>d. fst (wallet_Get c i s') = Inr d \<longrightarrow> (\<exists>row. wallets (sv_world s') i = Some row \<and> d = shown c s' row)) \<and>
    (\<forall>d. fst (wallet_GetByNumber c n s') = Inr d \<longrightarrow>
       (\<exists>j row. wallets (sv_world s') j = Some row \<and> w_Number row = ToUpper (unicode_upper c) (TrimSpace n) \<and> d = shown c s' row))"
proof -
  have "wallets_ok c (foldl (wallet_exec c) s cmds)" using assms(1,2)
    by (induction cmds arbitrary: s) (simp_all add: wallet_exec_ok [OF _ _ assms(3)] wallet_exec_profiles)
  with assms(4) have "wallets_ok c s'" by simp
  then show ?thesis using wallet_Get_spec(2) [OF _ assms(3)] wallet_GetByNumber_spec(2) by blast
qed

text \<open>
  A created wallet is ready for use: it exists under a new id, owned by the requested profile and merchant, with zero
  balances; the books stay right with an opening balance of zero for it; and its WalletActor accepts the row (status and
  checksum).
\<close>

theorem created_wallet_usable:
  assumes "wallets_ok c s" "distinct (map p_ID (sv_profiles s))" "books c op0 (sv_world s)"
    and "\<forall>l \<in> set (ledgers (sv_world s)). wallets (sv_world s) (l_WalletID l) \<noteq> None" "faultless c"
    and "wallet_Create c payload s = (Inr d, s')"
  shows "wallets (sv_world s) (wr_ID d) = None \<and> books c (op0(wr_ID d := 0)) (sv_world s') \<and>
    (\<exists>row. fst (load c (wr_ID d) (sv_world s')) = Inr row \<and> w_ProfileID row = wq_ProfileID payload \<and>
       w_MerchantID row = Some (wq_MerchantID payload) \<and> w_AvailableBalance row = 0 \<and> w_ActualBalance row = 0 \<and> d = shown c s row)"
proof -
  let ?i = "wr_ID d"
  have "wallet_created c payload s d s'" using wallet_Create_spec(2) [OF assms(1,2), of payload d] assms(6) by simp
  then obtain n row and code :: currency where h: "row = new_wallet c ?i n (wq_ProfileID payload) (wq_MerchantID payload) (c_Code code)" "d = shown c s row"
    "wallets (sv_world s) ?i = None" "wallets (sv_world s') = (wallets (sv_world s))(?i \<mapsto> row)" "ledgers (sv_world s') = ledgers (sv_world s)"
    unfolding wallet_created_def by blast
  have f: "w_ID row = ?i" "w_Status row = WalletStatusActive" "w_ProfileID row = wq_ProfileID payload" "w_MerchantID row = Some (wq_MerchantID payload)"
    "w_AvailableBalance row = 0" "w_ProcessingBalance row = 0" "w_ActualBalance row = 0"
    using arg_cong [OF h(1), of w_ID] arg_cong [OF h(1), of w_Status] arg_cong [OF h(1), of w_ProfileID] arg_cong [OF h(1), of w_MerchantID]
      arg_cong [OF h(1), of w_AvailableBalance] arg_cong [OF h(1), of w_ProcessingBalance] arg_cong [OF h(1), of w_ActualBalance] by simp_all
  have sum: "w_Checksum row = ComputeChecksum c row" using new_wallet_checksum [of c ?i n "wq_ProfileID payload" "wq_MerchantID payload" "c_Code code"] unfolding h(1) [symmetric] .
  have "filter (\<lambda>l. l_WalletID l = ?i) (ledgers (sv_world s)) = []" using assms(4) h(3) by (auto simp: filter_empty_conv)
  then have net0: "net ?i (ledgers (sv_world s)) = 0" by (simp add: net_def)
  have "wallet_ok c row" using f sum by (simp add: wallet_ok_def MaxInt64_def)
  then have "books c (op0(?i := 0)) (sv_world s')"
    unfolding books_def h(4,5) using assms(3) net0 f(1,7) by (simp add: books_def)
  moreover have "fst (load c ?i (sv_world s')) = Inr row"
    using assms(5) f(2) sum h(4) by (simp add: load_def db_call_def faultless_def)
  ultimately show ?thesis using h(2,3) f by auto
qed

text \<open>
  The metadata check lets only real wallets through: if it accepts a list of ids, each of them is a wallet of the table,
  passed on with its true number, owners and currency and an active status. Without a cache and without failures
  it accepts exactly the non-empty lists of existing, active wallets.
\<close>

theorem validated_wallets_exist:
  assumes "wallets_ok c s" "uuid_codec c"
  shows "(\<forall>byID. fst (ValidateWallets c ids s) = Inr byID \<longrightarrow> (\<forall>i \<in> set ids. \<exists>wl row. byID i = Some wl \<and>
      w_Status wl = WalletStatusActive \<and> wallets (sv_world s) i = Some row \<and> true_wallet wl row)) \<and>
    (\<not> Enabled (sv_cache s) \<and> faultless c \<longrightarrow> is_ok (fst (ValidateWallets c ids s)) =
      (ids \<noteq> [] \<and> (\<forall>i \<in> set ids. \<exists>row. wallets (sv_world s) i = Some row \<and> w_Status row = WalletStatusActive)))"
proof (cases "ids = []")
  case True
  then show ?thesis by (simp add: ValidateWallets_def)
next
  case False
  from assms False show ?thesis
  proof (cases rule: ValidateWallets_cases)
    case (looked_up byID)
    have ok: "is_ok (fst (ValidateWallets c ids s)) \<longleftrightarrow> (\<forall>i \<in> set ids. \<exists>wl. byID i = Some wl \<and> w_Status wl = WalletStatusActive)"
      unfolding looked_up(1) checked_def check_active_None [of c, symmetric] by (simp split: option.split)
    have "fst (ValidateWallets c ids s) = Inr b \<Longrightarrow> b = byID \<and> (\<forall>i \<in> set ids. \<exists>wl. byID i = Some wl \<and> w_Status wl = WalletStatusActive)" for b
      using ok unfolding looked_up(1) checked_def by (auto split: option.splits)
    then show ?thesis using ok looked_up(3,4) False by (fastforce split: option.splits)
  qed simp
qed


section \<open>Examples\<close>

text \<open>A database with the wallet of the WalletActor's example, owned by the example profile.\<close>

definition demo_wallet_svc :: svc where
  "demo_wallet_svc = demo_svc\<lparr>sv_world := demo_world, sv_wids := [1], sv_seq := 1\<rparr>"

lemma demo_wallet_svc_fields [simp]:
  "sv_world demo_wallet_svc = demo_world" "sv_profiles demo_wallet_svc = [demo_profile]" "sv_cache demo_wallet_svc = demo_cache"
  "sv_wids demo_wallet_svc = [1]" "sv_seq demo_wallet_svc = 1" "wallets demo_world = [1 \<mapsto> demo_wallet]"
  by (simp_all add: demo_wallet_svc_def demo_svc_def demo_world_def)

lemma demo_wallet_owner: "w_Number demo_wallet = ''W100000''" "w_ProfileID demo_wallet = 9" "w_MerchantID demo_wallet = Some 9"
  by (simp_all add: demo_wallet_def Let_def)

lemma demo_wallets_ok: "wallets_ok demo_ctx demo_wallet_svc"
proof -
  have "''W'' @ nat_digits (100000 + 0) = ''W100000''" by (simp add: nat_digits.simps)
  then have "wallet_table_ok demo_wallet_svc"
    by (simp add: wallet_table_ok_def demo_wallet_owner demo_profile_def)
  then show ?thesis by (simp add: wallets_ok_def agrees_def demo_cache_empty)
qed

lemma demo_read_runs: "is_ok (fst (wallet_Get demo_ctx 1 demo_wallet_svc))"
  by (simp add: wallet_Get_def remember_wallet_def Remember_def Cache_Get_def load_wallet_def svc_query_def svc_call_def db_call_def
      split_beta Let_def demo_cache_def Start_def stored_def Enabled_def cache_call_def split: fault.split)

theorem wallet_reads_current_witness:
  "fst (wallet_Get demo_ctx 1 demo_wallet_svc) = Inr (shown demo_ctx demo_wallet_svc demo_wallet)"
proof -
  obtain d where d: "fst (wallet_Get demo_ctx 1 demo_wallet_svc) = Inr d" using demo_read_runs by (auto simp: is_ok_iff)
  have dist: "distinct (map p_ID (sv_profiles demo_wallet_svc))" by simp
  have "\<exists>row. wallets (sv_world demo_wallet_svc) 1 = Some row \<and> d = shown demo_ctx demo_wallet_svc row"
    using wallet_reads_current [OF demo_wallets_ok dist demo_codec, where cmds = "[]" and i = 1] d by simp
  with d show ?thesis by simp
qed

definition demo_wallet_request :: WalletReqDto where
  "demo_wallet_request = \<lparr>wq_ProfileID = 9, wq_MerchantID = 9, wq_Currency = ''KES''\<rparr>"

lemma demo_create_runs: "is_ok (fst (wallet_Create demo_ctx demo_wallet_request demo_wallet_svc))"
  by (simp add: wallet_Create_def demo_wallet_request_def FindByIDs_def svc_query_def svc_call_def db_call_def split_beta Let_def
      demo_profile_def demo_KES_Lookup insert_wallet_def demo_ctx_def demo_world_def empty_world_def)

theorem created_wallet_usable_witness:
  "\<exists>d s'. wallet_Create demo_ctx demo_wallet_request demo_wallet_svc = (Inr d, s') \<and> books demo_ctx (demo_opening(wr_ID d := 0)) (sv_world s')"
proof -
  obtain d s' where r: "wallet_Create demo_ctx demo_wallet_request demo_wallet_svc = (Inr d, s')"
    using demo_create_runs by (metis is_ok_iff prod.collapse)
  have h: "distinct (map p_ID (sv_profiles demo_wallet_svc))" "books demo_ctx demo_opening (sv_world demo_wallet_svc)"
    "\<forall>l \<in> set (ledgers (sv_world demo_wallet_svc)). wallets (sv_world demo_wallet_svc) (l_WalletID l) \<noteq> None"
    using demo_books by (simp_all add: demo_world_def empty_world_def)
  from created_wallet_usable [OF demo_wallets_ok h demo_faultless r] r show ?thesis by blast
qed

lemma demo_check_runs: "is_ok (fst (ValidateWallets demo_ctx [1, 1] demo_wallet_svc))"
  by (simp add: ValidateWallets_def Cache_GetMany_def svc_query_def svc_call_def db_call_def split_beta Let_def demo_cache_def Start_def
      Enabled_def cache_call_def stored_def checked_def List.map_filter_def split: option.split)

theorem validated_wallets_exist_witness:
  "\<exists>byID wl. fst (ValidateWallets demo_ctx [1, 1] demo_wallet_svc) = Inr byID \<and> byID 1 = Some wl \<and> w_Currency wl = ''KES''"
proof -
  obtain byID where r: "fst (ValidateWallets demo_ctx [1, 1] demo_wallet_svc) = Inr byID" using demo_check_runs by (auto simp: is_ok_iff)
  have cur: "w_Currency demo_wallet = ''KES''" by (simp add: demo_wallet_def Let_def)
  have "\<forall>i \<in> set [1, 1]. \<exists>wl row. byID i = Some wl \<and> w_Status wl = WalletStatusActive \<and>
      wallets (sv_world demo_wallet_svc) i = Some row \<and> true_wallet wl row"
    using validated_wallets_exist [OF demo_wallets_ok demo_codec, of "[1, 1]"] r by blast
  then show ?thesis using r cur by (auto simp: true_wallet_def)
qed


end
