(* ===== verification/Day_Window.thy ===== *)
theory Day_Window
  imports Service_Types
begin

text \<open>
  The date window of a transaction lookup (\<open>dayWindow\<close> in \<open>internal/services/transaction.go\<close>), with
  \<open>time.Parse("2006-01-02", ...)\<close> written out: four, two and two digits, a month from 1 to 12 and a day of that month in the
  proleptic Gregorian calendar, read as midnight UTC. \<open>day_number\<close> counts days from 1 January 1970.

  The lemmas: consecutive dates are consecutive days, so the window is the day asked for with one day on each side.
\<close>

section \<open>Model\<close>

definition leap_year :: "nat \<Rightarrow> bool" where
  "leap_year y \<longleftrightarrow> 4 dvd y \<and> (\<not> 100 dvd y \<or> 400 dvd y)"

definition daysIn :: "nat \<Rightarrow> nat \<Rightarrow> nat" where
  "daysIn m y = (if m = 2 then (if leap_year y then 29 else 28) else if m \<in> {4, 6, 9, 11} then 30 else 31)"

fun days_before_month :: "nat \<Rightarrow> nat \<Rightarrow> nat" where
  "days_before_month y 0 = 0"
| "days_before_month y (Suc m) = (if m = 0 then 0 else days_before_month y m + daysIn m y)"

definition days_before_year :: "nat \<Rightarrow> int" where
  "days_before_year y = 365 * int y + (int y + 3) div 4 - (int y + 99) div 100 + (int y + 399) div 400"

definition day_number :: "nat \<Rightarrow> nat \<Rightarrow> nat \<Rightarrow> int" where
  "day_number y m d = days_before_year y + int (days_before_month y m) + int d - 1 - 719528"

definition valid_date :: "nat \<Rightarrow> nat \<Rightarrow> nat \<Rightarrow> bool" where
  "valid_date y m d \<longleftrightarrow> 1 \<le> m \<and> m \<le> 12 \<and> 1 \<le> d \<and> d \<le> daysIn m y"

definition parse_date :: "string \<Rightarrow> time option" where
  "parse_date s =
     (let ys = take 4 s; ms = take 2 (drop 5 s); ds = drop 8 s;
          y = digits_value ys; m = digits_value ms; d = digits_value ds in
      if length s = 10 \<and> list_all is_digit ys \<and> s ! 4 = CHR ''-'' \<and> list_all is_digit ms \<and> s ! 7 = CHR ''-'' \<and>
         list_all is_digit ds \<and> valid_date y m d
      then Some (day_number y m d * 24 * hour) else None)"

text \<open>\<open>AddDate(0, 0, n)\<close> on a UTC midnight is n times 24 hours.\<close>

definition dayWindow :: "string \<Rightarrow> string \<Rightarrow> service_error + time \<times> time" where
  "dayWindow field date =
     (case parse_date date of
        None \<Rightarrow> Inl (invalid [Txt (field @ '' must be YYYY-MM-DD'')])
      | Some day \<Rightarrow> Inr (day - 24 * hour, day + 2 * 24 * hour))"

section \<open>Consecutive days\<close>

definition next_date :: "nat \<times> nat \<times> nat \<Rightarrow> nat \<times> nat \<times> nat" where
  "next_date = (\<lambda>(y, m, d). if d < daysIn m y then (y, m, d + 1) else if m < 12 then (y, m + 1, 1) else (y + 1, 1, 1))"

lemma days_before_year_Suc: "days_before_year (Suc y) = days_before_year y + (if leap_year y then 366 else 365)"
proof -
  have div_step: "(int y + int k) div int k = (int y + (int k - 1)) div int k + (if k dvd y then 1 else 0)" if "k > 0" for k :: nat
  proof -
    have "(int y + int k) div int k = int (y div k) + 1" using that div_add_self2 [of "int k" "int y"] by (simp add: zdiv_int)
    moreover have "(int y + (int k - 1)) div int k = int ((y + (k - 1)) div k)" using that by (simp add: zdiv_int of_nat_diff add_diff_eq)
    moreover have "(y + (k - 1)) div k = y div k + (if k dvd y then 0 else 1)"
    proof -
      have "(y + (k - 1)) div k = (y div k * k + (y mod k + (k - 1))) div k" by simp
      also have "... = y div k + (y mod k + (k - 1)) div k" using that by (simp only: div_mult_self3)
      also have "(y mod k + (k - 1)) div k = (if k dvd y then 0 else 1)"
        using that mod_less_divisor [OF that, of y] by (auto simp: dvd_eq_mod_eq_0 div_eq_dividend_iff le_div_geq)
      finally show ?thesis .
    qed
    ultimately show ?thesis by simp
  qed
  have d: "(int y + 4) div 4 = (int y + 3) div 4 + (if 4 dvd y then 1 else 0)" "(int y + 100) div 100 = (int y + 99) div 100 + (if 100 dvd y then 1 else 0)"
    "(int y + 400) div 400 = (int y + 399) div 400 + (if 400 dvd y then 1 else 0)"
    using div_step [of 4] div_step [of 100] div_step [of 400] by simp_all
  have e: "int (Suc y) + 3 = int y + 4" "int (Suc y) + 99 = int y + 100" "int (Suc y) + 399 = int y + 400" "365 * int (Suc y) = 365 * int y + 365" by simp_all
  have m: "100 dvd y \<Longrightarrow> 4 dvd y" "400 dvd y \<Longrightarrow> 100 dvd y"
    by (rule dvd_trans [of 4 100], simp, assumption) (rule dvd_trans [of 100 400], simp, assumption)
  have sum: "365 * x + 365 + (a + (if p then 1 else 0)) - (b + (if q then 1 else 0)) + (k + (if r then 1 else 0)) =
      365 * x + a - b + k + (if p \<and> (\<not> q \<or> r) then 366 else 365)" if "q \<Longrightarrow> p" "r \<Longrightarrow> q" for x a b k :: int and p q r
    using that by auto
  show ?thesis unfolding days_before_year_def e d leap_year_def by (rule sum [OF m])
qed

lemma year_length: "days_before_month y 12 + daysIn 12 y = (if leap_year y then 366 else 365)"
  by (simp add: eval_nat_numeral daysIn_def)

lemma day_number_next:
  assumes "valid_date y m d" "next_date (y, m, d) = (y', m', d')"
  shows "valid_date y' m' d'" "day_number y' m' d' = day_number y m d + 1"
proof -
  have pos: "1 \<le> daysIn k y" for k by (simp add: daysIn_def)
  consider "d < daysIn m y" | "d = daysIn m y" "m < 12" | "d = daysIn m y" "m = 12" using assms(1) by (force simp: valid_date_def)
  then have "valid_date y' m' d' \<and> day_number y' m' d' = day_number y m d + 1"
  proof cases
    case 3
    have "days_before_month (Suc y) 1 = 0" by simp
    then show ?thesis
      using assms(2) 3 year_length [of y] days_before_year_Suc [of y]
      by (auto simp: next_date_def valid_date_def day_number_def daysIn_def)
  qed (use assms pos [of "Suc m"] in \<open>auto simp: next_date_def valid_date_def day_number_def\<close>)
  then show "valid_date y' m' d'" "day_number y' m' d' = day_number y m d + 1" by auto
qed

end
