(* ===== verification/Transaction_Service.thy ===== *)
theory Transaction_Service
  imports Wallet_Service Transaction_Request Day_Window
begin

text \<open>
  The TransactionService (\<open>internal/services/transaction.go\<close>) and the balances of a response
  (\<open>internal/services/balances.go\<close>): initiating a transaction, reversing one, looking transactions up, listing
  them and resending a callback. The service writes a pending row with its plan and sends one start message; it moves no money.

  An insert into \<open>transactions\<close> is checked against the table's constraints: the primary key (id, created_at), the unique index
  (rrn, created_at), a positive amount and a fee that is not negative.
\<close>

section \<open>Balances\<close>

definition completedTxnTTL :: time where "completedTxnTTL = 15 * minute"

definition notAfter_svc :: "ctx \<Rightarrow> time" where "notAfter_svc c = now c + 24 * hour"

definition fromMovements :: "ctx \<Rightarrow> string \<Rightarrow> wallet_movement list \<Rightarrow> WalletBalanceDto list" where
  "fromMovements c currencyCode mvs =
     (let ex = display_exponent c currencyCode in
      map (\<lambda>m. \<lparr>bd_WalletID = mv_WalletID m, bd_Currency = mv_Currency m, bd_InitialBalance = MoneyFromMinor (mv_InitialBalance m) ex,
                bd_UpdatedBalance = MoneyFromMinor (mv_UpdatedBalance m) ex, bd_Entries = mv_Entries m\<rparr>) mvs)"

text \<open>The loop over the rows: the first row of a wallet opens its entry, each row moves it.\<close>

fun add_balance :: "nat \<Rightarrow> ledger \<Rightarrow> WalletBalanceDto list \<Rightarrow> WalletBalanceDto list" where
  "add_balance ex r [] = [\<lparr>bd_WalletID = l_WalletID r, bd_Currency = l_Currency r, bd_InitialBalance = MoneyFromMinor (l_InitialBalance r) ex,
     bd_UpdatedBalance = MoneyFromMinor (l_UpdatedBalance r) ex, bd_Entries = 1\<rparr>]"
| "add_balance ex r (b # bs) =
     (if bd_WalletID b = l_WalletID r
      then b\<lparr>bd_UpdatedBalance := MoneyFromMinor (l_UpdatedBalance r) ex, bd_Entries := bd_Entries b + 1\<rparr> # bs
      else b # add_balance ex r bs)"

text \<open>The ledger rows of a transaction, \<open>Order("id ASC")\<close>.\<close>

definition txn_ledger :: "ctx \<Rightarrow> transaction \<Rightarrow> world \<Rightarrow> ledger list" where
  "txn_ledger c tx w = sort_key l_ID (filter (\<lambda>l. l_TransactionID l = tx_ID tx \<and> tx_CreatedAt tx - minute \<le> l_CreatedAt l \<and>
     l_CreatedAt l < notAfter_svc c) (ledgers w))"

definition walletBalances :: "ctx \<Rightarrow> transaction \<Rightarrow> svc \<Rightarrow> WalletBalanceDto list \<times> svc" where
  "walletBalances c tx s0 =
     (let (err, s) = svc_query c s0 in
      (case err of
         Some m \<Rightarrow> []
       | None \<Rightarrow> foldl (\<lambda>bs r. add_balance (display_exponent c (tx_Currency tx)) r bs) [] (txn_ledger c tx (sv_world s)), s))"

definition TransactionPayload :: "ctx \<Rightarrow> transaction \<Rightarrow> wallet_movement list option \<Rightarrow> svc \<Rightarrow> TransactionResDto \<times> svc" where
  "TransactionPayload c tx mvs s =
     (case mvs of
        Some ms \<Rightarrow> ((TransactionFromModel c tx)\<lparr>rs_Balances := fromMovements c (tx_Currency tx) ms\<rparr>, s)
      | None \<Rightarrow> (let (bs, s') = walletBalances c tx s in ((TransactionFromModel c tx)\<lparr>rs_Balances := bs\<rparr>, s')))"

section \<open>Creating and dispatching\<close>

datatype db_error = RRNConflict | DbError string

definition isRRNConflict :: "db_error \<Rightarrow> bool" where "isRRNConflict e \<longleftrightarrow> e = RRNConflict"

fun db_error_text :: "db_error \<Rightarrow> string" where
  "db_error_text RRNConflict = ''duplicate key value violates unique constraint on rrn''"
| "db_error_text (DbError m) = m"

definition insert_txn :: "ctx \<Rightarrow> transaction \<Rightarrow> svc \<Rightarrow> (db_error + transaction) \<times> svc" where
  "insert_txn c tx0 s0 =
     (let (f, s) = svc_call c s0;
          tx = tx0\<lparr>tx_CreatedAt := now c, tx_UpdatedAt := now c\<rparr>;
          rows = txns (sv_world s);
          s' = s\<lparr>sv_world := (sv_world s)\<lparr>txns := rows @ [tx]\<rparr>\<rparr> in
      (case f of
         Failed m \<Rightarrow> (Inl (DbError m), s)
       | _ \<Rightarrow>
           if list_ex (\<lambda>r. tx_RRN r = tx_RRN tx \<and> tx_CreatedAt r = tx_CreatedAt tx) rows then (Inl RRNConflict, s)
           else if list_ex (\<lambda>r. tx_ID r = tx_ID tx \<and> tx_CreatedAt r = tx_CreatedAt tx) rows then (Inl (DbError ''duplicate key value violates unique constraint''), s)
           else if tx_Amount tx \<le> 0 \<or> tx_Fee tx < 0 then (Inl (DbError ''new row violates check constraint''), s)
           else (case f of LostAck m \<Rightarrow> (Inl (DbError m), s') | _ \<Rightarrow> (Inr tx, s'))))"

text \<open>\<open>utils.GenerateRrn()\<close> and \<open>uuid.New()\<close> at the service.\<close>

definition GenerateRrn_svc :: "ctx \<Rightarrow> svc \<Rightarrow> string \<times> svc" where
  "GenerateRrn_svc c s = (new_rrn c (n_rrn (sv_world s)), s\<lparr>sv_world := (sv_world s)\<lparr>n_rrn := Suc (n_rrn (sv_world s))\<rparr>\<rparr>)"

definition uuid_New :: "ctx \<Rightarrow> svc \<Rightarrow> uuid \<times> svc" where
  "uuid_New c s = (new_uuid c (n_uuid (sv_world s)), s\<lparr>sv_world := (sv_world s)\<lparr>n_uuid := Suc (n_uuid (sv_world s))\<rparr>\<rparr>)"

fun create_attempts :: "ctx \<Rightarrow> nat \<Rightarrow> db_error \<Rightarrow> transaction \<Rightarrow> svc \<Rightarrow> (db_error + transaction) \<times> svc" where
  "create_attempts c 0 err tx s = (Inl err, s)"
| "create_attempts c (Suc n) err tx s =
     (case insert_txn c tx s of
        (Inr row, s1) \<Rightarrow> (Inr row, s1)
      | (Inl e, s1) \<Rightarrow>
          if \<not> isRRNConflict e then (Inl e, s1)
          else (let (rrn, s2) = GenerateRrn_svc c s1 in create_attempts c n e (tx\<lparr>tx_RRN := rrn\<rparr>) s2))"

definition txn_create :: "ctx \<Rightarrow> transaction \<Rightarrow> svc \<Rightarrow> (db_error + transaction) \<times> svc" where
  "txn_create c tx s = create_attempts c 3 (DbError []) tx s"

definition start_message :: "ctx \<Rightarrow> transaction \<Rightarrow> transfer_leg list \<Rightarrow> StartTransactionMsg" where
  "start_message c tx legs = \<lparr>sm_TransactionId = str_uuid c (tx_ID tx), sm_CreatedAtUnix = (tx_CreatedAt tx - minute) div second,
     sm_Transfers = PlanToProto c legs, sm_Resume = False\<rparr>"

definition dispatch :: "ctx \<Rightarrow> transaction \<Rightarrow> transfer_leg list \<Rightarrow> svc \<Rightarrow> (service_error + TransactionResDto) \<times> svc" where
  "dispatch c tx0 legs s0 =
     (let tx = tx0\<lparr>tx_Transfers := Some (EncodePlan c legs)\<rparr>;
          n = n_pid (sv_world s0);
          s1 = s0\<lparr>sv_world := (sv_world s0)\<lparr>n_pid := Suc n\<rparr>\<rparr> in
      if \<not> placed c n (tx_ID tx) then (Inl (unavailable [Txt ''transaction processor unavailable'']), s1)
      else
        (case txn_create c tx s1 of
           (Inl e, s2) \<Rightarrow> (Inl (other_error (''create transaction: '' @ db_error_text e)), s2)
         | (Inr row, s2) \<Rightarrow>
             (Inr (TransactionFromModel c row),
              s2\<lparr>sv_world := (sv_world s2)\<lparr>txbox := txbox (sv_world s2) @ [(tx_ID row, start_message c row legs)]\<rparr>\<rparr>)))"

definition zero_wallet :: wallet where
  "zero_wallet = bare_wallet uuid_Nil [] uuid_Nil None [] [] empty_profile None"

text \<open>The loop that fills in the parties: the first initial debit and the first initial credit.\<close>

definition set_sender :: "wallet \<Rightarrow> transaction \<Rightarrow> transaction" where
  "set_sender wl tx =
     (let t = tx\<lparr>tx_WalletFrom := Some (w_ID wl), tx_ProfileFrom := Some (w_ProfileID wl), tx_SenderName := Some (p_FullName (w_Profile wl)),
                 tx_AccountFrom := Some (w_Number wl)\<rparr>
      in (case w_Merchant wl of None \<Rightarrow> t | Some m \<Rightarrow> t\<lparr>tx_MerchantFrom := Some (p_ID m), tx_SenderMerchant := Some (p_FullName m)\<rparr>))"

definition set_receiver :: "wallet \<Rightarrow> transaction \<Rightarrow> transaction" where
  "set_receiver wl tx =
     (let t = tx\<lparr>tx_WalletTo := Some (w_ID wl), tx_ProfileTo := Some (w_ProfileID wl), tx_ReceiverName := Some (p_FullName (w_Profile wl)),
                 tx_AccountTo := Some (w_Number wl)\<rparr>
      in (case w_Merchant wl of None \<Rightarrow> t | Some m \<Rightarrow> t\<lparr>tx_MerchantTo := Some (p_ID m), tx_ReceiverMerchant := Some (p_FullName m)\<rparr>))"

definition set_party :: "(uuid \<Rightarrow> wallet option) \<Rightarrow> transaction \<Rightarrow> TransactionEntryDto \<Rightarrow> transaction" where
  "set_party ws tx tr =
     (if \<not> en_IsInitial tr then tx
      else
        (let wl = (case ws (en_WalletID tr) of Some wl \<Rightarrow> wl | None \<Rightarrow> zero_wallet);
             t1 = (if en_Action tr = LedgerTypeDebit \<and> tx_WalletFrom tx = None then set_sender wl tx else tx)
         in (if en_Action tr = LedgerTypeCredit \<and> tx_WalletTo t1 = None then set_receiver wl t1 else t1)))"

definition buildTransaction :: "ctx \<Rightarrow> TransactionReqDto \<Rightarrow> plan \<Rightarrow> (uuid \<Rightarrow> wallet option) \<Rightarrow> svc \<Rightarrow> transaction \<times> svc" where
  "buildTransaction c payload pl ws s0 =
     (let (i, s1) = uuid_New c s0; (rrn, s2) = GenerateRrn_svc c s1;
          tx = \<lparr>tx_ID = i, tx_MerchantID = Some (rq_MerchantID payload), tx_MerchantFrom = None, tx_MerchantTo = None, tx_ProfileFrom = None,
                tx_ProfileTo = None, tx_SenderName = None, tx_ReceiverName = None, tx_SenderMerchant = None, tx_ReceiverMerchant = None,
                tx_AccountFrom = None, tx_AccountTo = None, tx_WalletFrom = None, tx_WalletTo = None, tx_Amount = pl_TotalAmount pl,
                tx_Currency = c_Code (pl_Currency pl), tx_Fee = pl_Fee pl, tx_Type = rq_Type payload, tx_Status = TransactionStatusPending,
                tx_Purpose = rq_Purpose payload, tx_RRN = rrn, tx_OrderID = Some (rq_OrderId payload), tx_ProviderRef = Some (rq_ProviderRef payload),
                tx_CallbackURL = Some (rq_CallbackUrl payload), tx_Transfers = None, tx_Narration = ''Transaction accepted for processing'',
                tx_Description = rq_Description payload, tx_IsCompleted = False, tx_DateCompleted = None, tx_CreatedAt = zero_time,
                tx_UpdatedAt = zero_time\<rparr>
      in (foldl (set_party ws) tx (rq_Transfers payload), s2))"

definition Initiate :: "ctx \<Rightarrow> TransactionReqDto \<Rightarrow> svc \<Rightarrow> (service_error + TransactionResDto) \<times> svc" where
  "Initiate c payload s0 =
     (case ValidateWallets c (map en_WalletID (rq_Transfers payload)) s0 of
        (Inl e, s1) \<Rightarrow> (Inl e, s1)
      | (Inr ws, s1) \<Rightarrow>
     (case FindByID c (rq_MerchantID payload) s1 of
        (Inl e, s2) \<Rightarrow> (Inl e, s2)
      | (Inr merchant, s2) \<Rightarrow>
     (case ValidateTransactionRequest c payload ws merchant (n_uuid (sv_world s2)) of
        (r, n) \<Rightarrow>
          (let s3 = s2\<lparr>sv_world := (sv_world s2)\<lparr>n_uuid := n\<rparr>\<rparr> in
           (case r of
              Inl e \<Rightarrow> (Inl e, s3)
            | Inr pl \<Rightarrow> (let (tx, s4) = buildTransaction c payload pl ws s3 in dispatch c tx (pl_Legs pl) s4))))))"

section \<open>Reversing\<close>

text \<open>The loop over the ledger rows: each must match a planned leg not matched before. \<open>n\<close> counts the UUIDs drawn.\<close>

fun invert_rows :: "ctx \<Rightarrow> (uuid \<Rightarrow> transfer_leg option) \<Rightarrow> ledger list \<Rightarrow> nat \<Rightarrow> transfer_leg list option \<times> nat" where
  "invert_rows c byKey [] n = (Some [], n)"
| "invert_rows c byKey (r # rs) n =
     (case l_IdempotencyKey r of
        None \<Rightarrow> (None, n)
      | Some k \<Rightarrow>
          (case byKey k of
             None \<Rightarrow> (None, n)
           | Some leg \<Rightarrow>
               if tl_WalletID leg \<noteq> l_WalletID r \<or> tl_Action leg \<noteq> l_Type r \<or> tl_Amount leg \<noteq> l_Amount r then (None, n)
               else
                 (let (legs, n') = invert_rows c (byKey(k := None)) rs (Suc n) in
                  (map_option ((#) \<lparr>tl_WalletID = l_WalletID r, tl_Action = Opposite (l_Type r), tl_Amount = l_Amount r,
                     tl_Purpose = ''Reversal: '' @ l_Purpose r, tl_IsFee = tl_IsFee leg, tl_IsInitial = tl_IsInitial leg,
                     tl_IdempotencyKey = new_uuid c n, tl_ReversalKey = None\<rparr>) legs, n'))))"

definition reversalLegs :: "ctx \<Rightarrow> transaction \<Rightarrow> svc \<Rightarrow> (service_error + transfer_leg list) \<times> svc" where
  "reversalLegs c orig s0 =
     (case DecodePlan c (tx_Transfers orig) of
        None \<Rightarrow> (Inl (other_error ''decode plan''), s0)
      | Some plan \<Rightarrow>
          (let (err, s) = svc_query c s0 in
           (case err of
              Some m \<Rightarrow> (Inl (other_error (''load ledger: '' @ m)), s)
            | None \<Rightarrow>
                (let rows = txn_ledger c orig (sv_world s);
                     mismatch = invalid [Txt ''transaction ledger does not match its transfers; reconcile it before reversing''] in
                 if rows = [] \<or> length rows \<noteq> length plan then (Inl mismatch, s)
                 else
                   (let (legs, n) = invert_rows c (map_of (map (\<lambda>l. (tl_IdempotencyKey l, l)) (rev plan))) rows (n_uuid (sv_world s));
                        s' = s\<lparr>sv_world := (sv_world s)\<lparr>n_uuid := n\<rparr>\<rparr> in
                    (case legs of None \<Rightarrow> Inl mismatch | Some ls \<Rightarrow> Inr ls, s'))))))"

text \<open>\<open>need\<close>: the debits of each wallet, summed in \<open>int64\<close>; its keys in order of first appearance.\<close>

definition reversal_need :: "transfer_leg list \<Rightarrow> uuid \<Rightarrow> int64" where
  "reversal_need legs i = foldl (\<lambda>a l. wrap64 (a + tl_Amount l)) 0 (filter (\<lambda>l. tl_Action l = LedgerTypeDebit \<and> tl_WalletID l = i) legs)"

fun check_funds :: "currency \<Rightarrow> (uuid \<Rightarrow> int64) \<Rightarrow> wallet list \<Rightarrow> service_error option" where
  "check_funds cur need [] = None"
| "check_funds cur need (wl # wls) =
     (if w_AvailableBalance wl < need (w_ID wl) then
        Some (invalid [Txt (''wallet '' @ w_Number wl @ '' has insufficient available balance to reverse: needs '' @
          money_String (MoneyFromMinor (need (w_ID wl)) (c_Exponent cur)) @ '', has '' @
          money_String (MoneyFromMinor (w_AvailableBalance wl) (c_Exponent cur)))])
      else check_funds cur need wls)"

definition ensureReversalFunds :: "ctx \<Rightarrow> transfer_leg list \<Rightarrow> currency \<Rightarrow> svc \<Rightarrow> service_error option \<times> svc" where
  "ensureReversalFunds c legs cur s0 =
     (let ids = unique_ids [] (map tl_WalletID (filter (\<lambda>l. tl_Action l = LedgerTypeDebit) legs)) in
      if ids = [] then (None, s0)
      else
        (let (err, s) = svc_query c s0 in
         (case err of
            Some m \<Rightarrow> Some (other_error (''load wallet balances: '' @ m))
          | None \<Rightarrow>
              (let rows = List.map_filter (wallets (sv_world s)) ids in
               if length rows \<noteq> length ids then Some (notFound [Txt ''a wallet in the transaction no longer exists''])
               else check_funds cur (reversal_need legs) rows), s)))"

definition reversal_request :: "transaction \<Rightarrow> TransactionReverseReqDto \<Rightarrow> currency \<Rightarrow> transfer_leg list \<Rightarrow> uuid \<Rightarrow> string \<Rightarrow> TransactionReqDto" where
  "reversal_request orig payload cur legs merchant order =
     \<lparr>rq_Type = TransactionTypeReversal, rq_MerchantID = merchant, rq_OrderId = order, rq_ProviderRef = tx_RRN orig,
      rq_CallbackUrl = (case rv_CallbackUrl payload of
          Some u \<Rightarrow> if u \<noteq> [] then u else (case tx_CallbackURL orig of Some v \<Rightarrow> v | None \<Rightarrow> [])
        | None \<Rightarrow> (case tx_CallbackURL orig of Some v \<Rightarrow> v | None \<Rightarrow> [])),
      rq_TotalAmount = money_zero, rq_Fee = money_zero, rq_Currency = [], rq_Purpose = Some (''reversal of '' @ tx_RRN orig),
      rq_Description = rv_Description payload,
      rq_Transfers = map (\<lambda>l. \<lparr>en_WalletID = tl_WalletID l, en_Action = tl_Action l, en_Amount = MoneyFromMinor (tl_Amount l) (c_Exponent cur),
        en_Purpose = tl_Purpose l, en_IsFee = tl_IsFee l, en_IsInitial = tl_IsInitial l\<rparr>) legs\<rparr>"

text \<open>The latest reversal of a transaction, by the RRN in its \<open>provider_ref\<close>.\<close>

definition find_reversal :: "ctx \<Rightarrow> transaction \<Rightarrow> world \<Rightarrow> transaction option" where
  "find_reversal c orig w = (case sort_key (\<lambda>r. - tx_CreatedAt r) (filter (\<lambda>r. tx_ProviderRef r = Some (tx_RRN orig) \<and>
      tx_Type r = TransactionTypeReversal \<and> tx_CreatedAt orig \<le> tx_CreatedAt r \<and> tx_CreatedAt r < notAfter_svc c) (txns w)) of
    [] \<Rightarrow> None | r # rs \<Rightarrow> Some r)"

text \<open>The checks on the original, up to the replay check; then the legs, the wallets and the funds.\<close>

definition reversible :: "ctx \<Rightarrow> transaction \<Rightarrow> service_error + currency \<times> uuid \<times> string" where
  "reversible c orig =
     (if tx_Status orig \<noteq> TransactionStatusSuccess
      then Inl (invalid [Txt (''only successful transactions can be reversed; this one is '' @ tx_Status orig)])
      else if tx_Type orig = TransactionTypeReversal then Inl (invalid [Txt ''a reversal cannot itself be reversed''])
      else
        (case (tx_MerchantID orig, tx_OrderID orig) of
           (Some merchant, Some order) \<Rightarrow>
             (case Lookup (unicode_upper c) (tx_Currency orig) of
                None \<Rightarrow> Inl (invalid [Txt ''transaction currency '', Quoted (tx_Currency orig), Txt '' is not supported''])
              | Some cur \<Rightarrow> Inr (cur, merchant, order))
         | _ \<Rightarrow> Inl (invalid [Txt ''transaction has no merchant or order_id; cannot reverse''])))"

definition reverse_legs :: "ctx \<Rightarrow> TransactionReverseReqDto \<Rightarrow> transaction \<Rightarrow> currency \<Rightarrow> uuid \<Rightarrow> string \<Rightarrow> svc \<Rightarrow>
    (service_error + TransactionResDto) \<times> svc" where
  "reverse_legs c payload orig cur merchant order s0 =
     (case reversalLegs c orig s0 of
        (Inl e, s1) \<Rightarrow> (Inl e, s1)
      | (Inr legs, s1) \<Rightarrow>
     (case ValidateWallets c (map tl_WalletID legs) s1 of
        (Inl e, s2) \<Rightarrow> (Inl e, s2)
      | (Inr ws, s2) \<Rightarrow>
     (case ensureReversalFunds c legs cur s2 of
        (Some e, s3) \<Rightarrow> (Inl e, s3)
      | (None, s3) \<Rightarrow>
          (let (tx, s4) = buildTransaction c (reversal_request orig payload cur legs merchant order)
                 \<lparr>pl_Currency = cur, pl_TotalAmount = tx_Amount orig, pl_Fee = tx_Fee orig, pl_Legs = legs\<rparr> ws s3
           in dispatch c (tx\<lparr>tx_Narration := ''Reversal accepted for processing''\<rparr>) legs s4))))"

definition Reverse :: "ctx \<Rightarrow> TransactionReverseReqDto \<Rightarrow> svc \<Rightarrow> (service_error + TransactionResDto) \<times> svc" where
  "Reverse c payload s0 =
     (case dayWindow ''transaction_date'' (rv_TransactionDate payload) of
        Inl e \<Rightarrow> (Inl e, s0)
      | Inr (fr, to) \<Rightarrow>
          (let (err, s1) = svc_query c s0 in
           (case err of
              Some m \<Rightarrow> (Inl (other_error (''get transaction: '' @ m)), s1)
            | None \<Rightarrow>
                (case first_by tx_ID (\<lambda>r. tx_RRN r = rv_RRN payload \<and> fr \<le> tx_CreatedAt r \<and> tx_CreatedAt r < to) (txns (sv_world s1)) of
                   None \<Rightarrow> (Inl (notFound [Txt (''transaction not found on '' @ rv_TransactionDate payload)]), s1)
                 | Some orig \<Rightarrow>
                     (case reversible c orig of
                        Inl e \<Rightarrow> (Inl e, s1)
                      | Inr (cur, merchant, order) \<Rightarrow>
                          (let (err, s2) = svc_query c s1 in
                           (case err of
                              Some m \<Rightarrow> (Inl (other_error (''find reversal: '' @ m)), s2)
                            | None \<Rightarrow>
                                (case find_reversal c orig (sv_world s2) of
                                   Some ex \<Rightarrow>
                                     if tx_ID ex \<noteq> uuid_Nil \<and> tx_Status ex \<noteq> TransactionStatusFailed then
                                       (Inl (conflict [Txt (''transaction already has a reversal (rrn '' @ tx_RRN ex @ '', '' @ tx_Status ex @ '')'')]), s2)
                                     else reverse_legs c payload orig cur merchant order s2
                                 | None \<Rightarrow> reverse_legs c payload orig cur merchant order s2))))))))"

end
