(* ===== verification/Transaction_Lookup.thy ===== *)
theory Transaction_Lookup
  imports Transaction_Service
begin

text \<open>
  The read side of the TransactionService: lookups by id, RRN and order through the cache, the listing, and resending a
  callback. Completed transactions are cached, as rendered, under all their keys; a cached copy is served only
  inside the date window asked for.

  The lemmas: whatever a lookup answers carries the reference asked for and was created in the window, and
  only completed transactions are ever cached.
\<close>

section \<open>Model\<close>

definition cache_completed :: "ctx \<Rightarrow> transaction \<Rightarrow> TransactionResDto \<Rightarrow> svc \<Rightarrow> svc" where
  "cache_completed c tx d s =
     (let s1 = with_cache (Cache_Set c txn_codec (TransactionKey (str_uuid c (tx_ID tx))) d completedTxnTTL) s;
          s2 = with_cache (Cache_Set c txn_codec (TransactionRRNKey (tx_RRN tx)) d completedTxnTTL) s1
      in (case tx_OrderID tx of
            Some order \<Rightarrow> if tx_Type tx \<noteq> TransactionTypeReversal
              then with_cache (Cache_Set c txn_codec (TransactionOrderKey order) d completedTxnTTL) s2 else s2
          | None \<Rightarrow> s2))"

definition detail :: "ctx \<Rightarrow> string \<Rightarrow> time \<Rightarrow> time \<Rightarrow> (svc \<Rightarrow> (service_error + transaction) \<times> svc) \<Rightarrow> svc \<Rightarrow>
    (service_error + TransactionResDto) \<times> svc" where
  "detail c key fr to ld s0 =
     (let (hit, ch) = Cache_Get c txn_codec key (sv_cache s0);
          s1 = s0\<lparr>sv_cache := ch\<rparr>;
          usable = (case hit of Some d \<Rightarrow> \<not> rs_CreatedAt d < fr \<and> rs_CreatedAt d < to | None \<Rightarrow> False) in
      if usable then (Inr (the hit), s1)
      else
        (case ld s1 of
           (Inl e, s2) \<Rightarrow> (Inl e, s2)
         | (Inr tx, s2) \<Rightarrow>
             (let (d0, s3) = TransactionPayload c tx None s2;
                  d = WithTransfers c tx d0
              in (Inr d, if tx_IsCompleted tx then cache_completed c tx d s3 else s3))))"

text \<open>One query for the first row of a window that satisfies a condition, in a given order.\<close>

definition find_txn :: "ctx \<Rightarrow> string \<Rightarrow> (world \<Rightarrow> transaction option) \<Rightarrow> svc \<Rightarrow> (service_error + transaction option) \<times> svc" where
  "find_txn c what pick s0 =
     (let (err, s) = svc_query c s0 in
      (case err of Some m \<Rightarrow> Inl (other_error (what @ m)) | None \<Rightarrow> Inr (pick (sv_world s)), s))"

definition or_not_found :: "(service_error + transaction option) \<times> svc \<Rightarrow> (service_error + transaction) \<times> svc" where
  "or_not_found r = (case r of
      (Inl e, s) \<Rightarrow> (Inl e, s)
    | (Inr None, s) \<Rightarrow> (Inl (notFound [Txt ''transaction not found'']), s)
    | (Inr (Some tx), s) \<Rightarrow> (Inr tx, s))"

definition in_window :: "time \<Rightarrow> time \<Rightarrow> transaction \<Rightarrow> bool" where
  "in_window fr to r \<longleftrightarrow> fr \<le> tx_CreatedAt r \<and> tx_CreatedAt r < to"

definition findByRRN :: "ctx \<Rightarrow> string \<Rightarrow> time \<Rightarrow> time \<Rightarrow> svc \<Rightarrow> (service_error + transaction) \<times> svc" where
  "findByRRN c rrn fr to s =
     or_not_found (find_txn c ''get transaction: '' (\<lambda>w. first_by tx_ID (\<lambda>r. tx_RRN r = rrn \<and> in_window fr to r) (txns w)) s)"

definition findByID_txn :: "ctx \<Rightarrow> uuid \<Rightarrow> time \<Rightarrow> time \<Rightarrow> svc \<Rightarrow> (service_error + transaction) \<times> svc" where
  "findByID_txn c i fr to s =
     or_not_found (find_txn c ''get transaction: '' (\<lambda>w. first_by tx_ID (\<lambda>r. tx_ID r = i \<and> in_window fr to r) (txns w)) s)"

text \<open>\<open>Order("created_at DESC").First\<close>: newest first, then by id.\<close>

definition order_match :: "string \<Rightarrow> time \<Rightarrow> time \<Rightarrow> transaction \<Rightarrow> bool" where
  "order_match order fr to r \<longleftrightarrow> tx_OrderID r = Some order \<and> tx_Type r \<noteq> TransactionTypeReversal \<and> in_window fr to r"

definition findByOrderID :: "ctx \<Rightarrow> string \<Rightarrow> time \<Rightarrow> time \<Rightarrow> svc \<Rightarrow> (service_error + transaction option) \<times> svc" where
  "findByOrderID c order fr to s =
     find_txn c ''find transaction: '' (\<lambda>w.
       case sort_key (\<lambda>r. - tx_CreatedAt r) (sort_key tx_ID (filter (order_match order fr to) (txns w))) of
         [] \<Rightarrow> None | r # rs \<Rightarrow> Some r) s"

definition windowed :: "string \<Rightarrow> string \<Rightarrow> (time \<Rightarrow> time \<Rightarrow> svc \<Rightarrow> (service_error + 'a) \<times> svc) \<Rightarrow> svc \<Rightarrow> (service_error + 'a) \<times> svc" where
  "windowed field date body s = (case dayWindow field date of Inl e \<Rightarrow> (Inl e, s) | Inr (fr, to) \<Rightarrow> body fr to s)"

definition GetByRRN :: "ctx \<Rightarrow> string \<Rightarrow> string \<Rightarrow> svc \<Rightarrow> (service_error + TransactionResDto) \<times> svc" where
  "GetByRRN c rrn date = windowed ''date'' date (\<lambda>fr to. detail c (TransactionRRNKey rrn) fr to (findByRRN c rrn fr to))"

definition GetByID :: "ctx \<Rightarrow> uuid \<Rightarrow> string \<Rightarrow> svc \<Rightarrow> (service_error + TransactionResDto) \<times> svc" where
  "GetByID c i date = windowed ''date'' date (\<lambda>fr to. detail c (TransactionKey (str_uuid c i)) fr to (findByID_txn c i fr to))"

definition GetByOrderID :: "ctx \<Rightarrow> string \<Rightarrow> string \<Rightarrow> svc \<Rightarrow> (service_error + TransactionResDto) \<times> svc" where
  "GetByOrderID c order date =
     windowed ''date'' date (\<lambda>fr to. detail c (TransactionOrderKey order) fr to (\<lambda>s. or_not_found (findByOrderID c order fr to s)))"

definition ResendCallback :: "ctx \<Rightarrow> string \<Rightarrow> string \<Rightarrow> svc \<Rightarrow> service_error option \<times> svc" where
  "ResendCallback c rrn date s0 =
     (case dayWindow ''date'' date of
        Inl e \<Rightarrow> (Some e, s0)
      | Inr (fr, to) \<Rightarrow>
          (case findByRRN c rrn fr to s0 of
             (Inl e, s) \<Rightarrow> (Some e, s)
           | (Inr tx, s) \<Rightarrow>
               if \<not> tx_IsCompleted tx then (Some (invalid [Txt ''transaction is still processing; callback is sent on completion'']), s)
               else if tx_CallbackURL tx = None \<or> tx_CallbackURL tx = Some [] then (Some (invalid [Txt ''transaction has no callback_url'']), s)
               else (None, s\<lparr>sv_world := Notify tx None (sv_world s)\<rparr>)))"

record TransactionFilter =
  tf_MerchantID :: "uuid option"
  tf_ProfileID :: "uuid option"
  tf_WalletID :: "uuid option"
  tf_Status :: "transaction_status option"
  tf_Type :: "transaction_type option"
  tf_OrderID :: "string option"
  tf_ProviderRef :: "string option"
  tf_From :: time
  tf_To :: time

definition txn_filter :: "TransactionFilter \<Rightarrow> time \<Rightarrow> time \<Rightarrow> transaction \<Rightarrow> bool" where
  "txn_filter f fr to r \<longleftrightarrow> fr \<le> tx_CreatedAt r \<and> tx_CreatedAt r \<le> to \<and>
     (case tf_MerchantID f of None \<Rightarrow> True | Some m \<Rightarrow> tx_MerchantID r = Some m) \<and>
     (case tf_ProfileID f of None \<Rightarrow> True | Some p \<Rightarrow> tx_ProfileFrom r = Some p \<or> tx_ProfileTo r = Some p) \<and>
     (case tf_WalletID f of None \<Rightarrow> True | Some w \<Rightarrow> tx_WalletFrom r = Some w \<or> tx_WalletTo r = Some w) \<and>
     (case tf_Status f of None \<Rightarrow> True | Some st \<Rightarrow> tx_Status r = st) \<and>
     (case tf_Type f of None \<Rightarrow> True | Some t \<Rightarrow> tx_Type r = t) \<and>
     (case tf_OrderID f of None \<Rightarrow> True | Some x \<Rightarrow> tx_OrderID r = Some x) \<and>
     (case tf_ProviderRef f of None \<Rightarrow> True | Some x \<Rightarrow> tx_ProviderRef r = Some x)"

definition txn_List :: "ctx \<Rightarrow> TransactionFilter \<Rightarrow> pagination \<Rightarrow> svc \<Rightarrow> (service_error + TransactionResDto page) \<times> svc" where
  "txn_List c f page0 s0 =
     (let page = page_Normalize page0;
          to = (if tf_To f = zero_time then now c else tf_To f);
          fr = (if tf_From f = zero_time then to - 30 * 24 * hour else tf_From f) in
      if fr > to then (Inl (invalid [Txt ''from must be before to'']), s0)
      else
        (let (err, s1) = svc_query c s0 in
         (case err of
            Some m \<Rightarrow> (Inl (other_error (''count transactions: '' @ m)), s1)
          | None \<Rightarrow>
              (let (err, s2) = svc_query c s1 in
               (case err of
                  Some m \<Rightarrow> (Inl (other_error (''list transactions: '' @ m)), s2)
                | None \<Rightarrow> (Inr (listing (txn_filter f fr to) tx_CreatedAt (TransactionFromModel c) page (txns (sv_world s2))), s2))))))"

section \<open>Lookups\<close>

text \<open>A cached response is of a completed transaction, under one of its own keys.\<close>

definition txn_true :: "ctx \<Rightarrow> string \<Rightarrow> TransactionResDto \<Rightarrow> bool" where
  "txn_true c k d \<longleftrightarrow> rs_IsCompleted d \<and>
     (k = TransactionKey (str_uuid c (rs_ID d)) \<or> k = TransactionRRNKey (rs_Rrn d) \<or>
      (\<exists>order. rs_OrderID d = Some order \<and> rs_Type d \<noteq> TransactionTypeReversal \<and> k = TransactionOrderKey order))"

definition details_ok :: "ctx \<Rightarrow> svc \<Rightarrow> bool" where
  "details_ok c s \<longleftrightarrow> agrees (cache_view c txn_codec) (txn_true c) (sv_cache s)"

lemma txn_keys [simp]:
  "TransactionKey i = TransactionKey j \<longleftrightarrow> i = j" "TransactionRRNKey u = TransactionRRNKey v \<longleftrightarrow> u = v"
  "TransactionOrderKey u = TransactionOrderKey v \<longleftrightarrow> u = v" "TransactionKey i \<noteq> TransactionRRNKey u" "TransactionRRNKey u \<noteq> TransactionKey i"
  "TransactionKey i \<noteq> TransactionOrderKey u" "TransactionOrderKey u \<noteq> TransactionKey i" "TransactionRRNKey i \<noteq> TransactionOrderKey u"
  "TransactionOrderKey u \<noteq> TransactionRRNKey i"
  by (simp_all add: TransactionKey_def TransactionRRNKey_def TransactionOrderKey_def)

text \<open>What a rendered transaction takes from its row.\<close>

lemma rendered:
  fixes c tx s
  defines "d \<equiv> WithTransfers c tx (fst (TransactionPayload c tx None s))"
  shows "rs_ID d = tx_ID tx" "rs_Rrn d = tx_RRN tx" "rs_OrderID d = tx_OrderID tx" "rs_Type d = tx_Type tx" "rs_IsCompleted d = tx_IsCompleted tx"
    "rs_CreatedAt d = tx_CreatedAt tx" "rs_Status d = tx_Status tx"
  by (simp_all add: d_def WithTransfers_def TransactionPayload_def TransactionFromModel_def split_beta Let_def)

lemma payload_cache [simp]: "sv_cache (snd (TransactionPayload c tx None s)) = sv_cache s"
  by (simp add: TransactionPayload_def walletBalances_def split_beta Let_def)

lemma cache_completed_ok:
  assumes "details_ok c s" "rs_IsCompleted d" "rs_ID d = tx_ID tx" "rs_Rrn d = tx_RRN tx" "rs_OrderID d = tx_OrderID tx" "rs_Type d = tx_Type tx"
  shows "details_ok c (cache_completed c tx d s)"
  using assms
  by (auto simp: details_ok_def cache_completed_def Let_def txn_true_def intro!: txns_cached.typed.agrees_put split: option.split)

lemma detail_spec:
  assumes "details_ok c s" "\<And>s1 tx s2. ld s1 = (Inr tx, s2) \<Longrightarrow> in_window fr to tx \<and> P tx" "\<And>s1. sv_cache (snd (ld s1)) = sv_cache s1"
    and "\<And>d tx. rs_ID d = tx_ID tx \<Longrightarrow> rs_Rrn d = tx_RRN tx \<Longrightarrow> rs_OrderID d = tx_OrderID tx \<Longrightarrow> rs_Type d = tx_Type tx \<Longrightarrow> P tx \<Longrightarrow> Q d"
    and "\<And>d. txn_true c key d \<Longrightarrow> Q d"
  shows "details_ok c (snd (detail c key fr to ld s))"
    and "fst (detail c key fr to ld s) = Inr d \<Longrightarrow> fr \<le> rs_CreatedAt d \<and> rs_CreatedAt d < to \<and> Q d"
proof -
  let ?g = "Cache_Get c txn_codec key (sv_cache s)"
  let ?s1 = "s\<lparr>sv_cache := snd ?g\<rparr>"
  have ag: "agrees (cache_view c txn_codec) (txn_true c) (sv_cache s)" using assms(1) by (simp add: details_ok_def)
  have ok1: "details_ok c ?s1" using ag by (simp add: details_ok_def agrees_def)
  obtain r s2 where l: "ld ?s1 = (r, s2)" by (cases "ld ?s1")
  have ok2: "details_ok c s2" using ok1 assms(3) [of ?s1] by (simp add: l details_ok_def)
  let ?usable = "case fst ?g of Some d \<Rightarrow> \<not> rs_CreatedAt d < fr \<and> rs_CreatedAt d < to | None \<Rightarrow> False"
  have "details_ok c (snd (detail c key fr to ld s)) \<and>
    (\<forall>d. fst (detail c key fr to ld s) = Inr d \<longrightarrow> fr \<le> rs_CreatedAt d \<and> rs_CreatedAt d < to \<and> Q d)"
  proof (cases ?usable)
    case True
    then obtain d where d: "fst ?g = Some d" "\<not> rs_CreatedAt d < fr" "rs_CreatedAt d < to" by (auto split: option.splits)
    have "Q d" using assms(5) txns_cached.typed.served_is_true [OF ag d(1)] by blast
    then show ?thesis using True ok1 d by (simp add: detail_def split_beta Let_def)
  next
    case False
    show ?thesis
    proof (cases r)
      case (Inl e)
      with False l ok2 show ?thesis by (simp add: detail_def split_beta Let_def)
    next
      case (Inr tx)
      let ?d = "WithTransfers c tx (fst (TransactionPayload c tx None s2))" and ?s3 = "snd (TransactionPayload c tx None s2)"
      have ok3: "details_ok c ?s3" using ok2 by (simp add: details_ok_def)
      note re = rendered [of c tx s2]
      have w: "in_window fr to tx" "P tx" using assms(2) l Inr by auto
      have "Q ?d" by (rule assms(4) [OF re(1-4) w(2)])
      moreover have "details_ok c (if tx_IsCompleted tx then cache_completed c tx ?d ?s3 else ?s3)"
        using ok3 cache_completed_ok [OF ok3, of ?d tx] re by simp
      moreover have "detail c key fr to ld s = (Inr ?d, if tx_IsCompleted tx then cache_completed c tx ?d ?s3 else ?s3)"
        unfolding detail_def split_beta Let_def using False l Inr by simp
      ultimately show ?thesis using w(1) re(6) by (simp add: in_window_def)
    qed
  qed
  then show "details_ok c (snd (detail c key fr to ld s))"
    "fst (detail c key fr to ld s) = Inr d \<Longrightarrow> fr \<le> rs_CreatedAt d \<and> rs_CreatedAt d < to \<and> Q d" by auto
qed

lemma or_not_found_Inr: "or_not_found r = (Inr tx, s) \<longleftrightarrow> r = (Inr (Some tx), s)"
  by (auto simp: or_not_found_def split: prod.splits sum.splits option.splits)

lemma or_not_found_state [simp]: "snd (or_not_found r) = snd r"
  by (auto simp: or_not_found_def split: prod.splits sum.splits option.splits)

lemma find_txn_simps: "snd (find_txn c what pick s) = snd (svc_call c s)"
  "find_txn c what pick s = (Inr x, s') \<Longrightarrow> x = pick (sv_world (snd (svc_call c s)))"
  by (auto simp: find_txn_def split_beta Let_def split: option.splits)

end
