(* ===== verification/Transaction_Guarantees.thy ===== *)
theory Transaction_Guarantees
  imports Transaction_Lookup Transaction_Outcome
begin

text \<open>
  The properties of the TransactionService: what initiating and reversing write and send, that a reversal undoes the ledger
  of its original and checks its funds exactly, and what lookups answer.
\<close>

section \<open>What the service's reads leave alone\<close>

text \<open>The tables and messages a transaction is made of.\<close>

definition db_view :: "svc \<Rightarrow> wallet_table \<times> ledger list \<times> transaction list \<times> (uuid \<times> StartTransactionMsg) list \<times> (uuid \<times> wallet_msg) list" where
  "db_view s = (wallets (sv_world s), ledgers (sv_world s), txns (sv_world s), txbox (sv_world s), outbox (sv_world s))"

lemma db_view_frame [simp]:
  "db_view (snd (svc_call c s)) = db_view s" "db_view (with_cache f s) = db_view s" "db_view (s\<lparr>sv_cache := ch\<rparr>) = db_view s"
  "db_view (s\<lparr>sv_world := (sv_world s)\<lparr>n_uuid := n\<rparr>\<rparr>) = db_view s" "db_view (s\<lparr>sv_world := (sv_world s)\<lparr>n_rrn := n\<rparr>\<rparr>) = db_view s"
  "db_view (s\<lparr>sv_world := (sv_world s)\<lparr>n_pid := n\<rparr>\<rparr>) = db_view s"
  by (simp_all add: db_view_def)

lemma db_view_draws [simp]: "db_view (snd (uuid_New c s)) = db_view s" "db_view (snd (GenerateRrn_svc c s)) = db_view s"
  by (simp_all add: uuid_New_def GenerateRrn_svc_def)

lemma cacheProfile_db [simp]: "db_view (cacheProfile c p s) = db_view s"
  by (simp add: cacheProfile_def Let_def split: option.split)

lemma cache_metas_db [simp]: "db_view (cache_metas c rows s) = db_view s"
  unfolding cache_metas_def by (induction rows arbitrary: s) simp_all

lemma FindByID_db [simp]: "db_view (snd (FindByID c i s)) = db_view s"
  by (simp add: FindByID_def split_beta Let_def split: option.split)

lemma ValidateWallets_db [simp]: "db_view (snd (ValidateWallets c ids s)) = db_view s"
  by (simp add: ValidateWallets_def split_beta Let_def split: option.split)

lemma buildTransaction_db [simp]: "db_view (snd (buildTransaction c payload pl ws s)) = db_view s"
  by (simp add: buildTransaction_def split_beta Let_def)

lemma reversalLegs_db [simp]: "db_view (snd (reversalLegs c orig s)) = db_view s"
  by (simp add: reversalLegs_def split_beta Let_def split: option.split)

lemma ensureReversalFunds_db [simp]: "db_view (snd (ensureReversalFunds c legs cur s)) = db_view s"
  by (simp add: ensureReversalFunds_def split_beta Let_def)

lemma db_viewD:
  assumes "db_view s' = db_view s"
  shows "wallets (sv_world s') = wallets (sv_world s)" "ledgers (sv_world s') = ledgers (sv_world s)" "txns (sv_world s') = txns (sv_world s)"
    "txbox (sv_world s') = txbox (sv_world s)" "outbox (sv_world s') = outbox (sv_world s)"
  using assms by (simp_all add: db_view_def)

section \<open>The row and the message\<close>

lemma set_party_frame [simp]:
  "tx_ID (set_party ws tx tr) = tx_ID tx" "tx_RRN (set_party ws tx tr) = tx_RRN tx" "tx_Status (set_party ws tx tr) = tx_Status tx"
  "tx_IsCompleted (set_party ws tx tr) = tx_IsCompleted tx" "tx_Amount (set_party ws tx tr) = tx_Amount tx" "tx_Fee (set_party ws tx tr) = tx_Fee tx"
  "tx_Type (set_party ws tx tr) = tx_Type tx" "tx_OrderID (set_party ws tx tr) = tx_OrderID tx" "tx_ProviderRef (set_party ws tx tr) = tx_ProviderRef tx"
  "tx_Currency (set_party ws tx tr) = tx_Currency tx" "tx_MerchantID (set_party ws tx tr) = tx_MerchantID tx"
  by (simp_all add: set_party_def set_sender_def set_receiver_def Let_def split: option.split)

lemma set_parties_frame [simp]:
  "tx_ID (foldl (set_party ws) tx trs) = tx_ID tx" "tx_RRN (foldl (set_party ws) tx trs) = tx_RRN tx"
  "tx_Status (foldl (set_party ws) tx trs) = tx_Status tx" "tx_IsCompleted (foldl (set_party ws) tx trs) = tx_IsCompleted tx"
  "tx_Amount (foldl (set_party ws) tx trs) = tx_Amount tx" "tx_Fee (foldl (set_party ws) tx trs) = tx_Fee tx"
  "tx_Type (foldl (set_party ws) tx trs) = tx_Type tx" "tx_OrderID (foldl (set_party ws) tx trs) = tx_OrderID tx"
  "tx_ProviderRef (foldl (set_party ws) tx trs) = tx_ProviderRef tx" "tx_Currency (foldl (set_party ws) tx trs) = tx_Currency tx"
  "tx_MerchantID (foldl (set_party ws) tx trs) = tx_MerchantID tx"
  by (induction trs arbitrary: tx) simp_all

text \<open>The row that is inserted: the transaction given, with its plan, an RRN and the time of the insert.\<close>

definition row_of :: "ctx \<Rightarrow> transaction \<Rightarrow> transfer_leg list \<Rightarrow> transaction \<Rightarrow> bool" where
  "row_of c tx legs row \<longleftrightarrow> (\<exists>rrn. row = tx\<lparr>tx_Transfers := Some (EncodePlan c legs), tx_RRN := rrn, tx_CreatedAt := now c, tx_UpdatedAt := now c\<rparr>)"

definition inserted :: "ctx \<Rightarrow> transaction \<Rightarrow> svc \<Rightarrow> transaction \<Rightarrow> svc \<Rightarrow> bool" where
  "inserted c tx s row s' \<longleftrightarrow> (\<exists>rrn. row = tx\<lparr>tx_RRN := rrn, tx_CreatedAt := now c, tx_UpdatedAt := now c\<rparr>) \<and>
     wallets (sv_world s') = wallets (sv_world s) \<and> ledgers (sv_world s') = ledgers (sv_world s) \<and> txbox (sv_world s') = txbox (sv_world s) \<and>
     outbox (sv_world s') = outbox (sv_world s) \<and> txns (sv_world s') = txns (sv_world s) @ [row] \<and> 0 < tx_Amount row \<and> 0 \<le> tx_Fee row \<and>
     \<not> list_ex (\<lambda>r. tx_RRN r = tx_RRN row \<and> tx_CreatedAt r = tx_CreatedAt row) (txns (sv_world s))"

lemma insert_txn_cases:
  obtains (refused) e where "fst (insert_txn c tx s) = Inl e" "db_view (snd (insert_txn c tx s)) = db_view s"
  | (lost) m row where "fst (insert_txn c tx s) = Inl (DbError m)" "inserted c tx s row (snd (insert_txn c tx s))"
  | (ok) row where "fst (insert_txn c tx s) = Inr row" "inserted c tx s row (snd (insert_txn c tx s))"
proof -
  obtain f s1 where f: "svc_call c s = (f, s1)" by (cases "svc_call c s")
  have fr: "db_view s1 = db_view s" using db_view_frame(1) [of c s] by (simp add: f)
  let ?row = "tx\<lparr>tx_CreatedAt := now c, tx_UpdatedAt := now c\<rparr>"
  let ?s' = "s1\<lparr>sv_world := (sv_world s1)\<lparr>txns := txns (sv_world s1) @ [?row]\<rparr>\<rparr>"
  let ?bad = "list_ex (\<lambda>r. tx_RRN r = tx_RRN tx \<and> tx_CreatedAt r = now c) (txns (sv_world s1)) \<or>
     list_ex (\<lambda>r. tx_ID r = tx_ID tx \<and> tx_CreatedAt r = now c) (txns (sv_world s1)) \<or> tx_Amount tx \<le> 0 \<or> tx_Fee tx < 0"
  have ins: "inserted c tx s ?row ?s'" if "\<not> ?bad"
    unfolding inserted_def using that db_viewD [OF fr] by (intro conjI exI [of _ "tx_RRN tx"]) (simp_all add: list_ex_iff)
  have noeffect: thesis if "\<exists>e. insert_txn c tx s = (Inl e, s1)"
    using that refused fr by auto
  consider (failed) m where "f = Failed m" | (bad) "\<forall>m. f \<noteq> Failed m" ?bad | (none) "f = NoFault" "\<not> ?bad"
    | (lost) m where "f = LostAck m" "\<not> ?bad"
    by (cases f) auto
  then show thesis
  proof cases
    case (failed m)
    then have "insert_txn c tx s = (Inl (DbError m), s1)" by (simp add: insert_txn_def f Let_def)
    then have "\<exists>e. insert_txn c tx s = (Inl e, s1)" ..
    then show thesis by (rule noeffect)
  next
    case bad
    then have "\<exists>e. insert_txn c tx s = (Inl e, s1)" by (cases f) (auto simp: insert_txn_def f Let_def)
    then show thesis by (rule noeffect)
  next
    case none
    then show thesis using ins [OF none(2)] by (intro ok [of ?row]) (simp_all add: insert_txn_def f Let_def)
  next
    case (lost m)
    then show thesis using ins [OF lost(2)] by (intro that(2) [of m ?row]) (simp_all add: insert_txn_def f Let_def)
  qed
qed

lemma inserted_rrn: "inserted c (tx\<lparr>tx_RRN := x\<rparr>) s row s' \<Longrightarrow> inserted c tx s row s'"
  by (auto simp: inserted_def)

lemma inserted_view: "db_view s1 = db_view s \<Longrightarrow> inserted c tx s1 row s' = inserted c tx s row s'"
  by (simp add: inserted_def db_view_def)

lemma create_attempts_spec:
  assumes "create_attempts c n err tx s = (r, s')"
  shows "(\<exists>row. r = Inr row \<and> inserted c tx s row s') \<or> (\<exists>e. r = Inl e \<and> (db_view s' = db_view s \<or> (\<exists>row. inserted c tx s row s')))"
  using assms
proof (induction n arbitrary: err tx s)
  case (Suc n)
  obtain ri s1 where i: "insert_txn c tx s = (ri, s1)" by fastforce
  show ?case
  proof (cases rule: insert_txn_cases [of c tx s])
    case (refused e)
    then have v: "ri = Inl e" "db_view s1 = db_view s" using i by simp_all
    show ?thesis
    proof (cases "isRRNConflict e")
      case True
      have "create_attempts c n e (tx\<lparr>tx_RRN := fst (GenerateRrn_svc c s1)\<rparr>) (snd (GenerateRrn_svc c s1)) = (r, s')"
        using Suc.prems True i v(1) by (simp add: split_beta Let_def)
      from Suc.IH [OF this] have "(\<exists>row. r = Inr row \<and> inserted c tx s1 row s') \<or>
          (\<exists>e. r = Inl e \<and> (db_view s' = db_view s1 \<or> (\<exists>row. inserted c tx s1 row s')))"
        using inserted_rrn inserted_view [of "snd (GenerateRrn_svc c s1)" s1] by (metis db_view_draws(2))
      then show ?thesis using v(2) inserted_view [OF v(2)] by simp
    next
      case False
      then show ?thesis using Suc.prems i v by auto
    qed
  next
    case (lost m row)
    then show ?thesis using Suc.prems i by (auto simp: isRRNConflict_def)
  next
    case (ok row)
    then show ?thesis using Suc.prems i by auto
  qed
qed auto

text \<open>What \<open>dispatch\<close> can do: nothing, a row without a message (its acknowledgement was lost), or a row with its message.\<close>

lemma dispatch_spec:
  assumes "dispatch c tx legs s = (r, s')"
  obtains (refused) e where "r = Inl e" "db_view s' = db_view s"
  | (lost) e row where "r = Inl e" "se_Kind e = ErrOther" "inserted c (tx\<lparr>tx_Transfers := Some (EncodePlan c legs)\<rparr>) s row s'"
  | (sent) row where "r = Inr (TransactionFromModel c row)" "row_of c tx legs row" "txns (sv_world s') = txns (sv_world s) @ [row]"
      "txbox (sv_world s') = txbox (sv_world s) @ [(tx_ID row, start_message c row legs)]"
      "wallets (sv_world s') = wallets (sv_world s)" "ledgers (sv_world s') = ledgers (sv_world s)" "outbox (sv_world s') = outbox (sv_world s)"
proof -
  let ?tx = "tx\<lparr>tx_Transfers := Some (EncodePlan c legs)\<rparr>"
  let ?s1 = "s\<lparr>sv_world := (sv_world s)\<lparr>n_pid := Suc (n_pid (sv_world s))\<rparr>\<rparr>"
  obtain rc s2 where cr: "txn_create c ?tx ?s1 = (rc, s2)" by fastforce
  note spec = create_attempts_spec [OF cr [unfolded txn_create_def], unfolded inserted_view [OF db_view_frame(6)] db_view_frame(6)]
  show thesis
  proof (cases "placed c (n_pid (sv_world s)) (tx_ID tx)")
    case False
    then show thesis using assms refused by (auto simp: dispatch_def Let_def)
  next
    case True
    show thesis
    proof (cases rc)
      case (Inl e)
      then have "r = Inl (other_error (''create transaction: '' @ db_error_text e))" "s' = s2"
        using assms True cr by (simp_all add: dispatch_def Let_def)
      then show thesis using spec Inl refused lost by (auto simp: other_error_def)
    next
      case (Inr row)
      then have e: "r = Inr (TransactionFromModel c row)"
        "s' = s2\<lparr>sv_world := (sv_world s2)\<lparr>txbox := txbox (sv_world s2) @ [(tx_ID row, start_message c row legs)]\<rparr>\<rparr>"
        using assms True cr by (simp_all add: dispatch_def Let_def)
      have "inserted c ?tx s row s2" using spec Inr by auto
      then show thesis by (intro sent [OF e(1)]) (auto simp: e(2) inserted_def row_of_def)
    qed
  qed
qed

section \<open>Initiating\<close>

text \<open>Every path through \<open>Initiate\<close>: a refusal that only read, or a dispatch of the validated plan.\<close>

lemma Initiate_cases:
  obtains (refused) e where "fst (Initiate c payload s) = Inl e" "db_view (snd (Initiate c payload s)) = db_view s"
  | (dispatched) ws merchant n pl s3 where "fst (ValidateTransactionRequest c payload ws merchant n) = Inr pl" "db_view s3 = db_view s"
      "Initiate c payload s = dispatch c (fst (buildTransaction c payload pl ws s3)) (pl_Legs pl) (snd (buildTransaction c payload pl ws s3))"
proof -
  obtain rw s1 where v: "ValidateWallets c (map en_WalletID (rq_Transfers payload)) s = (rw, s1)" by fastforce
  have v1: "db_view s1 = db_view s" using ValidateWallets_db [of c "map en_WalletID (rq_Transfers payload)" s] v by simp
  show thesis
  proof (cases rw)
    case (Inl e)
    with v v1 show thesis by (intro refused [of e]) (simp_all add: Initiate_def)
  next
    case (Inr ws)
    obtain rm s2 where f: "FindByID c (rq_MerchantID payload) s1 = (rm, s2)" by fastforce
    have v2: "db_view s2 = db_view s" using FindByID_db [of c "rq_MerchantID payload" s1] f v1 by simp
    show thesis
    proof (cases rm)
      case (Inl e)
      with v Inr f v2 show thesis by (intro refused [of e]) (simp_all add: Initiate_def)
    next
      case m: (Inr merchant)
      obtain rp n where p: "ValidateTransactionRequest c payload ws merchant (n_uuid (sv_world s2)) = (rp, n)" by fastforce
      show thesis
      proof (cases rp)
        case (Inl e)
        with v Inr f m p v2 show thesis by (intro refused [of e]) (simp_all add: Initiate_def)
      next
        case rp: (Inr pl)
        with v Inr f m p v2 show thesis
          by (intro dispatched [of ws merchant "n_uuid (sv_world s2)" pl "s2\<lparr>sv_world := (sv_world s2)\<lparr>n_uuid := n\<rparr>\<rparr>"])
            (simp_all add: Initiate_def split_beta Let_def)
      qed
    qed
  qed
qed

lemma buildTransaction_fields:
  fixes c payload pl ws s
  defines "tx \<equiv> fst (buildTransaction c payload pl ws s)"
  shows "tx_Status tx = TransactionStatusPending" "\<not> tx_IsCompleted tx" "tx_Amount tx = pl_TotalAmount pl" "tx_Fee tx = pl_Fee pl"
    "tx_Type tx = rq_Type payload" "tx_OrderID tx = Some (rq_OrderId payload)" "tx_ProviderRef tx = Some (rq_ProviderRef payload)"
  by (simp_all add: tx_def buildTransaction_def split_beta Let_def)

text \<open>
  Claim C12. Initiating a transaction writes one pending row and sends one start message, and moves no money. On success the
  row carries the validated totals and the encoded plan, the message carries the same legs and is addressed to the row's own
  id, and the caller is answered with that row. On an error no message is sent, and the
  table is as before, except that an insert whose acknowledgement was lost leaves its pending row for recovery.
\<close>

theorem initiate_effect:
  "case Initiate c payload s of (r, s') \<Rightarrow>
     wallets (sv_world s') = wallets (sv_world s) \<and> ledgers (sv_world s') = ledgers (sv_world s) \<and> outbox (sv_world s') = outbox (sv_world s) \<and>
     (case r of
        Inr d \<Rightarrow> \<exists>row pl ws merchant n. fst (ValidateTransactionRequest c payload ws merchant n) = Inr pl \<and>
          txns (sv_world s') = txns (sv_world s) @ [row] \<and> tx_Status row = TransactionStatusPending \<and> \<not> tx_IsCompleted row \<and>
          tx_Amount row = pl_TotalAmount pl \<and> tx_Fee row = pl_Fee pl \<and> tx_Type row = rq_Type payload \<and> tx_CreatedAt row = now c \<and>
          tx_OrderID row = Some (rq_OrderId payload) \<and> tx_Transfers row = Some (EncodePlan c (pl_Legs pl)) \<and>
          txbox (sv_world s') = txbox (sv_world s) @ [(tx_ID row, start_message c row (pl_Legs pl))] \<and> d = TransactionFromModel c row
      | Inl e \<Rightarrow> txbox (sv_world s') = txbox (sv_world s) \<and> (txns (sv_world s') = txns (sv_world s) \<or>
          (\<exists>row. txns (sv_world s') = txns (sv_world s) @ [row] \<and> tx_Status row = TransactionStatusPending \<and> \<not> tx_IsCompleted row)))"
proof (cases rule: Initiate_cases [of c payload s])
  case (refused e)
  then show ?thesis by (simp add: split_beta db_view_def)
next
  case (dispatched ws merchant n pl s3)
  let ?b = "buildTransaction c payload pl ws s3"
  obtain r s' where d: "dispatch c (fst ?b) (pl_Legs pl) (snd ?b) = (r, s')" by fastforce
  have i: "Initiate c payload s = (r, s')" using dispatched(3) d by simp
  have b: "db_view (snd ?b) = db_view s" using dispatched(2) by simp
  note bd = db_viewD [OF b] and tx = buildTransaction_fields [of c payload pl ws s3]
  from d show ?thesis
  proof (cases rule: dispatch_spec)
    case (refused e)
    with b show ?thesis by (simp add: i db_view_def)
  next
    case (lost e row)
    then show ?thesis using tx bd by (auto simp: i inserted_def)
  next
    case (sent row)
    then have "fst (ValidateTransactionRequest c payload ws merchant n) = Inr pl \<and>
      txns (sv_world s') = txns (sv_world s) @ [row] \<and> tx_Status row = TransactionStatusPending \<and> \<not> tx_IsCompleted row \<and>
      tx_Amount row = pl_TotalAmount pl \<and> tx_Fee row = pl_Fee pl \<and> tx_Type row = rq_Type payload \<and> tx_CreatedAt row = now c \<and>
      tx_OrderID row = Some (rq_OrderId payload) \<and> tx_Transfers row = Some (EncodePlan c (pl_Legs pl)) \<and>
      txbox (sv_world s') = txbox (sv_world s) @ [(tx_ID row, start_message c row (pl_Legs pl))]"
      using tx bd dispatched(1) unfolding row_of_def by auto
    then show ?thesis using sent(1,5-7) bd unfolding i prod.case by (auto intro!: exI [of _ row] exI [of _ pl])
  qed
qed

section \<open>Looking up\<close>

lemma findByRRN_facts:
  "sv_cache (snd (findByRRN c rrn fr to s)) = sv_cache s"
  "findByRRN c rrn fr to s = (Inr tx, s') \<Longrightarrow> in_window fr to tx \<and> tx_RRN tx = rrn"
  unfolding findByRRN_def or_not_found_Inr by (auto simp: find_txn_simps dest!: find_txn_simps(2) [symmetric] first_by_Some)

lemma findByID_facts:
  "sv_cache (snd (findByID_txn c i fr to s)) = sv_cache s"
  "findByID_txn c i fr to s = (Inr tx, s') \<Longrightarrow> in_window fr to tx \<and> tx_ID tx = i"
  unfolding findByID_txn_def or_not_found_Inr by (auto simp: find_txn_simps dest!: find_txn_simps(2) [symmetric] first_by_Some)

lemma sort_head_mem: "(case sort_key f xs of [] \<Rightarrow> None | r # rs \<Rightarrow> Some r) = Some y \<Longrightarrow> y \<in> set xs"
  by (metis (no_types, lifting) list.case_eq_if list.set_sel(1) option.distinct(1) option.inject set_sort)

lemma findByOrder_facts:
  "sv_cache (snd (or_not_found (findByOrderID c d fr to s))) = sv_cache s"
  "or_not_found (findByOrderID c d fr to s) = (Inr tx, s') \<Longrightarrow> in_window fr to tx \<and> tx_OrderID tx = Some d \<and> tx_Type tx \<noteq> TransactionTypeReversal"
  unfolding findByOrderID_def or_not_found_Inr
  by (auto simp: find_txn_simps order_match_def dest!: find_txn_simps(2) [symmetric] sort_head_mem)

text \<open>
  Claim C25. A lookup answers only what was asked for. Whatever the cache serves or the table holds, a transaction found by id, RRN
  or order carries that reference and was created inside the date window asked for; an order never answers with a reversal; and
  the cache keeps holding completed transactions only, each under its own keys.
\<close>

theorem lookups_match_reference:
  assumes "details_ok c s" "uuid_codec c" "dayWindow ''date'' date = Inr (fr, to)"
  shows "details_ok c (snd (GetByRRN c rrn date s)) \<and> details_ok c (snd (GetByID c i date s)) \<and> details_ok c (snd (GetByOrderID c order date s)) \<and>
    (\<forall>d. fst (GetByRRN c rrn date s) = Inr d \<longrightarrow> rs_Rrn d = rrn \<and> fr \<le> rs_CreatedAt d \<and> rs_CreatedAt d < to) \<and>
    (\<forall>d. fst (GetByID c i date s) = Inr d \<longrightarrow> rs_ID d = i \<and> fr \<le> rs_CreatedAt d \<and> rs_CreatedAt d < to) \<and>
    (\<forall>d. fst (GetByOrderID c order date s) = Inr d \<longrightarrow> rs_OrderID d = Some order \<and> rs_Type d \<noteq> TransactionTypeReversal \<and>
       fr \<le> rs_CreatedAt d \<and> rs_CreatedAt d < to)"
proof -
  have keys: "txn_true c (TransactionRRNKey rrn) d \<Longrightarrow> rs_Rrn d = rrn" "txn_true c (TransactionKey (str_uuid c i)) d \<Longrightarrow> rs_ID d = i"
    "txn_true c (TransactionOrderKey order) d \<Longrightarrow> rs_OrderID d = Some order \<and> rs_Type d \<noteq> TransactionTypeReversal" for d
    using str_uuid_inject [OF assms(2)] by (auto simp: txn_true_def)
  note rrn = detail_spec [OF assms(1) findByRRN_facts(2,1) _ keys(1)]
    and i = detail_spec [OF assms(1) findByID_facts(2,1) _ keys(2)]
    and order = detail_spec [OF assms(1) findByOrder_facts(2,1) _ keys(3)]
  have R: "details_ok c (snd (GetByRRN c rrn date s))"
    "fst (GetByRRN c rrn date s) = Inr d \<Longrightarrow> fr \<le> rs_CreatedAt d \<and> rs_CreatedAt d < to \<and> rs_Rrn d = rrn" for d
    unfolding GetByRRN_def windowed_def assms(3) sum.case prod.case by (rule rrn; simp)+
  have I: "details_ok c (snd (GetByID c i date s))"
    "fst (GetByID c i date s) = Inr d \<Longrightarrow> fr \<le> rs_CreatedAt d \<and> rs_CreatedAt d < to \<and> rs_ID d = i" for d
    unfolding GetByID_def windowed_def assms(3) sum.case prod.case by (rule i; simp)+
  have O: "details_ok c (snd (GetByOrderID c order date s))" "fst (GetByOrderID c order date s) = Inr d \<Longrightarrow>
      fr \<le> rs_CreatedAt d \<and> rs_CreatedAt d < to \<and> rs_OrderID d = Some order \<and> rs_Type d \<noteq> TransactionTypeReversal" for d
    unfolding GetByOrderID_def windowed_def assms(3) sum.case prod.case by (rule order; simp)+
  show ?thesis using R I O by blast
qed

definition demo_lookup_svc :: svc where
  "demo_lookup_svc = demo_svc\<lparr>sv_world := empty_world\<lparr>txns := [demo_tx\<lparr>tx_Status := TransactionStatusSuccess, tx_IsCompleted := True\<rparr>]\<rparr>\<rparr>"

lemma demo_window: "dayWindow field ''1970-01-01'' = Inr (- 24 * hour, 48 * hour)"
  by code_simp

lemma demo_lookup_runs: "is_ok (fst (GetByRRN demo_ctx ''r1'' ''1970-01-01'' demo_lookup_svc))"
  by (simp add: GetByRRN_def windowed_def demo_window detail_def Cache_Get_def split_beta Let_def demo_lookup_svc_def demo_svc_def demo_cache_def
      Start_def stored_def Enabled_def cache_call_def findByRRN_def find_txn_def svc_query_def svc_call_def db_call_def first_by_def in_window_def
      or_not_found_def hour_def demo_tx_def minute_def second_def empty_world_def split: fault.split)

theorem lookups_match_reference_witness:
  "\<exists>d. fst (GetByRRN demo_ctx ''r1'' ''1970-01-01'' demo_lookup_svc) = Inr d \<and> rs_Rrn d = ''r1'' \<and> rs_CreatedAt d < 48 * hour"
proof -
  have ok: "details_ok demo_ctx demo_lookup_svc"
    by (simp add: details_ok_def agrees_def demo_lookup_svc_def demo_svc_def demo_cache_empty)
  obtain d where d: "fst (GetByRRN demo_ctx ''r1'' ''1970-01-01'' demo_lookup_svc) = Inr d" using demo_lookup_runs by (auto simp: is_ok_iff)
  with lookups_match_reference [OF ok demo_codec demo_window, of "''r1''"] show ?thesis by blast
qed

end
