(* ===== verification/Reversal.thy ===== *)
theory Reversal
  imports Transaction_Guarantees Wallet_Reads "HOL-Library.Multiset"
begin

text \<open>
  What reversing a transaction does (\<open>Reverse\<close>, \<open>reversalLegs\<close> and \<open>ensureReversalFunds\<close> in
  \<open>internal/services/transaction.go\<close>): the legs of a reversal undo the ledger of the original wallet by wallet, they are sent
  only when every debited wallet can pay, only for a successful transaction that has no live reversal, and a second request
  is refused.
\<close>

section \<open>The inverse of a ledger\<close>

definition leg_net :: "uuid \<Rightarrow> transfer_leg list \<Rightarrow> int" where
  "leg_net i legs = sum_list (map (\<lambda>l. signed_amount (tl_Action l) (tl_Amount l)) (filter (\<lambda>l. tl_WalletID l = i) legs))"

definition inverse_leg :: "ledger \<Rightarrow> transfer_leg \<Rightarrow> bool" where
  "inverse_leg r l \<longleftrightarrow> tl_WalletID l = l_WalletID r \<and> tl_Action l = Opposite (l_Type r) \<and> tl_Amount l = l_Amount r"

definition records_leg :: "(uuid \<Rightarrow> transfer_leg option) \<Rightarrow> ledger \<Rightarrow> bool" where
  "records_leg byKey r \<longleftrightarrow> (\<exists>k leg. l_IdempotencyKey r = Some k \<and> byKey k = Some leg \<and> tl_WalletID leg = l_WalletID r \<and>
     tl_Action leg = l_Type r \<and> tl_Amount leg = l_Amount r)"

lemma leg_net_simps [simp]: "leg_net i [] = 0"
  "leg_net i (l # ls) = (if tl_WalletID l = i then signed_amount (tl_Action l) (tl_Amount l) else 0) + leg_net i ls"
  by (simp_all add: leg_net_def)

lemma signed_Opposite: "signed_amount (Opposite a) n = - signed_amount a n"
  by (simp add: signed_amount_def Opposite_def)

lemma inverse_net: "list_all2 inverse_leg rows legs \<Longrightarrow> net i rows + leg_net i legs = 0"
  by (induction rows legs rule: list_all2_induct) (simp_all add: net_def inverse_leg_def signed_Opposite)

lemma invert_rows_spec:
  assumes "invert_rows c byKey rows n = (Some legs, n')"
  shows "list_all2 inverse_leg rows legs \<and> map tl_IdempotencyKey legs = map (new_uuid c) [n..<n + length rows] \<and>
    distinct (map l_IdempotencyKey rows) \<and> list_all (records_leg byKey) rows"
  using assms
proof (induction c byKey rows n arbitrary: legs n' rule: invert_rows.induct)
  case (2 c byKey r rs n)
  obtain k leg ls m where k: "l_IdempotencyKey r = Some k" "byKey k = Some leg" "tl_WalletID leg = l_WalletID r" "tl_Action leg = l_Type r"
      "tl_Amount leg = l_Amount r" and i: "invert_rows c (byKey(k := None)) rs (Suc n) = (Some ls, m)"
      and l: "legs = \<lparr>tl_WalletID = l_WalletID r, tl_Action = Opposite (l_Type r), tl_Amount = l_Amount r, tl_Purpose = ''Reversal: '' @ l_Purpose r,
        tl_IsFee = tl_IsFee leg, tl_IsInitial = tl_IsInitial leg, tl_IdempotencyKey = new_uuid c n, tl_ReversalKey = None\<rparr> # ls"
    using 2(2) by (auto split: option.splits if_splits prod.splits)
  have ih: "list_all2 inverse_leg rs ls \<and> map tl_IdempotencyKey ls = map (new_uuid c) [Suc n..<Suc n + length rs] \<and>
      distinct (map l_IdempotencyKey rs) \<and> list_all (records_leg (byKey(k := None))) rs"
    by (rule 2(1) [OF k(1,2) _ i]) (simp add: k)
  have "list_all (records_leg byKey) rs" "Some k \<notin> l_IdempotencyKey ` set rs"
    using ih by (fastforce simp: list_all_iff records_leg_def split: if_splits)+
  moreover have "[n..<n + length (r # rs)] = n # [Suc n..<Suc n + length rs]" using upt_conv_Cons [of n "n + length (r # rs)"] by simp
  moreover obtain h where "legs = h # ls" "inverse_leg r h" "tl_IdempotencyKey h = new_uuid c n" using l by (simp add: inverse_leg_def)
  moreover have "records_leg byKey r" using k by (simp add: records_leg_def)
  ultimately show ?case using ih k(1) by (simp del: upt_Suc add: upt_Suc_append)
qed simp

text \<open>Rows that match distinct planned legs, as many as there are legs, match all of them.\<close>

lemma map_of_rev_Some: "map_of (map (\<lambda>l. (f l, l)) (rev ls)) k = Some x \<Longrightarrow> x \<in> set ls \<and> f x = k"
  by (auto dest: map_of_SomeD)

lemma ledger_covers_plan:
  assumes "list_all (records_leg (map_of (map (\<lambda>l. (tl_IdempotencyKey l, l)) (rev plan)))) rows" "distinct (map l_IdempotencyKey rows)"
    and "length rows = length plan"
  shows "distinct (map tl_IdempotencyKey plan)" "mset (map (\<lambda>r. (l_IdempotencyKey r, l_WalletID r, l_Type r, l_Amount r)) rows) =
    mset (map (\<lambda>l. (Some (tl_IdempotencyKey l), tl_WalletID l, tl_Action l, tl_Amount l)) plan)"
proof -
  let ?p = "map (\<lambda>l. (Some (tl_IdempotencyKey l), tl_WalletID l, tl_Action l, tl_Amount l)) plan"
  let ?r = "map (\<lambda>r. (l_IdempotencyKey r, l_WalletID r, l_Type r, l_Amount r)) rows"
  have sub: "set ?r \<subseteq> set ?p"
    using assms(1) by (fastforce simp: list_all_iff records_leg_def dest!: map_of_rev_Some)
  have dr: "distinct ?r" using assms(2) by (simp add: distinct_map inj_on_def)
  have "card (set ?r) = length plan" using distinct_card [OF dr] assms(3) by simp
  moreover have "card (set ?p) \<le> length plan" using card_length [of ?p] by simp
  moreover have "card (set ?r) \<le> card (set ?p)" using sub by (rule card_mono [OF finite_set])
  ultimately have eq: "set ?r = set ?p" using sub by (intro card_subset_eq) simp_all
  have dp: "distinct ?p" by (rule card_distinct) (use eq distinct_card [OF dr] assms(3) in simp)
  show "mset ?r = mset ?p" using eq dr dp set_eq_iff_mset_eq_distinct by blast
  have "fst ` set ?p = fst ` set ?r" by (simp only: eq)
  then have "Some ` set (map tl_IdempotencyKey plan) = set (map l_IdempotencyKey rows)" by (simp add: image_image)
  then have "card (set (map tl_IdempotencyKey plan)) = length rows"
    using distinct_card [OF assms(2)] card_image [of Some "set (map tl_IdempotencyKey plan)"] by simp
  then show "distinct (map tl_IdempotencyKey plan)" using assms(3) by (simp add: card_distinct)
qed

lemma net_by_mset:
  assumes "mset (map (\<lambda>r. (l_IdempotencyKey r, l_WalletID r, l_Type r, l_Amount r)) rows) =
    mset (map (\<lambda>l. (Some (tl_IdempotencyKey l), tl_WalletID l, tl_Action l, tl_Amount l)) plan)"
  shows "net i rows = leg_net i plan"
proof -
  let ?g = "\<lambda>(k :: uuid option, w, a, n). if w = i then signed_amount a n else 0"
  have "sum_list (map ?g (map (\<lambda>r. (l_IdempotencyKey r, l_WalletID r, l_Type r, l_Amount r)) rows)) = net i rows"
    by (induction rows) (simp_all add: net_def)
  moreover have "sum_list (map ?g (map (\<lambda>l. (Some (tl_IdempotencyKey l), tl_WalletID l, tl_Action l, tl_Amount l)) plan)) = leg_net i plan"
    by (induction plan) simp_all
  moreover have "mset (map ?g (map (\<lambda>r. (l_IdempotencyKey r, l_WalletID r, l_Type r, l_Amount r)) rows)) =
      mset (map ?g (map (\<lambda>l. (Some (tl_IdempotencyKey l), tl_WalletID l, tl_Action l, tl_Amount l)) plan))"
    using assms by (simp only: mset_map)
  ultimately show ?thesis using arg_cong [of _ _ sum_mset] by (simp only: sum_mset_sum_list [symmetric])
qed

lemma reversalLegs_run:
  assumes "fst (reversalLegs c orig s) = Inr legs"
  obtains plan n n' where "DecodePlan c (tx_Transfers orig) = Some plan" "length (txn_ledger c orig (sv_world s)) = length plan"
    "txn_ledger c orig (sv_world s) \<noteq> []"
    "invert_rows c (map_of (map (\<lambda>l. (tl_IdempotencyKey l, l)) (rev plan))) (txn_ledger c orig (sv_world s)) n = (Some legs, n')"
proof -
  have led: "txn_ledger c orig (sv_world (snd (svc_call c s))) = txn_ledger c orig (sv_world s)"
    by (simp add: txn_ledger_def)
  from assms show thesis
    by (auto simp: reversalLegs_def split_beta Let_def led split: option.splits if_splits intro!: that prod_eqI)
qed

text \<open>
  Claim C11. A reversal undoes its original exactly. When the legs of a reversal are computed, the ledger rows of the original are
  the legs of its stored plan, one row per leg with the same key, wallet, action and amount; for every wallet, what the reversal
  legs move is the opposite of what the ledger and the plan moved; and each reversal leg has an idempotency key drawn for it.
\<close>

theorem reversal_undoes_ledger:
  assumes "fst (reversalLegs c orig s) = Inr legs"
  shows "\<exists>plan n. DecodePlan c (tx_Transfers orig) = Some plan \<and> plan \<noteq> [] \<and> distinct (map tl_IdempotencyKey plan) \<and>
    mset (map (\<lambda>r. (l_IdempotencyKey r, l_WalletID r, l_Type r, l_Amount r)) (txn_ledger c orig (sv_world s))) =
      mset (map (\<lambda>l. (Some (tl_IdempotencyKey l), tl_WalletID l, tl_Action l, tl_Amount l)) plan) \<and>
    (\<forall>i. net i (txn_ledger c orig (sv_world s)) + leg_net i legs = 0 \<and> leg_net i plan + leg_net i legs = 0) \<and>
    map tl_IdempotencyKey legs = map (new_uuid c) [n..<n + length plan]"
proof -
  obtain plan n n' where r: "DecodePlan c (tx_Transfers orig) = Some plan" "length (txn_ledger c orig (sv_world s)) = length plan"
    "txn_ledger c orig (sv_world s) \<noteq> []"
    "invert_rows c (map_of (map (\<lambda>l. (tl_IdempotencyKey l, l)) (rev plan))) (txn_ledger c orig (sv_world s)) n = (Some legs, n')"
    using assms by (rule reversalLegs_run)
  note inv = invert_rows_spec [OF r(4)]
  have cov: "distinct (map tl_IdempotencyKey plan)"
    "mset (map (\<lambda>r. (l_IdempotencyKey r, l_WalletID r, l_Type r, l_Amount r)) (txn_ledger c orig (sv_world s))) =
      mset (map (\<lambda>l. (Some (tl_IdempotencyKey l), tl_WalletID l, tl_Action l, tl_Amount l)) plan)"
    using ledger_covers_plan [OF _ _ r(2)] inv by blast+
  have "net i (txn_ledger c orig (sv_world s)) + leg_net i legs = 0 \<and> leg_net i plan + leg_net i legs = 0" for i
    using inverse_net [of "txn_ledger c orig (sv_world s)" legs i] inv net_by_mset [OF cov(2), of i] by simp
  moreover have "plan \<noteq> []" using r(2,3) by auto
  ultimately show ?thesis using r(1,2) cov inv by auto
qed

section \<open>Funds\<close>

definition debit_sum :: "uuid \<Rightarrow> transfer_leg list \<Rightarrow> int" where
  "debit_sum i legs = sum_list (map tl_Amount (filter (\<lambda>l. tl_Action l = LedgerTypeDebit \<and> tl_WalletID l = i) legs))"

lemma foldl_wrap64: "foldl (\<lambda>a l. wrap64 (a + f l)) (wrap64 b) ls = wrap64 (b + sum_list (map f ls))"
proof (induction ls arbitrary: b)
  case (Cons l ls)
  have "foldl (\<lambda>a l. wrap64 (a + f l)) (wrap64 b) (l # ls) = foldl (\<lambda>a l. wrap64 (a + f l)) (wrap64 (b + f l)) ls"
    by (simp add: wrap64_add_left)
  then show ?case by (simp only: Cons.IH) (simp add: add.assoc)
qed simp

lemma reversal_need_eq: "reversal_need legs i = wrap64 (debit_sum i legs)"
  using foldl_wrap64 [of tl_Amount 0] by (simp add: reversal_need_def debit_sum_def wrap64_def)

lemma check_funds_None: "check_funds cur need wls = None \<longleftrightarrow> (\<forall>wl \<in> set wls. need (w_ID wl) \<le> w_AvailableBalance wl)"
  by (induction wls) auto

lemma map_filter_all: "length (List.map_filter f xs) = length xs \<Longrightarrow> x \<in> set xs \<Longrightarrow> \<exists>y. f x = Some y \<and> y \<in> set (List.map_filter f xs)"
proof -
  assume l: "length (List.map_filter f xs) = length xs" and x: "x \<in> set xs"
  have "length (filter (\<lambda>x. f x \<noteq> None) xs) = length xs" using l by (simp add: List.map_filter_def)
  then have "filter (\<lambda>x. f x \<noteq> None) xs = xs" by (metis filter_True length_filter_less less_irrefl)
  then have "f x \<noteq> None" using x by (metis (mono_tags, lifting) filter_id_conv)
  then show ?thesis using x by (force simp: List.map_filter_def)
qed

lemma ensureReversalFunds_None:
  assumes "fst (ensureReversalFunds c legs cur s) = None" "\<forall>i row. wallets (sv_world s) i = Some row \<longrightarrow> w_ID row = i"
    and "l \<in> set legs" "tl_Action l = LedgerTypeDebit"
  shows "\<exists>row. wallets (sv_world s) (tl_WalletID l) = Some row \<and> wrap64 (debit_sum (tl_WalletID l) legs) \<le> w_AvailableBalance row"
proof -
  let ?ids = "unique_ids [] (map tl_WalletID (filter (\<lambda>l. tl_Action l = LedgerTypeDebit) legs))"
  have i: "tl_WalletID l \<in> set ?ids" using assms(3,4) by (auto simp: unique_ids_set)
  then have ne: "?ids \<noteq> []" by (metis empty_iff list.set(1))
  have f: "length (List.map_filter (wallets (sv_world s)) ?ids) = length ?ids"
    "check_funds cur (reversal_need legs) (List.map_filter (wallets (sv_world s)) ?ids) = None"
    using assms(1) ne by (auto simp: ensureReversalFunds_def split_beta Let_def split: option.splits if_splits)
  obtain row where "wallets (sv_world s) (tl_WalletID l) = Some row" "row \<in> set (List.map_filter (wallets (sv_world s)) ?ids)"
    using map_filter_all [OF f(1) i] by blast
  with f(2) assms(2) show ?thesis by (auto simp: check_funds_None reversal_need_eq)
qed

section \<open>The whole operation\<close>

definition no_live_reversal :: "transaction option \<Rightarrow> bool" where
  "no_live_reversal r \<longleftrightarrow> (case r of None \<Rightarrow> True | Some ex \<Rightarrow> tx_ID ex = uuid_Nil \<or> tx_Status ex = TransactionStatusFailed)"

lemma reverse_legs_cases:
  obtains (refused) e where "fst (reverse_legs c payload orig cur merchant order s) = Inl e"
      "db_view (snd (reverse_legs c payload orig cur merchant order s)) = db_view s"
  | (dispatched) legs tx t u where "fst (reversalLegs c orig s) = Inr legs" "fst (ensureReversalFunds c legs cur u) = None"
      "db_view t = db_view s" "db_view u = db_view s"
      "tx_Type tx = TransactionTypeReversal \<and> tx_Status tx = TransactionStatusPending \<and> \<not> tx_IsCompleted tx \<and> tx_ProviderRef tx = Some (tx_RRN orig) \<and>
       tx_Amount tx = tx_Amount orig \<and> tx_OrderID tx = Some order"
      "reverse_legs c payload orig cur merchant order s = dispatch c tx legs t"
proof -
  obtain rl s1 where l: "reversalLegs c orig s = (rl, s1)" by fastforce
  have v1: "db_view s1 = db_view s" using reversalLegs_db [of c orig s] l by simp
  show thesis
  proof (cases rl)
    case (Inl e)
    with l v1 show thesis by (intro refused [of e]) (simp_all add: reverse_legs_def)
  next
    case (Inr legs)
    obtain rw s2 where w: "ValidateWallets c (map tl_WalletID legs) s1 = (rw, s2)" by fastforce
    have v2: "db_view s2 = db_view s" using ValidateWallets_db [of c "map tl_WalletID legs" s1] w v1 by simp
    obtain re s3 where f: "ensureReversalFunds c legs cur s2 = (re, s3)" by fastforce
    have v3: "db_view s3 = db_view s" using ensureReversalFunds_db [of c legs cur s2] f v2 by simp
    show thesis
    proof (cases "\<exists>ws. rw = Inr ws \<and> re = None")
      case False
      then have "(\<exists>e. rw = Inl e) \<or> (\<exists>ws e. rw = Inr ws \<and> re = Some e)" by (cases rw; cases re) auto
      with l Inr w f v2 v3 show thesis using refused by (auto simp: reverse_legs_def)
    next
      case True
      then obtain ws where ws: "rw = Inr ws" "re = None" by blast
      let ?b = "buildTransaction c (reversal_request orig payload cur legs merchant order)
        \<lparr>pl_Currency = cur, pl_TotalAmount = tx_Amount orig, pl_Fee = tx_Fee orig, pl_Legs = legs\<rparr> ws s3"
      show thesis
        by (rule dispatched [of legs s2 "snd ?b" "(fst ?b)\<lparr>tx_Narration := ''Reversal accepted for processing''\<rparr>"])
          (use l Inr w f ws v2 v3 in \<open>auto simp: reverse_legs_def split_beta Let_def buildTransaction_fields reversal_request_def\<close>)
    qed
  qed
qed

lemma Reverse_cases:
  obtains (refused) e where "fst (Reverse c payload s) = Inl e" "db_view (snd (Reverse c payload s)) = db_view s"
  | (tried) orig cur merchant order fr to t where "dayWindow ''transaction_date'' (rv_TransactionDate payload) = Inr (fr, to)"
      "first_by tx_ID (\<lambda>r. tx_RRN r = rv_RRN payload \<and> fr \<le> tx_CreatedAt r \<and> tx_CreatedAt r < to) (txns (sv_world s)) = Some orig"
      "reversible c orig = Inr (cur, merchant, order)" "no_live_reversal (find_reversal c orig (sv_world s))" "db_view t = db_view s"
      "Reverse c payload s = reverse_legs c payload orig cur merchant order t"
proof (cases "dayWindow ''transaction_date'' (rv_TransactionDate payload)")
  case (Inl e)
  then show thesis by (intro refused [of e]) (simp_all add: Reverse_def)
next
  case (Inr w)
  obtain fr to where w: "w = (fr, to)" by (cases w)
  let ?s1 = "snd (svc_call c s)" and ?s2 = "snd (svc_call c (snd (svc_call c s)))"
  let ?found = "first_by tx_ID (\<lambda>r. tx_RRN r = rv_RRN payload \<and> fr \<le> tx_CreatedAt r \<and> tx_CreatedAt r < to) (txns (sv_world s))"
  have fr: "find_reversal c orig (sv_world ?s2) = find_reversal c orig (sv_world s)" for orig by (simp add: find_reversal_def)
  note red = Reverse_def split_beta Let_def Inr w
  show thesis
  proof (cases "fst (svc_query c s) = None \<and> (\<exists>orig. ?found = Some orig \<and> (\<exists>x. reversible c orig = Inr x)) \<and> fst (svc_query c ?s1) = None")
    case False
    then show thesis using refused
      by (cases "fst (svc_query c s)"; cases ?found; cases "reversible c (the ?found)"; cases "fst (svc_query c ?s1)") (auto simp: red)
  next
    case True
    then obtain orig cur merchant order where go: "fst (svc_query c s) = None" "?found = Some orig" "reversible c orig = Inr (cur, merchant, order)"
        "fst (svc_query c ?s1) = None" by (metis prod_cases3)
    show thesis
    proof (cases "no_live_reversal (find_reversal c orig (sv_world s))")
      case True
      then have "Reverse c payload s = reverse_legs c payload orig cur merchant order ?s2"
        using go fr by (auto simp: red no_live_reversal_def split: option.splits)
      then show thesis using go w Inr True by (intro tried [of fr to orig cur merchant order ?s2]) simp_all
    next
      case False
      then obtain ex where ex: "find_reversal c orig (sv_world s) = Some ex" "tx_ID ex \<noteq> uuid_Nil" "tx_Status ex \<noteq> TransactionStatusFailed"
        by (auto simp: no_live_reversal_def split: option.splits)
      show thesis using go fr ex refused by (simp add: red)
    qed
  qed
qed

lemma reversible_facts: "reversible c orig = Inr x \<Longrightarrow> tx_Status orig = TransactionStatusSuccess \<and> tx_Type orig \<noteq> TransactionTypeReversal"
  by (auto simp: reversible_def split: if_splits)

lemma reversal_net:
  assumes "fst (reversalLegs c orig t) = Inr legs" "ledgers (sv_world t) = ledgers (sv_world s)"
  shows "net i (txn_ledger c orig (sv_world s)) + leg_net i legs = 0"
proof -
  have e: "txn_ledger c orig (sv_world t) = txn_ledger c orig (sv_world s)" using assms(2) by (simp add: txn_ledger_def)
  obtain plan n n' where "invert_rows c (map_of (map (\<lambda>l. (tl_IdempotencyKey l, l)) (rev plan))) (txn_ledger c orig (sv_world t)) n = (Some legs, n')"
    using reversalLegs_run [OF assms(1)] by blast
  from invert_rows_spec [OF this] show ?thesis using inverse_net [of _ legs i] e by simp
qed

lemma Reverse_accepted:
  assumes "Reverse c payload s = (Inr d, s')" "\<forall>i row. wallets (sv_world s) i = Some row \<longrightarrow> w_ID row = i"
  shows "\<exists>orig legs row. orig \<in> set (txns (sv_world s)) \<and> tx_RRN orig = rv_RRN payload \<and> tx_Status orig = TransactionStatusSuccess \<and>
    tx_Type orig \<noteq> TransactionTypeReversal \<and> no_live_reversal (find_reversal c orig (sv_world s)) \<and>
    (\<forall>i. net i (txn_ledger c orig (sv_world s)) + leg_net i legs = 0) \<and>
    (\<forall>l \<in> set legs. tl_Action l = LedgerTypeDebit \<longrightarrow> (\<exists>wl. wallets (sv_world s) (tl_WalletID l) = Some wl \<and>
       wrap64 (debit_sum (tl_WalletID l) legs) \<le> w_AvailableBalance wl)) \<and>
    txns (sv_world s') = txns (sv_world s) @ [row] \<and> tx_Type row = TransactionTypeReversal \<and> tx_Status row = TransactionStatusPending \<and>
    tx_ProviderRef row = Some (tx_RRN orig) \<and> tx_Amount row = tx_Amount orig \<and> tx_Transfers row = Some (EncodePlan c legs) \<and>
    txbox (sv_world s') = txbox (sv_world s) @ [(tx_ID row, start_message c row legs)] \<and>
    wallets (sv_world s') = wallets (sv_world s) \<and> ledgers (sv_world s') = ledgers (sv_world s) \<and>
    tx_CreatedAt row = now c \<and> d = TransactionFromModel c row"
proof (cases rule: Reverse_cases [of c payload s])
  case (refused e)
  with assms(1) show ?thesis by simp
next
  case (tried orig cur merchant order fr to t)
  have o: "orig \<in> set (txns (sv_world s))" "tx_RRN orig = rv_RRN payload" using first_by_Some [OF tried(2)] by auto
  note good = reversible_facts [OF tried(3)]
  show ?thesis
  proof (cases rule: reverse_legs_cases [of c payload orig cur merchant order t])
    case (refused e)
    with assms(1) tried(6) show ?thesis by simp
  next
    case (dispatched legs tx t' u)
    have v: "db_view t' = db_view s" "db_view u = db_view s" using dispatched tried(5) by simp_all
    note vt = db_viewD [OF v(1)] and vu = db_viewD [OF v(2)]
    have net: "net i (txn_ledger c orig (sv_world s)) + leg_net i legs = 0" for i
      by (rule reversal_net [OF dispatched(1)]) (rule db_viewD(2) [OF tried(5)])
    have funds: "\<exists>wl. wallets (sv_world s) (tl_WalletID l) = Some wl \<and> wrap64 (debit_sum (tl_WalletID l) legs) \<le> w_AvailableBalance wl"
      if "l \<in> set legs" "tl_Action l = LedgerTypeDebit" for l
      using ensureReversalFunds_None [OF dispatched(2) _ that] assms(2) by (simp add: vu)
    have "dispatch c tx legs t' = (Inr d, s')" using assms(1) tried(6) dispatched(6) by simp
    then show ?thesis
    proof (cases rule: dispatch_spec)
      case (sent row)
      then have "tx_Type row = TransactionTypeReversal" "tx_Status row = TransactionStatusPending" "tx_ProviderRef row = Some (tx_RRN orig)"
        "tx_Amount row = tx_Amount orig" "tx_Transfers row = Some (EncodePlan c legs)"
        "tx_CreatedAt row = now c"
        using dispatched(5) unfolding row_of_def by auto
      then show ?thesis using o good tried(4) net funds sent(1,3-7) vt
        by (intro exI [of _ orig] exI [of _ legs] exI [of _ row]) simp
    qed simp_all
  qed
qed

text \<open>
  Claim C16. A reversal is accepted only when it is safe to start, and starts exactly one transaction. The original is the
  transaction with the given RRN on the given date; it was successful, is no reversal, and its latest reversal, if any, failed. Each
  wallet the reversal debits holds the sum of its debits (as \<open>int64\<close>). One pending row of type reversal is written, naming the
  original by its RRN, whose legs undo the ledger of the original wallet by wallet; one start message carries those legs; no
  balance and no ledger row changes.
\<close>

theorem reverse_effect:
  assumes "Reverse c payload s = (Inr d, s')" "\<forall>i row. wallets (sv_world s) i = Some row \<longrightarrow> w_ID row = i"
  shows "\<exists>orig legs row. orig \<in> set (txns (sv_world s)) \<and> tx_RRN orig = rv_RRN payload \<and> tx_Status orig = TransactionStatusSuccess \<and>
    tx_Type orig \<noteq> TransactionTypeReversal \<and> no_live_reversal (find_reversal c orig (sv_world s)) \<and>
    (\<forall>i. net i (txn_ledger c orig (sv_world s)) + leg_net i legs = 0) \<and>
    (\<forall>l \<in> set legs. tl_Action l = LedgerTypeDebit \<longrightarrow> (\<exists>wl. wallets (sv_world s) (tl_WalletID l) = Some wl \<and>
       wrap64 (debit_sum (tl_WalletID l) legs) \<le> w_AvailableBalance wl)) \<and>
    txns (sv_world s') = txns (sv_world s) @ [row] \<and> tx_Type row = TransactionTypeReversal \<and> tx_Status row = TransactionStatusPending \<and>
    tx_ProviderRef row = Some (tx_RRN orig) \<and> tx_Amount row = tx_Amount orig \<and> tx_Transfers row = Some (EncodePlan c legs) \<and>
    txbox (sv_world s') = txbox (sv_world s) @ [(tx_ID row, start_message c row legs)] \<and>
    wallets (sv_world s') = wallets (sv_world s) \<and> ledgers (sv_world s') = ledgers (sv_world s) \<and> d = TransactionFromModel c row"
  using Reverse_accepted [OF assms] by blast

lemma find_reversal_newest:
  assumes "txns w' = txns w @ [row]" "\<forall>r \<in> set (txns w). tx_CreatedAt r < tx_CreatedAt row" "tx_ProviderRef row = Some (tx_RRN orig)"
    and "tx_Type row = TransactionTypeReversal" "orig \<in> set (txns w)" "tx_CreatedAt row < notAfter_svc c"
  shows "find_reversal c orig w' = Some row"
proof -
  let ?P = "\<lambda>r. tx_ProviderRef r = Some (tx_RRN orig) \<and> tx_Type r = TransactionTypeReversal \<and> tx_CreatedAt orig \<le> tx_CreatedAt r \<and> tx_CreatedAt r < notAfter_svc c"
  let ?xs = "sort_key (\<lambda>r. - tx_CreatedAt r) (filter ?P (txns w'))"
  have "?P row" using assms by (auto simp: less_imp_le)
  then have mem: "row \<in> set ?xs" by (simp add: assms(1))
  then obtain x xs where x: "?xs = x # xs" by (cases ?xs) auto
  have "sorted (map (\<lambda>r. - tx_CreatedAt r) ?xs)" by simp
  then have "\<forall>y \<in> set xs. tx_CreatedAt y \<le> tx_CreatedAt x" unfolding x by simp
  then have le: "tx_CreatedAt row \<le> tx_CreatedAt x" using mem unfolding x by auto
  have "x \<in> set ?xs" unfolding x by simp
  then have "x \<in> set (txns w) \<or> x = row" by (auto simp: assms(1) split: if_splits)
  with le assms(2) have "x = row" by auto
  then show ?thesis by (simp add: find_reversal_def x)
qed

text \<open>
  Claim C17. A transaction is reversed at most once while a reversal of it is alive. After an accepted reversal, repeating the request
  against the same transactions table, at any later time, is refused and writes and sends nothing: the replay check finds the
  reversal. (The rows of the table are taken to be older than the new one.)
\<close>

theorem second_reversal_refused:
  assumes "Reverse c payload s = (Inr d, s')" "\<forall>r \<in> set (txns (sv_world s)). tx_CreatedAt r < now c" "rs_ID d \<noteq> uuid_Nil"
    and "now c \<le> now c'" "txns (sv_world t) = txns (sv_world s')" "\<forall>i row. wallets (sv_world s) i = Some row \<longrightarrow> w_ID row = i"
  shows "(\<exists>e. fst (Reverse c' payload t) = Inl e) \<and> db_view (snd (Reverse c' payload t)) = db_view t"
proof (cases rule: Reverse_cases [of c' payload t])
  case (tried orig' cur merchant order fr to t')
  obtain orig row :: transaction where o: "tx_RRN orig = rv_RRN payload" "txns (sv_world s') = txns (sv_world s) @ [row]" "tx_Type row = TransactionTypeReversal"
      "tx_Status row = TransactionStatusPending" "tx_ProviderRef row = Some (tx_RRN orig)" "tx_CreatedAt row = now c" "d = TransactionFromModel c row"
    using Reverse_accepted [OF assms(1,6)] by blast
  have o': "orig' \<in> set (txns (sv_world s)) \<or> orig' = row" "tx_RRN orig' = rv_RRN payload"
    using first_by_Some [OF tried(2)] assms(5) o(2) by auto
  have "orig' \<noteq> row" using reversible_facts [OF tried(3)] o(3) by auto
  then have "find_reversal c' orig' (sv_world t) = Some row"
    using o o' assms(2,4,5) by (intro find_reversal_newest [of _ "sv_world s"]) (auto simp: notAfter_svc_def hour_def minute_def second_def)
  moreover have "tx_ID row \<noteq> uuid_Nil" using o(7) assms(3) by (simp add: TransactionFromModel_def Let_def)
  ultimately have False using tried(4) o(4) by (simp add: no_live_reversal_def)
  then show ?thesis ..
qed blast

section \<open>A reversal\<close>

text \<open>A successful transfer of 200 from wallet 1 to wallet 2, and the request to reverse it.\<close>

definition demo_orig :: transaction where
  "demo_orig = demo_tx\<lparr>tx_Status := TransactionStatusSuccess, tx_IsCompleted := True, tx_OrderID := Some ''o1'', tx_CreatedAt := - 1,
     tx_Transfers := Some (EncodePlan demo_ctx demo_plan)\<rparr>"

definition demo_ledger :: "int64 \<Rightarrow> transfer_leg \<Rightarrow> ledger" where
  "demo_ledger i l = \<lparr>l_ID = i, l_WalletID = tl_WalletID l, l_TransactionID = 7, l_IdempotencyKey = Some (tl_IdempotencyKey l), l_Type = tl_Action l,
     l_Purpose = tl_Purpose l, l_Amount = tl_Amount l, l_Currency = ''KES'', l_InitialBalance = 0, l_UpdatedBalance = 0, l_CreatedAt = - 1\<rparr>"

definition demo_reverse_svc :: svc where
  "demo_reverse_svc = demo_svc\<lparr>sv_world := empty_world\<lparr>txns := [demo_orig], ledgers := [demo_ledger 1 (demo_plan ! 0), demo_ledger 2 (demo_plan ! 1)],
     wallets := [1 \<mapsto> demo_wallet, 2 \<mapsto> demo_wallet\<lparr>w_ID := 2\<rparr>]\<rparr>\<rparr>"

definition demo_reverse :: TransactionReverseReqDto where
  "demo_reverse = \<lparr>rv_RRN = ''r1'', rv_TransactionDate = ''1970-01-01'', rv_CallbackUrl = None, rv_Description = None\<rparr>"

lemma demo_reversible: "reversible demo_ctx demo_orig = Inr (demo_KES, 9, ''o1'')"
  by (simp add: reversible_def demo_orig_def demo_tx_def demo_KES_Lookup TransactionTypeTransfer_def TransactionTypeReversal_def)

definition demo_reversal_legs :: "transfer_leg list" where
  "demo_reversal_legs = [\<lparr>tl_WalletID = 1, tl_Action = LedgerTypeCredit, tl_Amount = 200, tl_Purpose = ''Reversal: pay'', tl_IsFee = False, tl_IsInitial = True,
      tl_IdempotencyKey = 1000, tl_ReversalKey = None\<rparr>,
     \<lparr>tl_WalletID = 2, tl_Action = LedgerTypeDebit, tl_Amount = 200, tl_Purpose = ''Reversal: receive'', tl_IsFee = False, tl_IsInitial = True,
      tl_IdempotencyKey = 1001, tl_ReversalKey = None\<rparr>]"


abbreviation demo_s2 :: svc where "demo_s2 \<equiv> snd (svc_call demo_ctx (snd (svc_call demo_ctx demo_reverse_svc)))"
abbreviation demo_s3 :: svc where "demo_s3 \<equiv> snd (reversalLegs demo_ctx demo_orig demo_s2)"
abbreviation demo_s4 :: svc where "demo_s4 \<equiv> snd (ValidateWallets demo_ctx [1, 2] demo_s3)"
abbreviation demo_s5 :: svc where "demo_s5 \<equiv> snd (ensureReversalFunds demo_ctx demo_reversal_legs demo_KES demo_s4)"

lemma demo_reverse_stages:
  "fst (reversalLegs demo_ctx demo_orig demo_s2) = Inr demo_reversal_legs" "is_ok (fst (ValidateWallets demo_ctx [1, 2] demo_s3))"
  "fst (ensureReversalFunds demo_ctx demo_reversal_legs demo_KES demo_s4) = None" "n_uuid (sv_world demo_s5) = 2"
  by code_simp+

lemma buildTransaction_id: "tx_ID (fst (buildTransaction c payload pl ws s)) = new_uuid c (n_uuid (sv_world s))"
  by (simp add: buildTransaction_def uuid_New_def split_beta Let_def)

lemma dispatch_accepts:
  assumes "faultless c" "placed c (n_pid (sv_world s)) (tx_ID tx)" "\<forall>r \<in> set (txns (sv_world s)). tx_CreatedAt r \<noteq> now c" "0 < tx_Amount tx" "0 \<le> tx_Fee tx"
  shows "\<exists>d. fst (dispatch c tx legs s) = Inr d \<and> rs_ID d = tx_ID tx"
proof -
  have "list_ex (\<lambda>r. P r \<and> tx_CreatedAt r = now c) (txns (sv_world s)) = False" for P using assms(3) by (auto simp: list_ex_iff)
  then show ?thesis using assms
  by (simp add: dispatch_def txn_create_def eval_nat_numeral insert_txn_def split_beta Let_def TransactionFromModel_def)
qed

lemma demo_orig_created: "tx_CreatedAt demo_orig = - 1" by (simp add: demo_orig_def)

lemma demo_first: "first_by tx_ID (\<lambda>r. tx_RRN r = rv_RRN demo_reverse \<and> - (24 * hour) \<le> tx_CreatedAt r \<and> tx_CreatedAt r < 48 * hour) (txns (sv_world demo_reverse_svc)) = Some demo_orig"
  by (simp add: demo_reverse_svc_def demo_reverse_def demo_orig_def demo_tx_def first_by_def hour_def minute_def second_def)

lemma demo_norev: "find_reversal demo_ctx demo_orig (sv_world demo_s2) = None"
  by (simp add: find_reversal_def demo_reverse_svc_def demo_orig_def demo_tx_def)

lemma demo_reverse_runs: "\<exists>d. fst (Reverse demo_ctx demo_reverse demo_reverse_svc) = Inr d \<and> rs_ID d = 1002"
proof -
  obtain ws where ws: "fst (ValidateWallets demo_ctx [1, 2] demo_s3) = Inr ws" using demo_reverse_stages(2) by (auto simp: is_ok_iff)
  have q: "fst (svc_query demo_ctx s) = None" for s using demo_faultless by simp
  have ids: "map tl_WalletID demo_reversal_legs = [1, 2]" by (simp add: demo_reversal_legs_def)
  let ?b = "buildTransaction demo_ctx (reversal_request demo_orig demo_reverse demo_KES demo_reversal_legs 9 ''o1'')
        \<lparr>pl_Currency = demo_KES, pl_TotalAmount = tx_Amount demo_orig, pl_Fee = tx_Fee demo_orig, pl_Legs = demo_reversal_legs\<rparr> ws demo_s5"
  have e: "Reverse demo_ctx demo_reverse demo_reverse_svc =
    dispatch demo_ctx ((fst ?b)\<lparr>tx_Narration := ''Reversal accepted for processing''\<rparr>) demo_reversal_legs (snd ?b)"
    by (simp add: Reverse_def reverse_legs_def split_beta Let_def q ids demo_window demo_first demo_norev demo_reversible ws demo_reverse_stages
        demo_reverse_def [THEN arg_cong [of _ _ rv_TransactionDate]])
  have v: "db_view (snd ?b) = db_view demo_reverse_svc" by simp
  have rows: "txns (sv_world (snd ?b)) = [demo_orig]" using db_viewD(3) [OF v] by (simp add: demo_reverse_svc_def)
  have tx: "tx_ID (fst ?b) = 1002" "tx_Amount (fst ?b) = 200" "tx_Fee (fst ?b) = 0"
    using demo_reverse_stages(4) buildTransaction_fields(3,4) by (simp_all add: buildTransaction_id demo_orig_def demo_tx_def demo_ctx_def)
  have "\<exists>d. fst (dispatch demo_ctx ((fst ?b)\<lparr>tx_Narration := ''Reversal accepted for processing''\<rparr>) demo_reversal_legs (snd ?b)) = Inr d \<and>
      rs_ID d = tx_ID ((fst ?b)\<lparr>tx_Narration := ''Reversal accepted for processing''\<rparr>)"
    by (rule dispatch_accepts [OF demo_faultless]) (simp_all add: tx rows demo_orig_created)
  then show ?thesis using e tx by simp
qed

theorem reversal_undoes_ledger_witness:
  "fst (reversalLegs demo_ctx demo_orig demo_s2) = Inr demo_reversal_legs \<and>
   net 1 (txn_ledger demo_ctx demo_orig (sv_world demo_s2)) + leg_net 1 demo_reversal_legs = 0"
  using reversal_undoes_ledger [OF demo_reverse_stages(1)] demo_reverse_stages(1) by blast

lemma demo_reverse_ids: "\<forall>i row. wallets (sv_world demo_reverse_svc) i = Some row \<longrightarrow> w_ID row = i"
  by (simp add: demo_reverse_svc_def)

theorem reverse_effect_witness:
  "\<exists>d s' row. Reverse demo_ctx demo_reverse demo_reverse_svc = (Inr d, s') \<and> txns (sv_world s') = [demo_orig, row] \<and> tx_Type row = TransactionTypeReversal"
proof -
  obtain d s' where r: "Reverse demo_ctx demo_reverse demo_reverse_svc = (Inr d, s')" using demo_reverse_runs by (metis prod.collapse)
  have "txns (sv_world demo_reverse_svc) = [demo_orig]" by (simp add: demo_reverse_svc_def)
  with reverse_effect [OF r demo_reverse_ids] r show ?thesis by auto
qed

theorem second_reversal_refused_witness:
  "\<exists>d s' e. Reverse demo_ctx demo_reverse demo_reverse_svc = (Inr d, s') \<and> fst (Reverse demo_ctx demo_reverse s') = Inl e"
proof -
  obtain d s' where r: "Reverse demo_ctx demo_reverse demo_reverse_svc = (Inr d, s')" "rs_ID d = 1002" using demo_reverse_runs by (metis prod.collapse)
  have "\<forall>r \<in> set (txns (sv_world demo_reverse_svc)). tx_CreatedAt r < now demo_ctx" "rs_ID d \<noteq> uuid_Nil"
    using r(2) by (simp_all add: demo_reverse_svc_def demo_orig_def uuid_Nil_def)
  from second_reversal_refused [OF r(1) this order_refl refl demo_reverse_ids] r(1) show ?thesis by blast
qed

section \<open>A reversal that is not one\<close>

text \<open>Validation and creation look at neither the type nor the provider reference of a request.\<close>

definition same_insert :: "transaction \<Rightarrow> transaction \<Rightarrow> bool" where
  "same_insert tx tx' \<longleftrightarrow> tx_ID tx = tx_ID tx' \<and> tx_RRN tx = tx_RRN tx' \<and> tx_Amount tx = tx_Amount tx' \<and> tx_Fee tx = tx_Fee tx'"

lemma insert_txn_same:
  assumes "same_insert tx tx'"
  shows "is_ok (fst (insert_txn c tx s)) = is_ok (fst (insert_txn c tx' s))"
    "fst (insert_txn c tx s) = Inl e \<longleftrightarrow> fst (insert_txn c tx' s) = Inl e"
    "fst (insert_txn c tx s) = Inl RRNConflict \<Longrightarrow> snd (insert_txn c tx s) = snd (insert_txn c tx' s)"
  using assms by (cases "fst (svc_call c s)"; simp add: insert_txn_def same_insert_def split_beta Let_def split: if_splits)+

lemma create_attempts_same: "same_insert tx tx' \<Longrightarrow> is_ok (fst (create_attempts c n e tx s)) = is_ok (fst (create_attempts c n e tx' s))"
proof (induction n arbitrary: tx tx' s e)
  case (Suc n)
  show ?case
  proof (cases "fst (insert_txn c tx s)")
    case (Inl err)
    then have i: "fst (insert_txn c tx' s) = Inl err" using insert_txn_same(2) [OF Suc.prems] by blast
    show ?thesis
    proof (cases "err = RRNConflict")
      case True
      let ?s = "snd (insert_txn c tx s)"
      have "same_insert (tx\<lparr>tx_RRN := r\<rparr>) (tx'\<lparr>tx_RRN := r\<rparr>)" for r using Suc.prems by (simp add: same_insert_def)
      from Suc.IH [OF this] show ?thesis using Inl i True insert_txn_same(3) [OF Suc.prems, of c s]
        by (simp add: split_beta Let_def isRRNConflict_def)
    next
      case False
      then show ?thesis using Inl i by (simp add: split_beta Let_def isRRNConflict_def)
    qed
  next
    case (Inr row)
    then obtain row' where "fst (insert_txn c tx' s) = Inr row'" using insert_txn_same(1) [OF Suc.prems, of c s] by (auto simp: is_ok_iff)
    with Inr show ?thesis by (simp add: split_beta)
  qed
qed simp

lemma dispatch_same: "same_insert tx tx' \<Longrightarrow> is_ok (fst (dispatch c tx legs s)) = is_ok (fst (dispatch c tx' legs s))"
proof -
  assume a: "same_insert tx tx'"
  then have "same_insert (tx\<lparr>tx_Transfers := p\<rparr>) (tx'\<lparr>tx_Transfers := p\<rparr>)" for p by (simp add: same_insert_def)
  note cr = create_attempts_same [OF this]
  have "is_ok (fst (dispatch c tx legs s)) \<longleftrightarrow> placed c (n_pid (sv_world s)) (tx_ID tx) \<and> is_ok (fst (create_attempts c 3 (DbError [])
      (tx\<lparr>tx_Transfers := Some (EncodePlan c legs)\<rparr>) (s\<lparr>sv_world := (sv_world s)\<lparr>n_pid := Suc (n_pid (sv_world s))\<rparr>\<rparr>)))" for tx
    by (simp add: dispatch_def txn_create_def split_beta Let_def is_ok_def split: sum.split)
  then show ?thesis using cr a by (simp add: same_insert_def)
qed

abbreviation relabelled :: "transaction_type \<Rightarrow> string \<Rightarrow> TransactionReqDto \<Rightarrow> TransactionReqDto" where
  "relabelled t ref payload \<equiv> payload\<lparr>rq_Type := t, rq_ProviderRef := ref\<rparr>"

lemma validation_blind: "ValidateTransactionRequest c (relabelled t ref payload) ws m n = ValidateTransactionRequest c payload ws m n"
  by (simp add: ValidateTransactionRequest_def check_tally_def Let_def split: option.split sum.split prod.split)

lemma build_same: "same_insert (fst (buildTransaction c (relabelled t ref payload) pl ws s)) (fst (buildTransaction c payload pl ws s))"
  "snd (buildTransaction c (relabelled t ref payload) pl ws s) = snd (buildTransaction c payload pl ws s)"
  by (simp_all add: same_insert_def buildTransaction_def split_beta Let_def)

lemma Initiate_blind: "is_ok (fst (Initiate c (relabelled t ref payload) s)) = is_ok (fst (Initiate c payload s))"
  using dispatch_same [OF build_same(1)] by (simp add: Initiate_def validation_blind build_same(2) split_beta Let_def split: sum.split)

definition demo_forged_world :: world where
  "demo_forged_world = empty_world\<lparr>txns :=
     [demo_tx\<lparr>tx_ID := 8, tx_RRN := ''r8'', tx_Amount := 90000, tx_Status := TransactionStatusSuccess, tx_IsCompleted := True\<rparr>,
      demo_tx\<lparr>tx_Type := TransactionTypeReversal, tx_ProviderRef := Some ''r8''\<rparr>]\<rparr>"


end
