(* ===== verification/Random_Reference.thy ===== *)
theory Random_Reference
  imports Wallet_Prelude
begin

text \<open>
  Retrieval reference numbers (\<open>GenerateRrn\<close> in \<open>dpk/utils/utils.go\<close>): twelve symbols drawn from random bytes by
  rejection. The n-th read of 24 random bytes is \<open>rnd n\<close>. The outer loop runs until twelve symbols are there, however many
  reads that takes, so it is a partial function.

  The lemmas: the loop computes the first twelve accepted bytes, it returns as soon as the reads contain them, and every symbol
  stands for equally many bytes.
\<close>

section \<open>Model\<close>

definition rrnAlphabet :: string where "rrnAlphabet = ''ABCDEFGHIJKLMNOPQRSTUVWXYZ0123456789''"

definition rrn_symbol :: "8 word \<Rightarrow> char" where "rrn_symbol b = rrnAlphabet ! (unat b mod 36)"

fun rrn_fill :: "8 word list \<Rightarrow> string \<Rightarrow> string" where
  "rrn_fill [] out = out"
| "rrn_fill (b # bs) out = rrn_fill bs (if b < 252 \<and> length out < 12 then out @ [rrn_symbol b] else out)"

partial_function (option) rrn_loop :: "(nat \<Rightarrow> 8 word list) \<Rightarrow> nat \<Rightarrow> string \<Rightarrow> (string \<times> nat) option" where
  [code]: "rrn_loop rnd n out = (if length out < 12 then rrn_loop rnd (Suc n) (rrn_fill (rnd n) out) else Some (out, n))"

text \<open>The reference and the number of the next read.\<close>

definition GenerateRrn :: "(nat \<Rightarrow> 8 word list) \<Rightarrow> nat \<Rightarrow> (string \<times> nat) option" where
  "GenerateRrn rnd n = rrn_loop rnd n []"

section \<open>What it returns\<close>

definition accepted_bytes :: "8 word list \<Rightarrow> 8 word list" where "accepted_bytes bs = filter (\<lambda>b. b < 252) bs"

definition reads :: "(nat \<Rightarrow> 8 word list) \<Rightarrow> nat \<Rightarrow> nat \<Rightarrow> 8 word list" where "reads rnd n m = concat (map rnd [n..<m])"

lemma rrn_fill_eq: "length out \<le> 12 \<Longrightarrow> rrn_fill bs out = take 12 (out @ map rrn_symbol (accepted_bytes bs))"
proof (induction bs arbitrary: out)
  case (Cons b bs)
  show ?case
  proof (cases "length out < 12")
    case True
    then have "12 - length out = Suc (11 - length out)" by simp
    then show ?thesis using True Cons by (simp add: accepted_bytes_def)
  next
    case False
    then show ?thesis using Cons by (simp add: accepted_bytes_def)
  qed
qed (simp add: accepted_bytes_def)

lemma rrn_loop_returns:
  assumes "12 \<le> length out + length (accepted_bytes (reads rnd n (n + k)))" "length out \<le> 12"
  shows "\<exists>m \<le> n + k. rrn_loop rnd n out = Some (take 12 (out @ map rrn_symbol (accepted_bytes (reads rnd n (n + k)))), m)"
  using assms
proof (induction k arbitrary: n out)
  case 0
  then have "length out = 12" by (simp add: reads_def accepted_bytes_def)
  then show ?case by (simp add: rrn_loop.simps reads_def)
next
  case (Suc k)
  have split: "reads rnd n (Suc (n + k)) = rnd n @ reads rnd (Suc n) (Suc n + k)"
    using upt_conv_Cons [of n "Suc (n + k)"] by (simp add: reads_def)
  show ?case
  proof (cases "length out < 12")
    case False
    then show ?thesis using Suc.prems by (subst rrn_loop.simps) (auto simp: min_def)
  next
    case True
    let ?out = "rrn_fill (rnd n) out"
    have f: "?out = take 12 (out @ map rrn_symbol (accepted_bytes (rnd n)))" by (rule rrn_fill_eq) (use True in simp)
    have "12 \<le> length ?out + length (accepted_bytes (reads rnd (Suc n) (Suc n + k)))" "length ?out \<le> 12"
      using Suc.prems by (auto simp: f split accepted_bytes_def)
    from Suc.IH [OF this] obtain m where m: "m \<le> Suc n + k" "rrn_loop rnd (Suc n) ?out =
        Some (take 12 (?out @ map rrn_symbol (accepted_bytes (reads rnd (Suc n) (Suc n + k)))), m)" by blast
    have "take 12 (?out @ map rrn_symbol (accepted_bytes (reads rnd (Suc n) (Suc n + k)))) =
        take 12 (out @ map rrn_symbol (accepted_bytes (reads rnd n (n + Suc k))))"
      by (auto simp: f split accepted_bytes_def min_def)
    then show ?thesis using m True by (subst rrn_loop.simps) auto
  qed
qed

lemma equal_shares: "s < 36 \<Longrightarrow> card {b :: 8 word. b < 252 \<and> unat b mod 36 = s} = 7"
proof -
  assume s: "s < 36"
  have u: "unat (of_nat (36 * q + s) :: 8 word) = 36 * q + s" if "q < 7" for q
    using that s by (simp only: unat_of_nat) simp
  have "{b :: 8 word. b < 252 \<and> unat b mod 36 = s} = (\<lambda>q. of_nat (36 * q + s)) ` {..<7}" (is "?A = ?f ` _")
  proof (intro equalityI subsetI)
    fix b :: "8 word" assume "b \<in> ?A"
    then have b: "unat b < 252" "unat b mod 36 = s" by (simp_all add: word_less_nat_alt)
    then have q: "unat b = 36 * (unat b div 36) + s" "unat b div 36 \<in> {..<7}" by auto
    have "b = of_nat (unat b)" by simp
    then have "b = ?f (unat b div 36)" by (subst (asm) q(1))
    then show "b \<in> ?f ` {..<7}" by (rule image_eqI [OF _ q(2)])
  next
    fix b assume "b \<in> ?f ` {..<7}"
    then obtain q where q: "q < 7" "b = of_nat (36 * q + s)" by auto
    then have "unat b = 36 * q + s" using u by (simp only:)
    then show "b \<in> ?A" using q s by (simp add: word_less_nat_alt)
  qed
  moreover have "inj_on ?f {..<7}"
  proof (rule inj_onI)
    fix q r :: nat assume qr: "q \<in> {..<7}" "r \<in> {..<7}" "?f q = ?f r"
    have "unat (?f q :: 8 word) = unat (?f r :: 8 word)" by (simp only: qr(3))
    then have "36 * q + s = 36 * r + s" using u [of q] u [of r] qr(1,2) by (simp only: lessThan_iff)
    then show "q = r" by simp
  qed
  ultimately show ?thesis by (simp add: card_image)
qed

text \<open>
  Claim C33. Generating a reference ends as soon as the random bytes read contain twelve values below 252, and the result is then the
  symbols of the first twelve of them: twelve characters of the alphabet. No symbol is favoured: each
  one stands for exactly seven of the accepted byte values.
\<close>

theorem GenerateRrn_returns:
  assumes "12 \<le> length (accepted_bytes (reads rnd n (n + k)))"
  shows "(\<exists>rrn m. GenerateRrn rnd n = Some (rrn, m) \<and> m \<le> n + k \<and> rrn = map rrn_symbol (take 12 (accepted_bytes (reads rnd n (n + k)))) \<and>
      length rrn = 12 \<and> set rrn \<subseteq> set rrnAlphabet) \<and>
    distinct rrnAlphabet \<and> (\<forall>s < length rrnAlphabet. card {b. b < 252 \<and> rrn_symbol b = rrnAlphabet ! s} = 7)"
proof -
  have len: "length rrnAlphabet = 36" and dist: "distinct rrnAlphabet" by (simp_all add: rrnAlphabet_def)
  have sym: "rrn_symbol b \<in> set rrnAlphabet" for b by (simp add: rrn_symbol_def len)
  have "rrn_symbol b = rrnAlphabet ! s \<longleftrightarrow> unat b mod 36 = s" if "s < 36" for b s
    using that dist by (simp add: rrn_symbol_def nth_eq_iff_index_eq len)
  then have fair: "\<forall>s < length rrnAlphabet. card {b. b < 252 \<and> rrn_symbol b = rrnAlphabet ! s} = 7" using equal_shares by (simp add: len)
  obtain m where "m \<le> n + k" "GenerateRrn rnd n = Some (take 12 (map rrn_symbol (accepted_bytes (reads rnd n (n + k)))), m)"
    using rrn_loop_returns [of "[]" rnd n k] assms by (auto simp: GenerateRrn_def)
  then show ?thesis using assms sym dist fair by (auto simp: take_map)
qed

theorem GenerateRrn_returns_witness:
  "12 \<le> length (accepted_bytes (reads (\<lambda>n. map of_nat [240..<264]) 0 (0 + 1))) \<and>
   fst (the (GenerateRrn (\<lambda>n. map of_nat [240..<264]) 0)) = ''YZ0123456789'' "
proof -
  have h: "12 \<le> length (accepted_bytes (reads (\<lambda>n. map of_nat [240..<264]) 0 (0 + 1)))" by code_simp
  have v: "map rrn_symbol (take 12 (accepted_bytes (reads (\<lambda>n. map of_nat [240..<264]) 0 (0 + 1)))) = ''YZ0123456789''" by code_simp
  from GenerateRrn_returns [OF h] h v show ?thesis by auto
qed

end
