(* ===== verification/Webhook.thy ===== *)
theory Webhook
  imports Transaction_Service
begin

text \<open>
  The callback notifier (\<open>internal/webhook/webhook.go\<close>): the final state of a transaction is POSTed to its callback
  URL, at most three times with growing pauses, until an answer in the 2xx range. What the network does with the
  n-th attempt is \<open>he_outcome n\<close>, the JSON text of a payload is \<open>he_marshal\<close>; the state counts the attempts, the
  requests that left and the time slept. The semaphore that bounds concurrent builds orders work and changes no
  result; the goroutine of a notification is its body, run to the end.

  The lemmas: delivery ends after at most three attempts and three seconds of pauses, succeeds exactly when one of the
  attempts is answered in the 2xx range, and never posts again after that.
\<close>

section \<open>Model\<close>

definition maxAttempts :: nat where "maxAttempts = 3"

datatype post_outcome = RequestError | NoResponse | Responded int

record webhook_env =
  he_marshal :: "TransactionResDto \<Rightarrow> string option"
  he_outcome :: "nat \<Rightarrow> post_outcome"

record webhook =
  hk_calls :: nat
  hk_sent :: "(string \<times> string) list"
  hk_slept :: time

definition post :: "webhook_env \<Rightarrow> string \<Rightarrow> string \<Rightarrow> webhook \<Rightarrow> bool \<times> webhook" where
  "post e url body h =
     (let h1 = h\<lparr>hk_calls := Suc (hk_calls h)\<rparr>; h2 = h1\<lparr>hk_sent := hk_sent h1 @ [(url, body)]\<rparr> in
      (case he_outcome e (hk_calls h) of
         RequestError \<Rightarrow> (False, h1)
       | NoResponse \<Rightarrow> (False, h2)
       | Responded code \<Rightarrow> (200 \<le> code \<and> code < 300, h2)))"

function deliver_from :: "webhook_env \<Rightarrow> string \<Rightarrow> string \<Rightarrow> nat \<Rightarrow> time \<Rightarrow> webhook \<Rightarrow> bool \<times> webhook" where
  "deliver_from e url body attempt backoff h =
     (if maxAttempts < attempt then (False, h)
      else
        (let (ok, h1) = post e url body h in
         if ok then (True, h1)
         else if attempt < maxAttempts
           then deliver_from e url body (attempt + 1) (backoff * 2) (h1\<lparr>hk_slept := hk_slept h1 + backoff\<rparr>)
           else deliver_from e url body (attempt + 1) backoff h1))"
  by pat_completeness auto
termination by (relation "measure (\<lambda>(e, url, body, attempt, backoff, h). Suc maxAttempts - attempt)") auto

declare deliver_from.simps [simp del]

definition webhook_deliver :: "webhook_env \<Rightarrow> string \<Rightarrow> TransactionResDto \<Rightarrow> webhook \<Rightarrow> bool \<times> webhook" where
  "webhook_deliver e url payload h =
     (case he_marshal e payload of None \<Rightarrow> (False, h) | Some body \<Rightarrow> deliver_from e url body 1 second h)"

text \<open>\<open>NewNotifier\<close> is given \<open>TransactionPayload\<close>, as in \<open>cmd/servers/server.go\<close>; the flag says whether the callback was accepted.\<close>

definition webhook_Notify :: "ctx \<Rightarrow> webhook_env \<Rightarrow> transaction \<Rightarrow> wallet_movement list option \<Rightarrow> svc \<times> webhook \<Rightarrow> bool \<times> svc \<times> webhook" where
  "webhook_Notify c e tx mvs st =
     (case tx_CallbackURL tx of
        None \<Rightarrow> (False, st)
      | Some url \<Rightarrow>
          if url = [] then (False, st)
          else
            (let (payload, s) = TransactionPayload c tx mvs (fst st); (ok, h) = webhook_deliver e url payload (snd st)
             in (ok, s, h)))"

section \<open>Delivery\<close>

definition accepts :: "post_outcome \<Rightarrow> bool" where
  "accepts r \<longleftrightarrow> (case r of Responded code \<Rightarrow> 200 \<le> code \<and> code < 300 | _ \<Rightarrow> False)"

text \<open>The attempts a delivery makes: up to the first accepted one, at most three.\<close>

definition attempts_made :: "webhook_env \<Rightarrow> nat \<Rightarrow> nat" where
  "attempts_made e n = (if accepts (he_outcome e n) then 1 else if accepts (he_outcome e (n + 1)) then 2 else 3)"

lemma post_simps [simp]:
  "fst (post e url body h) = accepts (he_outcome e (hk_calls h))" "hk_calls (snd (post e url body h)) = Suc (hk_calls h)"
  "hk_slept (snd (post e url body h)) = hk_slept h"
  "hk_sent (snd (post e url body h)) = hk_sent h @ (if he_outcome e (hk_calls h) = RequestError then [] else [(url, body)])"
  by (simp_all add: post_def accepts_def Let_def split: post_outcome.split)

lemma deliver_unfold:
  "attempt \<le> maxAttempts \<Longrightarrow> deliver_from e url body attempt backoff h =
     (if accepts (he_outcome e (hk_calls h)) then (True, snd (post e url body h))
      else if attempt < maxAttempts
        then deliver_from e url body (attempt + 1) (backoff * 2)
          ((snd (post e url body h))\<lparr>hk_slept := hk_slept (snd (post e url body h)) + backoff\<rparr>)
        else deliver_from e url body (attempt + 1) backoff (snd (post e url body h)))"
  "maxAttempts < attempt \<Longrightarrow> deliver_from e url body attempt backoff h = (False, h)"
  by (subst deliver_from.simps, simp add: split_beta Let_def)+

text \<open>
  Claim C34. Callback delivery always ends, and is bounded: it makes one attempt after another until one is accepted, at most three, with
  pauses of one and two seconds in between; the callback counts as delivered exactly when one of those attempts is answered
  in the 2xx range, and no request follows an accepted one. A transaction without a callback URL sends nothing.
\<close>

theorem callback_delivery_bounded:
  "(case webhook_deliver e url payload h of (ok, h') \<Rightarrow>
     (case he_marshal e payload of
        None \<Rightarrow> \<not> ok \<and> h' = h
      | Some body \<Rightarrow> ok = list_ex (\<lambda>i. accepts (he_outcome e (hk_calls h + i))) [0, 1, 2] \<and>
          hk_calls h' = hk_calls h + attempts_made e (hk_calls h) \<and>
          hk_slept h' = hk_slept h + (if attempts_made e (hk_calls h) = 1 then 0 else if attempts_made e (hk_calls h) = 2 then second else 3 * second) \<and>
          hk_sent h' = hk_sent h @ map (\<lambda>i. (url, body))
            (filter (\<lambda>i. he_outcome e i \<noteq> RequestError) [hk_calls h..<hk_calls h + attempts_made e (hk_calls h)]))) \<and>
   webhook_Notify c e (tx\<lparr>tx_CallbackURL := None\<rparr>) mvs st = (False, st)"
proof (cases "he_marshal e payload")
  case None
  then show ?thesis by (simp add: webhook_deliver_def webhook_Notify_def)
next
  case (Some body)
  let ?n = "hk_calls h"
  have m: "maxAttempts = Suc (Suc (Suc 0))" by (simp add: maxAttempts_def)
  have u: "[?n..<?n + 1] = [?n]" "[?n..<?n + 2] = [?n, ?n + 1]" "[?n..<?n + 3] = [?n, ?n + 1, ?n + 2]"
    by (simp_all add: numeral_eq_Suc)
  note eq = webhook_deliver_def webhook_Notify_def Some deliver_unfold m attempts_made_def
  consider "accepts (he_outcome e ?n)" | "\<not> accepts (he_outcome e ?n)" "accepts (he_outcome e (?n + 1))"
    | "\<not> accepts (he_outcome e ?n)" "\<not> accepts (he_outcome e (?n + 1))" by blast
  then show ?thesis
  proof cases
    case 1
    then show ?thesis using u(1) by (simp add: eq)
  next
    case 2
    then show ?thesis using u(2) by (simp add: eq)
  next
    case 3
    then show ?thesis using u(3) by (simp add: eq numeral_2_eq_2)
  qed
qed

end
