(* ===== verification/Validation.thy ===== *)
theory Validation
  imports Service_Types
begin

text \<open>
  Validation errors (\<open>internal/validation/validation.go\<close>): how the violations reported by the validator library become the
  field errors both transports answer with. The library itself is a parameter of the handlers: it reports that a
  request is valid, a list of violations, or another error. A map from field to message is a list of pairs with distinct
  fields, the last write first; its text sorts the fields. A message is a list of fragments as in \<open>Service_Types\<close>.
\<close>

section \<open>Model\<close>

record field_violation =
  fv_Namespace :: string
  fv_Field :: string
  fv_Tag :: string
  fv_Param :: string

datatype validator_result = Valid | Violations "field_violation list" | ValidatorError string

type_synonym FieldErrors = "(string \<times> fragment list) list"

definition put_error :: "string \<Rightarrow> fragment list \<Rightarrow> FieldErrors \<Rightarrow> FieldErrors" where
  "put_error k msg fe = (k, msg) # filter (\<lambda>e. fst e \<noteq> k) fe"

definition FieldErrors_Error :: "FieldErrors \<Rightarrow> fragment list" where
  "FieldErrors_Error fe =
     (case sort (map fst fe) of
        [] \<Rightarrow> []
      | k # ks \<Rightarrow> Txt (k @ '' '') # the (map_of fe k) @ concat (map (\<lambda>j. Txt (''; '' @ j @ '' '') # the (map_of fe j)) ks))"

text \<open>\<open>Namespace()\<close> without the name of the root struct.\<close>

definition fieldPath :: "field_violation \<Rightarrow> string" where
  "fieldPath e = (if CHR ''.'' \<in> set (fv_Namespace e) then tl (dropWhile (\<lambda>ch. ch \<noteq> CHR ''.'') (fv_Namespace e)) else fv_Field e)"

definition validation_message :: "field_violation \<Rightarrow> string" where
  "validation_message e =
     (if fv_Tag e = ''required'' then ''is required''
      else if fv_Tag e = ''oneof'' then ''must be one of: '' @ concat (map (\<lambda>ch. if ch = CHR '' '' then '', '' else [ch]) (fv_Param e))
      else if fv_Tag e = ''gt'' then ''must be greater than '' @ fv_Param e
      else if fv_Tag e = ''gte'' then ''must be at least '' @ fv_Param e
      else if fv_Tag e = ''min'' then ''must have at least '' @ fv_Param e @ '' entries''
      else if fv_Tag e = ''len'' then ''must be exactly '' @ fv_Param e @ '' characters''
      else if fv_Tag e = ''url'' then ''is not a valid URL''
      else if fv_Tag e = ''currency'' then ''is not a supported ISO 4217 currency code (see GET /v1/currencies)''
      else if fv_Tag e = ''email'' then ''is not a valid email''
      else ''is invalid ('' @ fv_Tag e @ '')'')"

datatype struct_result = StructOk | StructFields FieldErrors | StructError string

definition Struct :: "validator_result \<Rightarrow> struct_result" where
  "Struct r =
     (case r of
        Valid \<Rightarrow> StructOk
      | ValidatorError m \<Rightarrow> StructError m
      | Violations es \<Rightarrow> StructFields (foldl (\<lambda>fe e. put_error (fieldPath e) [Txt (validation_message e)] fe) [] es))"

section \<open>Every violation is reported\<close>

lemma put_error_keys [simp]: "set (map fst (put_error k msg fe)) = insert k (set (map fst fe))"
  by (auto simp: put_error_def)

lemma put_error_distinct [simp]: "distinct (map fst fe) \<Longrightarrow> distinct (map fst (put_error k msg fe))"
  by (auto simp: put_error_def distinct_map inj_on_def)

lemma put_error_get: "map_of (put_error k msg fe) = (map_of fe)(k \<mapsto> msg)"
proof -
  have "map_of (filter (\<lambda>e. fst e \<noteq> k) fe) j = (if j = k then None else map_of fe j)" for j by (induction fe) auto
  then show ?thesis by (auto simp: put_error_def)
qed

lemma violations_reported:
  assumes "Struct (Violations es) = StructFields fe"
  shows "set (map fst fe) = fieldPath ` set es \<and> distinct (map fst fe)"
proof -
  have "set (map fst (foldl (\<lambda>fe e. put_error (fieldPath e) [Txt (validation_message e)] fe) fe0 es)) = set (map fst fe0) \<union> fieldPath ` set es \<and>
      (distinct (map fst fe0) \<longrightarrow> distinct (map fst (foldl (\<lambda>fe e. put_error (fieldPath e) [Txt (validation_message e)] fe) fe0 es)))" for fe0
    by (induction es arbitrary: fe0) (simp_all del: set_map)
  from this [of "[]"] show ?thesis using assms by (simp add: Struct_def)
qed

end
