(* ===== verification/Http_Api.thy ===== *)
theory Http_Api
  imports Transaction_Lookup Validation
begin

text \<open>
  The HTTP API (\<open>internal/handlers/http\<close> and \<open>internal/routers/router.go\<close>): reading the query, decoding and validating
  a body, calling the service and answering with a status code and a body. A request is its query (\<open>r.URL.Query().Get\<close>) and
  its raw body; the route carries the path parameters. Parameters of the model: the JSON decoder for a
  request shape (\<open>de_decode\<close>, the error text or the value), the validator library (\<open>de_validate\<close>), and
  \<open>time.Parse(time.RFC3339, ...)\<close> (\<open>rfc3339\<close>).
\<close>

section \<open>Answers\<close>

datatype api_body =
    BodyProfile ProfileResDto | BodyProfiles "ProfileResDto page"
  | BodyWallet WalletResDto | BodyWallets "WalletResDto page"
  | BodyTransaction TransactionResDto | BodyTransactions "TransactionResDto page"
  | BodyCurrencies nat "currency list" | BodyMessage string
  | BodyErrors int FieldErrors

record response =
  rp_status :: int
  rp_body :: api_body

definition writeJSON :: "int \<Rightarrow> api_body \<Rightarrow> response" where
  "writeJSON code body = \<lparr>rp_status = code, rp_body = body\<rparr>"

definition writeError :: "int \<Rightarrow> FieldErrors \<Rightarrow> response" where
  "writeError code fe = writeJSON code (BodyErrors code fe)"

definition writeServiceError :: "service_error \<Rightarrow> response" where
  "writeServiceError e =
     (case se_Kind e of
        ErrNotFound \<Rightarrow> writeError 404 [(''message'', se_Message e)]
      | ErrConflict \<Rightarrow> writeError 409 [(''message'', se_Message e)]
      | ErrInvalid \<Rightarrow> writeError 400 [(''message'', se_Message e)]
      | ErrUnavailable \<Rightarrow> writeError 503 [(''message'', se_Message e)]
      | _ \<Rightarrow> writeError 500 [(''message'', [Txt ''internal server error''])])"

text \<open>The two ways a handler ends.\<close>

definition answer :: "int \<Rightarrow> ('a \<Rightarrow> api_body) \<Rightarrow> (service_error + 'a) \<times> svc \<Rightarrow> response \<times> svc" where
  "answer code body r = (case r of (Inl e, s) \<Rightarrow> (writeServiceError e, s) | (Inr x, s) \<Rightarrow> (writeJSON code (body x), s))"

section \<open>Reading a request\<close>

record http_request =
  hr_query :: "string \<Rightarrow> string"
  hr_body :: string

record 'a decoder =
  de_decode :: "string \<Rightarrow> string + 'a"
  de_validate :: "'a \<Rightarrow> validator_result"

definition http_decode :: "'a decoder \<Rightarrow> http_request \<Rightarrow> response + 'a" where
  "http_decode d r =
     (case de_decode d (hr_body r) of
        Inl m \<Rightarrow> Inl (writeError 400 [(''body'', [Txt m])])
      | Inr x \<Rightarrow>
          (case Struct (de_validate d x) of
             StructOk \<Rightarrow> Inr x
           | StructFields fe \<Rightarrow> Inl (writeError 422 fe)
           | StructError m \<Rightarrow> Inl (writeError 400 [(''body'', [Txt m])])))"

text \<open>
  The value \<open>strconv.Atoi\<close> returns beside its error: 0 for a syntax error, the nearest \<open>int64\<close> when out of range.
\<close>

definition Atoi_value :: "string \<Rightarrow> int64" where
  "Atoi_value s =
     (let neg = (s \<noteq> [] \<and> hd s = CHR ''-'');
          ds = (if s \<noteq> [] \<and> (hd s = CHR ''-'' \<or> hd s = CHR ''+'') then tl s else s)
      in if ds = [] \<or> \<not> list_all is_digit ds then 0
         else if neg then max MinInt64 (- int (digits_value ds)) else min MaxInt64 (int (digits_value ds)))"

definition http_pagination :: "http_request \<Rightarrow> pagination" where
  "http_pagination r = page_Normalize \<lparr>pg_Page = Atoi_value (hr_query r ''page''), pg_PageSize = Atoi_value (hr_query r ''page_size'')\<rparr>"

definition queryString :: "http_request \<Rightarrow> string \<Rightarrow> string option" where
  "queryString r key = (let v = TrimSpace (hr_query r key) in if v = [] then None else Some v)"

definition queryUUID :: "ctx \<Rightarrow> http_request \<Rightarrow> string \<Rightarrow> FieldErrors \<Rightarrow> uuid option \<times> FieldErrors" where
  "queryUUID c r key fe =
     (case queryString r key of
        None \<Rightarrow> (None, fe)
      | Some v \<Rightarrow> (case parse_uuid c v of None \<Rightarrow> (None, put_error key [Txt ''is not a valid UUID''] fe) | Some i \<Rightarrow> (Some i, fe)))"

definition queryTime :: "(string \<Rightarrow> time option) \<Rightarrow> http_request \<Rightarrow> string \<Rightarrow> FieldErrors \<Rightarrow> time \<times> FieldErrors" where
  "queryTime rfc3339 r key fe =
     (case queryString r key of
        None \<Rightarrow> (zero_time, fe)
      | Some v \<Rightarrow>
          (case rfc3339 v of
             Some t \<Rightarrow> (t, fe)
           | None \<Rightarrow> (case parse_date v of Some t \<Rightarrow> (t, fe) | None \<Rightarrow> (zero_time, put_error key [Txt ''must be RFC3339 or YYYY-MM-DD''] fe))))"

text \<open>An optional query value restricted to a list of words.\<close>

definition query_word :: "http_request \<Rightarrow> string \<Rightarrow> string list \<Rightarrow> string \<Rightarrow> FieldErrors \<Rightarrow> string option \<times> FieldErrors" where
  "query_word r key allowed msg fe =
     (case queryString r key of
        None \<Rightarrow> (None, fe)
      | Some v \<Rightarrow> if v \<in> set allowed then (Some v, fe) else (None, put_error key [Txt msg] fe))"

section \<open>Handlers\<close>

definition http_ListCurrencies :: "ctx \<Rightarrow> response" where
  "http_ListCurrencies c = writeJSON 200 (BodyCurrencies (length (Codes (unicode_upper c))) (Currency.All (unicode_upper c)))"

definition http_profile_Register :: "ctx \<Rightarrow> ProfileReqDto decoder \<Rightarrow> http_request \<Rightarrow> svc \<Rightarrow> response \<times> svc" where
  "http_profile_Register c d r s = (case http_decode d r of Inl e \<Rightarrow> (e, s) | Inr payload \<Rightarrow> answer 201 BodyProfile (Register c payload s))"

definition http_profile_List :: "ctx \<Rightarrow> http_request \<Rightarrow> svc \<Rightarrow> response \<times> svc" where
  "http_profile_List c r s =
     (let (t, fe) = query_word r ''type'' [''individual'', ''business''] ''must be one of: individual, business'' [];
          f = \<lparr>pf_ExternalID = queryString r ''external_id'', pf_Type = t, pf_Search = queryString r ''search''\<rparr> in
      if fe \<noteq> [] then (writeError 400 fe, s) else answer 200 BodyProfiles (profile_List c f (http_pagination r) s))"

definition bad_uuid :: "string \<Rightarrow> response" where
  "bad_uuid key = writeError 400 [(key, [Txt ''is not a valid UUID''])]"

definition http_profile_Get :: "ctx \<Rightarrow> string \<Rightarrow> svc \<Rightarrow> response \<times> svc" where
  "http_profile_Get c i s = (case parse_uuid c i of None \<Rightarrow> (bad_uuid ''id'', s) | Some u \<Rightarrow> answer 200 BodyProfile (profile_Get c u s))"

definition http_profile_GetByUsername :: "ctx \<Rightarrow> string \<Rightarrow> svc \<Rightarrow> response \<times> svc" where
  "http_profile_GetByUsername c name s = answer 200 BodyProfile (GetByUsername c name s)"

definition http_wallet_Create :: "ctx \<Rightarrow> WalletReqDto decoder \<Rightarrow> http_request \<Rightarrow> svc \<Rightarrow> response \<times> svc" where
  "http_wallet_Create c d r s = (case http_decode d r of Inl e \<Rightarrow> (e, s) | Inr payload \<Rightarrow> answer 201 BodyWallet (wallet_Create c payload s))"

definition http_wallet_Get :: "ctx \<Rightarrow> string \<Rightarrow> svc \<Rightarrow> response \<times> svc" where
  "http_wallet_Get c i s = (case parse_uuid c i of None \<Rightarrow> (bad_uuid ''id'', s) | Some u \<Rightarrow> answer 200 BodyWallet (wallet_Get c u s))"

definition http_wallet_GetByNumber :: "ctx \<Rightarrow> string \<Rightarrow> svc \<Rightarrow> response \<times> svc" where
  "http_wallet_GetByNumber c number s = answer 200 BodyWallet (wallet_GetByNumber c number s)"

definition http_wallet_list :: "ctx \<Rightarrow> http_request \<Rightarrow> WalletFilter \<Rightarrow> svc \<Rightarrow> response \<times> svc" where
  "http_wallet_list c r f s = answer 200 BodyWallets (wallet_List c f (http_pagination r) s)"

definition wallet_status_query :: "http_request \<Rightarrow> FieldErrors \<Rightarrow> wallet_status option \<times> FieldErrors" where
  "wallet_status_query r = query_word r ''status'' [WalletStatusActive, WalletStatusSuspended, WalletStatusFrozen, WalletStatusClosed]
     ''must be one of: active, suspended, frozen, closed''"

definition http_wallet_List :: "ctx \<Rightarrow> http_request \<Rightarrow> svc \<Rightarrow> response \<times> svc" where
  "http_wallet_List c r s =
     (let (m, fe1) = queryUUID c r ''merchant_id'' []; (p, fe2) = queryUUID c r ''profile_id'' fe1; (st, fe3) = wallet_status_query r fe2;
          f = \<lparr>wf_MerchantID = m, wf_ProfileID = p, wf_Currency = queryString r ''currency'', wf_Status = st\<rparr> in
      if fe3 \<noteq> [] then (writeError 400 fe3, s) else http_wallet_list c r f s)"

definition http_wallet_ListByProfile :: "ctx \<Rightarrow> string \<Rightarrow> http_request \<Rightarrow> svc \<Rightarrow> response \<times> svc" where
  "http_wallet_ListByProfile c i r s =
     (case parse_uuid c i of
        None \<Rightarrow> (bad_uuid ''profileId'', s)
      | Some u \<Rightarrow>
          (let (m, fe1) = queryUUID c r ''merchant_id'' []; (st, fe2) = wallet_status_query r fe1;
               f = \<lparr>wf_MerchantID = m, wf_ProfileID = Some u, wf_Currency = queryString r ''currency'', wf_Status = st\<rparr> in
           if fe2 \<noteq> [] then (writeError 400 fe2, s) else http_wallet_list c r f s))"

definition http_Initiate :: "ctx \<Rightarrow> TransactionReqDto decoder \<Rightarrow> http_request \<Rightarrow> svc \<Rightarrow> response \<times> svc" where
  "http_Initiate c d r s = (case http_decode d r of Inl e \<Rightarrow> (e, s) | Inr payload \<Rightarrow> answer 202 BodyTransaction (Initiate c payload s))"

definition http_Reverse :: "ctx \<Rightarrow> TransactionReverseReqDto decoder \<Rightarrow> http_request \<Rightarrow> svc \<Rightarrow> response \<times> svc" where
  "http_Reverse c d r s = (case http_decode d r of Inl e \<Rightarrow> (e, s) | Inr payload \<Rightarrow> answer 202 BodyTransaction (Reverse c payload s))"

definition http_txn_List :: "ctx \<Rightarrow> (string \<Rightarrow> time option) \<Rightarrow> http_request \<Rightarrow> svc \<Rightarrow> response \<times> svc" where
  "http_txn_List c rfc3339 r s =
     (let (m, fe1) = queryUUID c r ''merchant_id'' []; (p, fe2) = queryUUID c r ''profile_id'' fe1; (wid, fe3) = queryUUID c r ''wallet_id'' fe2;
          (fr, fe4) = queryTime rfc3339 r ''from'' fe3; (to, fe5) = queryTime rfc3339 r ''to'' fe4;
          (st, fe6) = query_word r ''status'' [TransactionStatusPending, TransactionStatusProcessing, TransactionStatusSuccess,
            TransactionStatusFailed, TransactionStatusReversed] ''must be one of: pending, processing, success, failed, reversed'' fe5;
          f = \<lparr>tf_MerchantID = m, tf_ProfileID = p, tf_WalletID = wid, tf_Status = st, tf_Type = queryString r ''type'',
               tf_OrderID = queryString r ''order_id'', tf_ProviderRef = queryString r ''provider_ref'', tf_From = fr, tf_To = to\<rparr> in
      if fe6 \<noteq> [] then (writeError 400 fe6, s) else answer 200 BodyTransactions (txn_List c f (http_pagination r) s))"

definition http_GetByID :: "ctx \<Rightarrow> string \<Rightarrow> http_request \<Rightarrow> svc \<Rightarrow> response \<times> svc" where
  "http_GetByID c i r s =
     (case parse_uuid c i of None \<Rightarrow> (bad_uuid ''id'', s) | Some u \<Rightarrow> answer 200 BodyTransaction (GetByID c u (hr_query r ''date'') s))"

definition http_GetByRRN :: "ctx \<Rightarrow> string \<Rightarrow> http_request \<Rightarrow> svc \<Rightarrow> response \<times> svc" where
  "http_GetByRRN c rrn r s = answer 200 BodyTransaction (GetByRRN c rrn (hr_query r ''date'') s)"

definition http_GetByOrderID :: "ctx \<Rightarrow> string \<Rightarrow> http_request \<Rightarrow> svc \<Rightarrow> response \<times> svc" where
  "http_GetByOrderID c order r s = answer 200 BodyTransaction (GetByOrderID c order (hr_query r ''date'') s)"

definition http_ResendCallback :: "ctx \<Rightarrow> string \<Rightarrow> http_request \<Rightarrow> svc \<Rightarrow> response \<times> svc" where
  "http_ResendCallback c rrn r s =
     (case ResendCallback c rrn (hr_query r ''date'') s of
        (Some e, s') \<Rightarrow> (writeServiceError e, s')
      | (None, s') \<Rightarrow> (writeJSON 202 (BodyMessage ''callback queued for delivery''), s'))"

section \<open>Routes\<close>

datatype route =
    RCurrencies
  | RProfileRegister | RProfileList | RProfileUsername string | RProfileGet string
  | RWalletCreate | RWalletList | RWalletNumber string | RWalletByProfile string | RWalletGet string
  | RInitiate | RReverse | RTxnList | RTxnRRN string | RResend string | RTxnOrder string | RTxnGet string

text \<open>The route of a method and the segments of a path; a path parameter matches one non-empty segment.\<close>

definition Router :: "string \<Rightarrow> string list \<Rightarrow> route option" where
  "Router m path =
     (if [] \<in> set path then None
      else if m = ''GET'' then
        (case path of
           [a] \<Rightarrow> if a = ''currencies'' then Some RCurrencies else if a = ''profile'' then Some RProfileList
             else if a = ''wallet'' then Some RWalletList else if a = ''transaction'' then Some RTxnList else None
         | [a, b] \<Rightarrow> if a = ''profile'' then Some (RProfileGet b) else if a = ''wallet'' then Some (RWalletGet b)
             else if a = ''transaction'' then Some (RTxnGet b) else None
         | [a, b, x] \<Rightarrow> if a = ''profile'' \<and> b = ''username'' then Some (RProfileUsername x)
             else if a = ''wallet'' \<and> b = ''number'' then Some (RWalletNumber x)
             else if a = ''wallet'' \<and> b = ''profile'' then Some (RWalletByProfile x)
             else if a = ''transaction'' \<and> b = ''rrn'' then Some (RTxnRRN x)
             else if a = ''transaction'' \<and> b = ''order'' then Some (RTxnOrder x) else None
         | _ \<Rightarrow> None)
      else if m = ''POST'' then
        (case path of
           [a, b] \<Rightarrow> if a = ''profile'' \<and> b = ''register'' then Some RProfileRegister
             else if a = ''wallet'' \<and> b = ''create'' then Some RWalletCreate
             else if a = ''transaction'' \<and> b = ''initiate'' then Some RInitiate
             else if a = ''transaction'' \<and> b = ''reverse'' then Some RReverse else None
         | [a, b, x, y] \<Rightarrow> if a = ''transaction'' \<and> b = ''rrn'' \<and> y = ''resend-callback'' then Some (RResend x) else None
         | _ \<Rightarrow> None)
      else None)"

record api_env =
  ae_profile :: "ProfileReqDto decoder"
  ae_wallet :: "WalletReqDto decoder"
  ae_txn :: "TransactionReqDto decoder"
  ae_reverse :: "TransactionReverseReqDto decoder"
  ae_rfc3339 :: "string \<Rightarrow> time option"

fun serve :: "ctx \<Rightarrow> api_env \<Rightarrow> route \<Rightarrow> http_request \<Rightarrow> svc \<Rightarrow> response \<times> svc" where
  "serve c e RCurrencies r s = (http_ListCurrencies c, s)"
| "serve c e RProfileRegister r s = http_profile_Register c (ae_profile e) r s"
| "serve c e RProfileList r s = http_profile_List c r s"
| "serve c e (RProfileUsername x) r s = http_profile_GetByUsername c x s"
| "serve c e (RProfileGet x) r s = http_profile_Get c x s"
| "serve c e RWalletCreate r s = http_wallet_Create c (ae_wallet e) r s"
| "serve c e RWalletList r s = http_wallet_List c r s"
| "serve c e (RWalletNumber x) r s = http_wallet_GetByNumber c x s"
| "serve c e (RWalletByProfile x) r s = http_wallet_ListByProfile c x r s"
| "serve c e (RWalletGet x) r s = http_wallet_Get c x s"
| "serve c e RInitiate r s = http_Initiate c (ae_txn e) r s"
| "serve c e RReverse r s = http_Reverse c (ae_reverse e) r s"
| "serve c e RTxnList r s = http_txn_List c (ae_rfc3339 e) r s"
| "serve c e (RTxnRRN x) r s = http_GetByRRN c x r s"
| "serve c e (RResend x) r s = http_ResendCallback c x r s"
| "serve c e (RTxnOrder x) r s = http_GetByOrderID c x r s"
| "serve c e (RTxnGet x) r s = http_GetByID c x r s"

end
