(* ===== verification/Grpc_Api.thy ===== *)
theory Grpc_Api
  imports Http_Api
begin

text \<open>
  The gRPC API (\<open>internal/handlers/grpc\<close>): the same services behind protobuf messages whose identifiers and amounts are strings.
  Parameters of the model: the validator library, \<open>json.Valid\<close> (\<open>json_valid\<close>) and the RFC 3339 rendering of a time
  (\<open>fmt_time\<close>).
\<close>

section \<open>Status codes\<close>

datatype grpc_code = InvalidArgument | NotFound | AlreadyExists | Unavailable | Internal

datatype api_error = FieldsError FieldErrors | ServiceErr service_error | PlainError string

type_synonym grpc_status = "grpc_code \<times> fragment list"

definition toStatus :: "api_error \<Rightarrow> grpc_status" where
  "toStatus err =
     (case err of
        FieldsError fe \<Rightarrow> (InvalidArgument, FieldErrors_Error fe)
      | ServiceErr e \<Rightarrow>
          (case se_Kind e of
             ErrNotFound \<Rightarrow> (NotFound, se_Message e)
           | ErrConflict \<Rightarrow> (AlreadyExists, se_Message e)
           | ErrInvalid \<Rightarrow> (InvalidArgument, se_Message e)
           | ErrUnavailable \<Rightarrow> (Unavailable, se_Message e)
           | _ \<Rightarrow> (Internal, [Txt ''internal error'']))
      | PlainError m \<Rightarrow> (Internal, [Txt ''internal error'']))"

definition validated :: "validator_result \<Rightarrow> api_error option" where
  "validated r = (case Struct r of StructOk \<Rightarrow> None | StructFields fe \<Rightarrow> Some (FieldsError fe) | StructError m \<Rightarrow> Some (PlainError m))"

definition grpc_answer :: "('a \<Rightarrow> 'b) \<Rightarrow> (service_error + 'a) \<times> svc \<Rightarrow> (grpc_status + 'b) \<times> svc" where
  "grpc_answer f r = (case r of (Inl e, s) \<Rightarrow> (Inl (toStatus (ServiceErr e)), s) | (Inr x, s) \<Rightarrow> (Inr (f x), s))"

section \<open>Profiles\<close>

record RegisterRequest =
  gr_ExternalId :: string
  gr_Type :: string
  gr_FullName :: string
  gr_Email :: string
  gr_Phone :: "string option"
  gr_Metadata :: "string option"

record RegisterResponse =
  go_Id :: string
  go_ExternalId :: string
  go_Type :: string
  go_FullName :: string
  go_Email :: string

definition grpc_Register :: "ctx \<Rightarrow> (string \<Rightarrow> bool) \<Rightarrow> (ProfileReqDto \<Rightarrow> validator_result) \<Rightarrow> RegisterRequest \<Rightarrow> svc \<Rightarrow>
    (grpc_status + RegisterResponse) \<times> svc" where
  "grpc_Register c json_valid validate req s =
     (let meta = (case gr_Metadata req of None \<Rightarrow> [] | Some m \<Rightarrow> m);
          payload = \<lparr>pq_ExternalId = gr_ExternalId req, pq_Type = gr_Type req, pq_FullName = gr_FullName req, pq_Email = gr_Email req,
            pq_Phone = gr_Phone req, pq_Metadata = meta\<rparr> in
      if meta \<noteq> [] \<and> \<not> json_valid meta then (Inl (toStatus (FieldsError [(''metadata'', [Txt ''is not valid JSON''])])), s)
      else
        (case validated (validate payload) of
           Some err \<Rightarrow> (Inl (toStatus err), s)
         | None \<Rightarrow> grpc_answer (\<lambda>p. \<lparr>go_Id = str_uuid c (pr_ID p), go_ExternalId = pq_ExternalId (pr_Req p), go_Type = pq_Type (pr_Req p),
             go_FullName = pq_FullName (pr_Req p), go_Email = pq_Email (pr_Req p)\<rparr>) (Register c payload s)))"

section \<open>Wallets\<close>

record CreateWalletRequest =
  gw_ProfileId :: string
  gw_MerchantId :: string
  gw_Currency :: string

record WalletResponse =
  go_WId :: string
  go_CreatedAt :: string
  go_UpdatedAt :: string
  go_Number :: string
  go_Status :: string
  go_Currency :: string
  go_AvailableBalance :: string
  go_ProcessingBalance :: string
  go_ActualBalance :: string
  go_Version :: int64
  go_Profile :: "string \<times> string"
  go_Merchant :: "string \<times> string"

definition walletToProto :: "ctx \<Rightarrow> (time \<Rightarrow> string) \<Rightarrow> WalletResDto \<Rightarrow> WalletResponse" where
  "walletToProto c fmt_time w =
     \<lparr>go_WId = str_uuid c (wr_ID w), go_CreatedAt = fmt_time (wr_CreatedAt w), go_UpdatedAt = fmt_time (wr_UpdatedAt w), go_Number = wr_Number w,
      go_Status = wr_Status w, go_Currency = wr_Currency w, go_AvailableBalance = money_String (wr_AvailableBalance w),
      go_ProcessingBalance = money_String (wr_ProcessingBalance w), go_ActualBalance = money_String (wr_ActualBalance w),
      go_Version = wr_Version w, go_Profile = (str_uuid c (pd_ID (wr_Profile w)), pd_FullName (wr_Profile w)),
      go_Merchant = (str_uuid c (pd_ID (wr_Merchant w)), pd_FullName (wr_Merchant w))\<rparr>"

text \<open>A UUID field: its value, or an error recorded under its name.\<close>

definition uuid_field :: "ctx \<Rightarrow> string \<Rightarrow> string \<Rightarrow> FieldErrors \<Rightarrow> uuid \<times> FieldErrors" where
  "uuid_field c key v fe = (case parse_uuid c v of Some i \<Rightarrow> (i, fe) | None \<Rightarrow> (uuid_Nil, put_error key [Txt ''is not a valid UUID''] fe))"

definition grpc_wallet_Create :: "ctx \<Rightarrow> (time \<Rightarrow> string) \<Rightarrow> (WalletReqDto \<Rightarrow> validator_result) \<Rightarrow> CreateWalletRequest \<Rightarrow> svc \<Rightarrow>
    (grpc_status + WalletResponse) \<times> svc" where
  "grpc_wallet_Create c fmt_time validate req s =
     (let (p, fe1) = uuid_field c ''profile_id'' (gw_ProfileId req) []; (m, fe2) = uuid_field c ''merchant_id'' (gw_MerchantId req) fe1;
          payload = \<lparr>wq_ProfileID = p, wq_MerchantID = m, wq_Currency = gw_Currency req\<rparr> in
      if fe2 \<noteq> [] then (Inl (toStatus (FieldsError fe2)), s)
      else
        (case validated (validate payload) of
           Some err \<Rightarrow> (Inl (toStatus err), s)
         | None \<Rightarrow> grpc_answer (walletToProto c fmt_time) (wallet_Create c payload s)))"

definition grpc_wallet_Get :: "ctx \<Rightarrow> (time \<Rightarrow> string) \<Rightarrow> string \<Rightarrow> svc \<Rightarrow> (grpc_status + WalletResponse) \<times> svc" where
  "grpc_wallet_Get c fmt_time i s =
     (case parse_uuid c i of
        None \<Rightarrow> (Inl (toStatus (FieldsError [(''id'', [Txt ''is not a valid UUID''])])), s)
      | Some u \<Rightarrow> grpc_answer (walletToProto c fmt_time) (wallet_Get c u s))"

section \<open>Transactions\<close>

record GrpcEntry =
  ge_WalletId :: string
  ge_Action :: string
  ge_Amount :: string
  ge_Purpose :: string
  ge_IsFee :: bool
  ge_IsInitial :: bool

record InitiateTransactionRequest =
  gi_Type :: string
  gi_MerchantId :: string
  gi_OrderId :: string
  gi_ProviderRef :: string
  gi_CallbackUrl :: string
  gi_TotalAmount :: string
  gi_Fee :: string
  gi_Currency :: string
  gi_Purpose :: "string option"
  gi_Description :: "string option"
  gi_Transfers :: "GrpcEntry list"

record GrpcBalance =
  gb_WalletId :: string
  gb_Currency :: string
  gb_InitialBalance :: string
  gb_UpdatedBalance :: string
  gb_Entries :: int

record TransactionResponse =
  gt_Id :: string
  gt_MerchantId :: "string option"
  gt_OrderId :: "string option"
  gt_ProviderRef :: "string option"
  gt_Rrn :: string
  gt_CallbackUrl :: "string option"
  gt_Type :: string
  gt_Status :: string
  gt_Narration :: string
  gt_Amount :: string
  gt_Fee :: string
  gt_Currency :: string
  gt_IsCompleted :: bool
  gt_CreatedAt :: string
  gt_DateCompleted :: "string option"
  gt_Balances :: "GrpcBalance list"
  gt_Transfers :: "GrpcEntry list"

definition money_field :: "string \<Rightarrow> string \<Rightarrow> FieldErrors \<Rightarrow> money \<times> FieldErrors" where
  "money_field key v fe = (case ParseMoney v of Inr m \<Rightarrow> (m, fe) | Inl e \<Rightarrow> (money_zero, put_error key (money_error_text e) fe))"

fun grpc_entries :: "ctx \<Rightarrow> nat \<Rightarrow> GrpcEntry list \<Rightarrow> FieldErrors \<Rightarrow> TransactionEntryDto list \<times> FieldErrors" where
  "grpc_entries c i [] fe = ([], fe)"
| "grpc_entries c i (t # ts) fe =
     (let (wid, fe1) = uuid_field c (''transfers['' @ FormatInt (int i) @ ''].wallet_id'') (ge_WalletId t) fe;
          (amount, fe2) = money_field (''transfers['' @ FormatInt (int i) @ ''].amount'') (ge_Amount t) fe1;
          (rest, fe3) = grpc_entries c (Suc i) ts fe2 in
      (\<lparr>en_WalletID = wid, en_Action = ge_Action t, en_Amount = amount, en_Purpose = ge_Purpose t, en_IsFee = ge_IsFee t,
        en_IsInitial = ge_IsInitial t\<rparr> # rest, fe3))"

definition grpc_payload :: "ctx \<Rightarrow> InitiateTransactionRequest \<Rightarrow> TransactionReqDto \<times> FieldErrors" where
  "grpc_payload c req =
     (let (m, fe1) = uuid_field c ''merchant_id'' (gi_MerchantId req) [];
          (total_amount, fe2) = money_field ''total_amount'' (gi_TotalAmount req) fe1;
          (fee, fe3) = (if gi_Fee req \<noteq> [] then money_field ''fee'' (gi_Fee req) fe2 else (MoneyFromMinor 0 0, fe2));
          (es, fe4) = grpc_entries c 0 (gi_Transfers req) fe3 in
      (\<lparr>rq_Type = gi_Type req, rq_MerchantID = m, rq_OrderId = gi_OrderId req, rq_ProviderRef = gi_ProviderRef req,
        rq_CallbackUrl = gi_CallbackUrl req, rq_TotalAmount = total_amount, rq_Fee = fee, rq_Currency = gi_Currency req,
        rq_Purpose = gi_Purpose req, rq_Description = gi_Description req, rq_Transfers = es\<rparr>, fe4))"

definition transactionToProto :: "ctx \<Rightarrow> (time \<Rightarrow> string) \<Rightarrow> TransactionResDto \<Rightarrow> TransactionResponse" where
  "transactionToProto c fmt_time t =
     \<lparr>gt_Id = str_uuid c (rs_ID t), gt_MerchantId = map_option (str_uuid c) (rs_MerchantID t), gt_OrderId = rs_OrderID t,
      gt_ProviderRef = rs_ProviderRef t, gt_Rrn = rs_Rrn t, gt_CallbackUrl = rs_CallbackURL t, gt_Type = rs_Type t, gt_Status = rs_Status t,
      gt_Narration = rs_Narration t, gt_Amount = money_String (rs_Amount t), gt_Fee = money_String (rs_Fee t), gt_Currency = rs_Currency t,
      gt_IsCompleted = rs_IsCompleted t, gt_CreatedAt = fmt_time (rs_CreatedAt t), gt_DateCompleted = map_option fmt_time (rs_DateCompleted t),
      gt_Balances = map (\<lambda>b. \<lparr>gb_WalletId = str_uuid c (bd_WalletID b), gb_Currency = bd_Currency b,
        gb_InitialBalance = money_String (bd_InitialBalance b), gb_UpdatedBalance = money_String (bd_UpdatedBalance b),
        gb_Entries = sint (word_of_int (bd_Entries b) :: 32 word)\<rparr>) (rs_Balances t),
      gt_Transfers = map (\<lambda>l. \<lparr>ge_WalletId = str_uuid c (ld_WalletID l), ge_Action = ld_Action l, ge_Amount = money_String (ld_Amount l),
        ge_Purpose = ld_Purpose l, ge_IsFee = ld_IsFee l, ge_IsInitial = ld_IsInitial l\<rparr>) (rs_Transfers t)\<rparr>"

definition grpc_Initiate :: "ctx \<Rightarrow> (time \<Rightarrow> string) \<Rightarrow> (TransactionReqDto \<Rightarrow> validator_result) \<Rightarrow> InitiateTransactionRequest \<Rightarrow> svc \<Rightarrow>
    (grpc_status + TransactionResponse) \<times> svc" where
  "grpc_Initiate c fmt_time validate req s =
     (let (payload, fe) = grpc_payload c req in
      if fe \<noteq> [] then (Inl (toStatus (FieldsError fe)), s)
      else
        (case validated (validate payload) of
           Some err \<Rightarrow> (Inl (toStatus err), s)
         | None \<Rightarrow> grpc_answer (transactionToProto c fmt_time) (Initiate c payload s)))"

definition grpc_txn_Get :: "ctx \<Rightarrow> (time \<Rightarrow> string) \<Rightarrow> string option \<Rightarrow> string option \<Rightarrow> string \<Rightarrow> svc \<Rightarrow> (grpc_status + TransactionResponse) \<times> svc" where
  "grpc_txn_Get c fmt_time rrn order date s =
     (case rrn of
        Some (x # xs) \<Rightarrow> grpc_answer (transactionToProto c fmt_time) (GetByRRN c (x # xs) date s)
      | _ \<Rightarrow>
          (case order of
             Some (x # xs) \<Rightarrow> grpc_answer (transactionToProto c fmt_time) (GetByOrderID c (x # xs) date s)
           | _ \<Rightarrow> (Inl (toStatus (FieldsError [(''rrn'', [Txt ''or order_id is required''])])), s)))"

end
