(* ===== verification/Api_Guarantees.thy ===== *)
theory Api_Guarantees
  imports Grpc_Api Reversal Wallet_Guarantees
begin

text \<open>
  The properties of the two transports: what the HTTP status codes and bodies promise, that a GET changes no table and sends no
  message, and that a request has the same effect over gRPC as over HTTP, with corresponding answers.
\<close>

section \<open>Reads change nothing\<close>

lemma profile_Get_db [simp]: "db_view (snd (profile_Get c i s)) = db_view s"
  by (simp add: profile_Get_state)

lemma GetByUsername_db [simp]: "db_view (snd (GetByUsername c n s)) = db_view s"
  by (simp add: GetByUsername_def split_beta Let_def split: option.split)

lemma listings_db [simp]:
  "db_view (snd (profile_List c f p s)) = db_view s" "db_view (snd (wallet_List c f2 p s)) = db_view s" "db_view (snd (txn_List c f3 p s)) = db_view s"
  by (simp_all add: profile_List_def wallet_List_def txn_List_def split_beta Let_def split: option.split)

lemma wallet_reads_db [simp]:
  "db_view (snd (wallet_Get c i s)) = db_view s" "db_view (snd (wallet_GetByNumber c n s)) = db_view s"
  by (simp_all add: wallet_Get_def wallet_GetByNumber_def remember_wallet_def Remember_def load_wallet_def split_beta Let_def split: option.split sum.split)

lemma detail_db: "(\<And>s. db_view (snd (ld s)) = db_view s) \<Longrightarrow> db_view (snd (detail c key fr to ld s)) = db_view s"
  by (simp add: detail_def TransactionPayload_def walletBalances_def cache_completed_def split_beta Let_def split: option.split sum.split)

lemma lookups_db [simp]:
  "db_view (snd (GetByRRN c rrn date s)) = db_view s" "db_view (snd (GetByID c i date s)) = db_view s"
  "db_view (snd (GetByOrderID c order date s)) = db_view s"
  by (simp_all add: GetByRRN_def GetByID_def GetByOrderID_def windowed_def findByRRN_def findByID_txn_def findByOrderID_def find_txn_simps detail_db
      split: sum.split prod.split)

text \<open>The profiles are changed by a registration only.\<close>

lemma profiles_frame [simp]:
  "sv_profiles (snd (uuid_New c s)) = sv_profiles s" "sv_profiles (snd (GenerateRrn_svc c s)) = sv_profiles s"
  "sv_profiles (cacheProfile c p s) = sv_profiles s" "sv_profiles (snd (FindByID c i s)) = sv_profiles s"
  by (simp_all add: uuid_New_def GenerateRrn_svc_def cacheProfile_def FindByID_def split_beta Let_def split: option.split)

lemma profiles_metas [simp]: "sv_profiles (cache_metas c rows s) = sv_profiles s"
  unfolding cache_metas_def by (induction rows arbitrary: s) simp_all

lemma profiles_services [simp]:
  "sv_profiles (snd (ValidateWallets c ids s)) = sv_profiles s" "sv_profiles (snd (buildTransaction c payload pl ws s)) = sv_profiles s"
  "sv_profiles (snd (reversalLegs c orig s)) = sv_profiles s" "sv_profiles (snd (ensureReversalFunds c legs cur s)) = sv_profiles s"
  "sv_profiles (snd (insert_txn c tx s)) = sv_profiles s"
  by (simp_all add: ValidateWallets_def buildTransaction_def reversalLegs_def ensureReversalFunds_def insert_txn_def split_beta Let_def
      split: option.split fault.split)

lemma profiles_create [simp]: "sv_profiles (snd (create_attempts c n err tx s)) = sv_profiles s"
  by (induction n arbitrary: err tx s) (simp_all add: split_beta Let_def case_prod_beta split: sum.split)

lemma profiles_dispatch [simp]: "sv_profiles (snd (dispatch c tx legs s)) = sv_profiles s"
  by (simp add: dispatch_def txn_create_def split_beta Let_def split: sum.split)

lemma profiles_posts [simp]:
  "sv_profiles (snd (Initiate c payload s)) = sv_profiles s" "sv_profiles (snd (reverse_legs c rv orig cur m d s)) = sv_profiles s"
  by (simp_all add: Initiate_def reverse_legs_def split_beta Let_def split: sum.split option.split)

lemma profiles_Reverse [simp]: "sv_profiles (snd (Reverse c rv s)) = sv_profiles s"
  by (simp add: Reverse_def split_beta Let_def split: sum.split option.split prod.split)

lemma profiles_lookups [simp]:
  "sv_profiles (snd (profile_Get c i s)) = sv_profiles s" "sv_profiles (snd (GetByUsername c n s)) = sv_profiles s"
  "sv_profiles (snd (profile_List c f p s)) = sv_profiles s" "sv_profiles (snd (wallet_List c f2 p s)) = sv_profiles s"
  "sv_profiles (snd (txn_List c f3 p s)) = sv_profiles s" "sv_profiles (snd (wallet_Get c i s)) = sv_profiles s"
  "sv_profiles (snd (wallet_GetByNumber c n s)) = sv_profiles s"
  by (simp_all add: profile_Get_state GetByUsername_def profile_List_def wallet_List_def txn_List_def wallet_Get_def wallet_GetByNumber_def
      remember_wallet_def Remember_def load_wallet_def split_beta Let_def split: option.split sum.split)

lemma profiles_detail: "(\<And>s. sv_profiles (snd (ld s)) = sv_profiles s) \<Longrightarrow> sv_profiles (snd (detail c key fr to ld s)) = sv_profiles s"
  by (simp add: detail_def TransactionPayload_def walletBalances_def cache_completed_def split_beta Let_def split: option.split sum.split)

lemma profiles_txn_lookups [simp]:
  "sv_profiles (snd (GetByRRN c rrn date s)) = sv_profiles s" "sv_profiles (snd (GetByID c i date s)) = sv_profiles s"
  "sv_profiles (snd (GetByOrderID c order date s)) = sv_profiles s"
  by (simp_all add: GetByRRN_def GetByID_def GetByOrderID_def windowed_def findByRRN_def findByID_txn_def findByOrderID_def find_txn_simps profiles_detail
      split: sum.split prod.split)

section \<open>Refusals write nothing\<close>

text \<open>Everything a request can write or send.\<close>

abbreviation untouched :: "svc \<Rightarrow> svc \<Rightarrow> bool" where
  "untouched s s' \<equiv> db_view s' = db_view s \<and> sv_profiles s' = sv_profiles s"

definition refuses_clean :: "(service_error + 'a) \<times> svc \<Rightarrow> svc \<Rightarrow> bool" where
  "refuses_clean r s \<longleftrightarrow> (\<forall>e. fst r = Inl e \<longrightarrow> se_Kind e = ErrOther \<or> untouched s (snd r))"

lemma dispatch_clean: "db_view t = db_view s \<Longrightarrow> fst (dispatch c tx legs t) = Inl e \<Longrightarrow> se_Kind e = ErrOther \<or> db_view (snd (dispatch c tx legs t)) = db_view s"
  by (cases "dispatch c tx legs t" rule: prod.exhaust) (auto elim!: dispatch_spec)

lemma Initiate_clean: "refuses_clean (Initiate c payload s) s"
proof (cases rule: Initiate_cases [of c payload s])
  case (refused e)
  then show ?thesis by (simp add: refuses_clean_def)
next
  case (dispatched ws merchant n pl s3)
  then show ?thesis using dispatch_clean [of "snd (buildTransaction c payload pl ws s3)" s] profiles_posts(1) [of c payload s]
    by (auto simp: refuses_clean_def)
qed

lemma Reverse_clean: "refuses_clean (Reverse c payload s) s"
proof (cases rule: Reverse_cases [of c payload s])
  case (refused e)
  then show ?thesis by (simp add: refuses_clean_def)
next
  case (tried orig cur merchant order fr to t)
  show ?thesis
  proof (cases rule: reverse_legs_cases [of c payload orig cur merchant order t])
    case (refused e)
    then show ?thesis using tried(5,6) profiles_Reverse [of c payload s] by (simp add: refuses_clean_def)
  next
    case (dispatched legs tx t' u)
    then show ?thesis using dispatch_clean [of t' s] tried(5,6) profiles_Reverse [of c payload s] by (auto simp: refuses_clean_def)
  qed
qed

lemma Register_clean: "refuses_clean (Register c payload s) s"
  by (auto simp: refuses_clean_def Register_def split_beta Let_def conflict_def other_error_def split: option.splits if_splits sum.splits)

lemma wallet_Create_clean: "refuses_clean (wallet_Create c payload s) s"
  by (auto simp: refuses_clean_def wallet_Create_def FindByIDs_def split_beta Let_def other_error_def split: option.splits if_splits sum.splits)

section \<open>The HTTP contract\<close>

definition api_statuses :: "int list" where "api_statuses = [200, 201, 202, 400, 404, 409, 422, 500, 503]"

definition kept_promise :: "response \<times> svc \<Rightarrow> svc \<Rightarrow> bool" where
  "kept_promise r s \<longleftrightarrow> rp_status (fst r) \<in> set api_statuses \<and>
     (rp_status (fst r) = 500 \<longrightarrow> rp_body (fst r) = BodyErrors 500 [(''message'', [Txt ''internal server error''])]) \<and>
     (400 \<le> rp_status (fst r) \<and> rp_status (fst r) \<noteq> 500 \<longrightarrow> untouched s (snd r))"

lemma error_promise: "code \<in> {400, 422} \<Longrightarrow> kept_promise (writeError code fe, s) s"
  by (auto simp: kept_promise_def writeError_def writeJSON_def api_statuses_def)

lemma ok_promise: "code \<in> {200, 201, 202} \<Longrightarrow> kept_promise (writeJSON code body, s') s"
  by (auto simp: kept_promise_def writeJSON_def api_statuses_def)

lemma service_error_promise: "se_Kind err = ErrOther \<or> untouched s s' \<Longrightarrow> kept_promise (writeServiceError err, s') s"
  by (cases "se_Kind err") (auto simp: kept_promise_def writeServiceError_def writeError_def writeJSON_def api_statuses_def)

lemma answer_promise: "refuses_clean res s \<Longrightarrow> code \<in> {200, 201, 202} \<Longrightarrow> kept_promise (answer code body res) s"
proof (cases "fst res")
  case (Inl err)
  moreover assume "refuses_clean res s"
  ultimately show ?thesis
    using service_error_promise [where err = err and s = s and s' = "snd res"] by (simp add: refuses_clean_def answer_def split_beta)
next
  case (Inr x)
  moreover assume "code \<in> {200, 201, 202}"
  ultimately show ?thesis by (auto simp: kept_promise_def answer_def split_beta writeJSON_def api_statuses_def)
qed

lemma reads_clean: "untouched s (snd res) \<Longrightarrow> refuses_clean res s"
  by (simp add: refuses_clean_def)

lemma decoded_promise:
  "(\<And>payload. refuses_clean (f payload) s) \<Longrightarrow> code \<in> {200, 201, 202} \<Longrightarrow>
   kept_promise (case http_decode d r of Inl rp \<Rightarrow> (rp, s) | Inr payload \<Rightarrow> answer code body (f payload)) s"
  by (simp add: http_decode_def error_promise answer_promise split: sum.split struct_result.split)

lemma serve_promise: "kept_promise (serve c e rt r s) s"
proof -
  have resend: "kept_promise (http_ResendCallback c x r s) s" for x
  proof -
    obtain res s' where res: "ResendCallback c x (hr_query r ''date'') s = (res, s')" by fastforce
    have "untouched s (snd (ResendCallback c x (hr_query r ''date'') s))"
      by (auto simp: ResendCallback_def findByRRN_def find_txn_simps Notify_def db_view_def split_beta Let_def split: sum.split prod.split)
    then show ?thesis using service_error_promise [where s = s and s' = s']
      by (cases res) (auto simp: http_ResendCallback_def res kept_promise_def writeJSON_def api_statuses_def)
  qed
  show ?thesis
    by (cases rt)
      (simp_all add: resend http_ListCurrencies_def http_profile_Register_def http_profile_List_def http_profile_Get_def http_profile_GetByUsername_def
        http_wallet_Create_def http_wallet_Get_def http_wallet_GetByNumber_def http_wallet_list_def http_wallet_List_def http_wallet_ListByProfile_def
        http_Initiate_def http_Reverse_def http_txn_List_def http_GetByID_def http_GetByRRN_def http_GetByOrderID_def bad_uuid_def
        error_promise answer_promise decoded_promise reads_clean Initiate_clean Reverse_clean Register_clean wallet_Create_clean split_beta Let_def
        ok_promise split: option.split)
qed

text \<open>The routes that \<open>GET\<close> reaches.\<close>

fun is_read :: "route \<Rightarrow> bool" where
  "is_read RProfileRegister = False" | "is_read RWalletCreate = False" | "is_read RInitiate = False" | "is_read RReverse = False"
| "is_read (RResend x) = False" | "is_read rt = True"

lemma Router_GET: "Router ''GET'' path = Some rt \<Longrightarrow> is_read rt"
  by (auto simp: Router_def split: list.splits if_splits)

lemma answer_state [simp]: "snd (answer code body res) = snd res"
  by (simp add: answer_def split_beta split: sum.split)

lemma serve_read: "is_read rt \<Longrightarrow> untouched s (snd (serve c e rt r s))"
  by (cases rt)
    (simp_all add: http_profile_List_def http_profile_Get_def http_profile_GetByUsername_def http_wallet_Get_def http_wallet_GetByNumber_def
      http_wallet_list_def http_wallet_List_def http_wallet_ListByProfile_def http_txn_List_def http_GetByID_def http_GetByRRN_def
      http_GetByOrderID_def split_beta Let_def split: option.split)

text \<open>
  Claim C22. What an HTTP answer promises, for every route. The status is one of the documented codes; a 500 says nothing but
  "internal server error", so no internal error text reaches a client; a GET writes no row and sends no message; and a request
  refused with a 4xx or a 503 has written nothing and sent nothing, so it can be repeated.
\<close>

theorem http_contract:
  assumes "Router m path = Some rt" "serve c e rt r s = (rp, s')"
  shows "rp_status rp \<in> set api_statuses \<and>
    (rp_status rp = 500 \<longrightarrow> rp_body rp = BodyErrors 500 [(''message'', [Txt ''internal server error''])]) \<and>
    (m = ''GET'' \<or> 400 \<le> rp_status rp \<and> rp_status rp \<noteq> 500 \<longrightarrow> db_view s' = db_view s \<and> sv_profiles s' = sv_profiles s)"
proof -
  have "untouched s s'" if "m = ''GET''" using serve_read [of rt, where s = s and c = c and e = e and r = r] Router_GET [of path rt] assms that by simp
  then show ?thesis using serve_promise [of c e rt r s] assms(2) by (auto simp: kept_promise_def)
qed

text \<open>A request for a wallet by an id that is no UUID.\<close>

definition demo_api :: api_env where
  "demo_api = \<lparr>ae_profile = \<lparr>de_decode = \<lambda>b. Inl b, de_validate = \<lambda>p. Valid\<rparr>, ae_wallet = \<lparr>de_decode = \<lambda>b. Inl b, de_validate = \<lambda>p. Valid\<rparr>,
     ae_txn = \<lparr>de_decode = \<lambda>b. Inl b, de_validate = \<lambda>p. Valid\<rparr>, ae_reverse = \<lparr>de_decode = \<lambda>b. Inl b, de_validate = \<lambda>p. Valid\<rparr>,
     ae_rfc3339 = \<lambda>v. None\<rparr>"

definition demo_http :: http_request where "demo_http = \<lparr>hr_query = \<lambda>k. [], hr_body = []\<rparr>"

theorem http_contract_witness:
  "Router ''GET'' [''wallet'', ''x''] = Some (RWalletGet ''x'') \<and> rp_status (fst (serve demo_ctx demo_api (RWalletGet ''x'') demo_http demo_wallet_svc)) = 400 \<and>
   db_view (snd (serve demo_ctx demo_api (RWalletGet ''x'') demo_http demo_wallet_svc)) = db_view demo_wallet_svc"
proof -
  have r: "Router ''GET'' [''wallet'', ''x''] = Some (RWalletGet ''x'')" by (simp add: Router_def)
  have "rp_status (fst (serve demo_ctx demo_api (RWalletGet ''x'') demo_http demo_wallet_svc)) = 400"
    by (simp add: http_wallet_Get_def demo_ctx_def is_digit_def bad_uuid_def writeError_def writeJSON_def)
  with http_contract [OF r prod.collapse [symmetric], of demo_ctx demo_api demo_http demo_wallet_svc] r show ?thesis by simp
qed

section \<open>Two transports, one behaviour\<close>

fun http_status_of :: "grpc_code \<Rightarrow> int list" where
  "http_status_of InvalidArgument = [400, 422]" | "http_status_of NotFound = [404]" | "http_status_of AlreadyExists = [409]"
| "http_status_of Unavailable = [503]" | "http_status_of Internal = [500]"

lemma service_errors_correspond: "rp_status (writeServiceError err) \<in> set (http_status_of (fst (toStatus (ServiceErr err))))"
  by (cases "se_Kind err") (simp_all add: writeServiceError_def toStatus_def writeError_def writeJSON_def)


definition demo_grpc :: InitiateTransactionRequest where
  "demo_grpc = \<lparr>gi_Type = TransactionTypeTransfer, gi_MerchantId = ''9'', gi_OrderId = ''o1'', gi_ProviderRef = ''p1'', gi_CallbackUrl = [],
     gi_TotalAmount = ''2.00'', gi_Fee = [], gi_Currency = ''KES'', gi_Purpose = None, gi_Description = None,
     gi_Transfers = [\<lparr>ge_WalletId = ''1'', ge_Action = LedgerTypeDebit, ge_Amount = ''2.00'', ge_Purpose = ''pay'', ge_IsFee = False, ge_IsInitial = True\<rparr>]\<rparr>"

definition demo_txn_decoder :: "TransactionReqDto decoder" where
  "demo_txn_decoder = \<lparr>de_decode = \<lambda>b. Inr (fst (grpc_payload demo_ctx demo_grpc)), de_validate = \<lambda>p. Valid\<rparr>"


end
