(* ===== verification/Ledger_Statement.thy ===== *)
theory Ledger_Statement
  imports Wallet_Actor
begin

text \<open>
  The ledger as an account statement. \<open>row_typed\<close> is what the schema of the \<open>ledgers\<close> table and the types of \<open>models.Ledger\<close> ask of a
  row, with the arithmetic of its two balances; \<open>chained\<close> says that the rows of a wallet follow one another without a gap, from the opening
  balance on. Every operation of a WalletActor keeps both.
\<close>

definition row_typed :: "ledger \<Rightarrow> bool" where
  "row_typed l \<longleftrightarrow> (l_Type l = LedgerTypeDebit \<or> l_Type l = LedgerTypeCredit) \<and> 0 < l_Amount l \<and> l_Amount l \<le> MaxInt64 \<and> l_IdempotencyKey l \<noteq> None \<and>
     0 \<le> l_InitialBalance l \<and> l_InitialBalance l \<le> MaxInt64 \<and> 0 \<le> l_UpdatedBalance l \<and> l_UpdatedBalance l \<le> MaxInt64 \<and>
     l_UpdatedBalance l = l_InitialBalance l + signed_amount (l_Type l) (l_Amount l)"

fun chained :: "int \<Rightarrow> ledger list \<Rightarrow> bool" where
  "chained b [] = True"
| "chained b (l # ls) = (l_InitialBalance l = b \<and> chained (l_UpdatedBalance l) ls)"

definition statement_of :: "uuid \<Rightarrow> ledger list \<Rightarrow> ledger list" where
  "statement_of i ls = filter (\<lambda>l. l_WalletID l = i) ls"

fun closing :: "int \<Rightarrow> ledger list \<Rightarrow> int" where
  "closing b [] = b"
| "closing b (l # ls) = closing (l_UpdatedBalance l) ls"

definition statements :: "(uuid \<Rightarrow> int) \<Rightarrow> world \<Rightarrow> bool" where
  "statements op w \<longleftrightarrow> list_all row_typed (ledgers w) \<and> (\<forall>i. wallets w i \<noteq> None \<longrightarrow> chained (op i) (statement_of i (ledgers w)))"

lemma chained_snoc: "chained b (ls @ [l]) \<longleftrightarrow> chained b ls \<and> l_InitialBalance l = closing b ls"
  by (induction ls arbitrary: b) auto

lemma closing_sum:
  "chained b ls \<Longrightarrow> list_all row_typed ls \<Longrightarrow> closing b ls = b + sum_list (map (\<lambda>l. signed_amount (l_Type l) (l_Amount l)) ls)"
  by (induction ls arbitrary: b) (auto simp: row_typed_def)

lemma closing_balance:
  assumes "statements op w" "wallets w i \<noteq> None"
  shows "closing (op i) (statement_of i (ledgers w)) = op i + net i (ledgers w)"
proof -
  have "list_all row_typed (statement_of i (ledgers w))" using assms(1) by (auto simp: statements_def statement_of_def list_all_iff)
  then show ?thesis using closing_sum assms by (simp add: statements_def net_def statement_of_def)
qed

lemma applied_statements:
  assumes "books c op w" "statements op w" "applied_to c wl action t k amount purpose w w'" "action = LedgerTypeDebit \<or> action = LedgerTypeCredit"
    and "0 < amount" "amount \<le> MaxInt64"
  shows "statements op w'"
proof -
  let ?nx = "next_wallet c wl action amount"
  let ?l = "ledger_row c w wl ?nx action t k amount purpose"
  have w': "ledgers w' = ledgers w @ [?l]" "wallets w' = (wallets w)(w_ID wl \<mapsto> ?nx\<lparr>w_UpdatedAt := now c\<rparr>)" "wallets w (w_ID wl) = Some wl"
    and nn: "0 \<le> w_AvailableBalance ?nx" "0 \<le> w_ActualBalance ?nx"
    using assms(3) by (simp_all add: applied_to_def Let_def)
  have wl: "wallet_ok c wl" "w_ActualBalance wl = op (w_ID wl) + net (w_ID wl) (ledgers w)" using assms(1) w'(3) unfolding books_def by blast+
  note ex = next_wallet_exact [OF wl(1) assms(5,6) nn]
  have "row_typed ?l" using assms(4-6) ex wl(1) nn by (auto simp: row_typed_def wallet_ok_def)
  moreover have "chained (op (w_ID wl)) (statement_of (w_ID wl) (ledgers w) @ [?l])"
    using assms(2) w'(3) closing_balance [OF assms(2), of "w_ID wl"] wl(2) by (simp add: chained_snoc statements_def)
  ultimately show ?thesis using assms(2) by (auto simp: statements_def w' statement_of_def)
qed

lemma exec_statements:
  assumes "wa_inv c op s" "statements op (snd s)" "wa_valid m"
  shows "statements op (snd (snd (wa_exec c m s)))"
proof -
  obtain r s' where e: "wa_exec c m s = (r, s')" by (cases "wa_exec c m s")
  have same: "statements op (snd s')" if "ledgers (snd s') = ledgers (snd s)" "wallets (snd s') = wallets (snd s)"
    using assms(2) that by (simp add: statements_def)
  have b: "books c op (snd s)" using assms(1) by (simp add: wa_inv_def)
  have act: "wallet_msg_action m = LedgerTypeDebit \<or> wallet_msg_action m = LedgerTypeCredit" by (cases m) simp_all
  from assms(1) e show ?thesis
  proof (cases rule: wa_exec_outcome)
    case (fresh i t k)
    then show ?thesis using same applied_statements [OF b assms(2) _ act fresh(3)] assms(3)
      by (auto simp: e op_outcome_def same_tables_def wa_valid_def is_int64_def)
  qed (use same in \<open>auto simp: e wa_core_def\<close>)
qed

lemma run_statements:
  assumes "wa_inv c op s" "statements op (snd s)" "list_all wa_valid ms"
  shows "statements op (snd (run_all (wa_exec c) ms s))"
  using assms by (induction ms arbitrary: s) (simp_all add: wa_exec_inv exec_statements)

text \<open>
  Claim C10. The ledger is a gapless, well-typed account statement. Whatever messages are delivered, with any database failures and lost
  acknowledgements: every row satisfies the types and constraints of the table (debit or credit, a positive amount and two balances
  in range, an idempotency key) and its closing balance is its opening balance plus or minus the amount; and for
  every wallet the first row opens with the wallet's opening balance, each further row with the closing balance of the row before, and the
  last one closes with the balance stored in the wallet's row.
\<close>

theorem ledger_is_statement:
  assumes "quiet c" "books c op0 w" "coherent a w" "statements op0 w" "list_all wa_valid ms"
    and "w' = snd (run_all (wa_exec c) ms (a, w))"
  shows "(\<forall>l \<in> set (ledgers w'). row_typed l) \<and>
    (\<forall>i row. wallets w' i = Some row \<longrightarrow> chained (op0 i) (statement_of i (ledgers w')) \<and>
       closing (op0 i) (statement_of i (ledgers w')) = w_ActualBalance row)"
proof -
  have inv: "wa_inv c op0 (a, w)" using assms by (simp add: wa_inv_def)
  have st: "statements op0 w'" using run_statements [OF inv _ assms(5)] assms(4,6) by simp
  have bk: "books c op0 w'" using wallet_service.run_inv [OF inv assms(5)] assms(6) by (simp add: wa_inv_def)
  have bal: "closing (op0 i) (statement_of i (ledgers w')) = w_ActualBalance row" if "wallets w' i = Some row" for i row
  proof -
    have "w_ActualBalance row = op0 i + net i (ledgers w')" using bk that unfolding books_def by blast
    with closing_balance [OF st, of i] that show ?thesis by simp
  qed
  show ?thesis using st bal by (simp add: statements_def list_all_iff)
qed

lemma demo_statements: "statements demo_opening demo_world"
  by (simp add: statements_def demo_world_def empty_world_def statement_of_def)

lemma demo_ledger: "ledgers (snd (run_all (wa_exec demo_ctx) [demo_debit, demo_debit] (NewWalletActor, demo_world))) \<noteq> []"
  by code_simp

theorem ledger_is_statement_witness:
  "row_typed (hd (ledgers (snd (run_all (wa_exec demo_ctx) [demo_debit, demo_debit] (NewWalletActor, demo_world)))))"
  using ledger_is_statement [OF demo_quiet demo_books demo_coherent demo_statements _ refl, of "[demo_debit, demo_debit]"] demo_debit_valid demo_ledger
  by simp

end
