(* ===== verification/Leg_Slots.thy ===== *)
theory Leg_Slots
  imports Transaction_Outcome Wallet_Actor
begin

text \<open>
  One idempotency key of a transaction between its TransactionActor and a WalletActor: the requests on their way to the wallet
  (\<open>outbox\<close>), the replies on their way back, and the ledger. \<open>slot_ok\<close> says what is true of a key in each state the actor can be in
  about it: nothing sent, waiting, to be sent again, confirmed, refused. The lemmas move a slot through those
  states: sending, the wallet handling the request, losing a message, receiving the reply.
\<close>

section \<open>States of a key\<close>

datatype slot_state = Unsent | Waiting | Retrying | Won | Lost

type_synonym request = "uuid \<times> wallet_msg"

definition req_key :: "request \<Rightarrow> string" where "req_key q = wo_IdempotencyKey (wallet_msg_op (snd q))"

definition in_flight :: "string \<Rightarrow> request list \<Rightarrow> WalletResultMsg list \<Rightarrow> nat" where
  "in_flight k Q P = length (filter (\<lambda>q. req_key q = k) Q) + length (filter (\<lambda>r. rm_IdempotencyKey r = k) P)"

text \<open>What a key stands for: the wallet, the key, the transaction, the action and the amount.\<close>

record slot =
  sl_wallet :: uuid
  sl_key :: uuid
  sl_txn :: uuid
  sl_action :: ledger_type
  sl_amount :: int64

definition slot_row :: "slot \<Rightarrow> ledger \<Rightarrow> bool" where
  "slot_row sl l \<longleftrightarrow> l_WalletID l = sl_wallet sl \<and> l_IdempotencyKey l = Some (sl_key sl)"

definition slot_request :: "ctx \<Rightarrow> slot \<Rightarrow> request \<Rightarrow> bool" where
  "slot_request c sl q \<longleftrightarrow> fst q = sl_wallet sl \<and> wallet_msg_action (snd q) = sl_action sl \<and>
     wo_WalletId (wallet_msg_op (snd q)) = str_uuid c (sl_wallet sl) \<and> wo_Amount (wallet_msg_op (snd q)) = sl_amount sl \<and>
     wo_TransactionId (wallet_msg_op (snd q)) = str_uuid c (sl_txn sl) \<and> wo_IdempotencyKey (wallet_msg_op (snd q)) = str_uuid c (sl_key sl)"

definition recorded :: "slot \<Rightarrow> ledger list \<Rightarrow> bool" where "recorded sl L \<longleftrightarrow> has_key (sl_wallet sl) (sl_key sl) L"

definition slot_ok :: "ctx \<Rightarrow> slot \<Rightarrow> slot_state \<Rightarrow> ledger list \<Rightarrow> request list \<Rightarrow> WalletResultMsg list \<Rightarrow> bool" where
  "slot_ok c sl st L Q P \<longleftrightarrow>
     (\<forall>l \<in> set L. slot_row sl l \<longrightarrow> l_Type l = sl_action sl \<and> l_Amount l = sl_amount sl \<and> l_TransactionID l = sl_txn sl) \<and>
     (\<forall>q \<in> set Q. req_key q = str_uuid c (sl_key sl) \<longrightarrow> slot_request c sl q) \<and>
     (\<forall>r \<in> set P. rm_IdempotencyKey r = str_uuid c (sl_key sl) \<longrightarrow>
        (rm_ErrorCode r = [] \<longrightarrow> recorded sl L) \<and> (Definitive (rm_ErrorCode r) \<longrightarrow> \<not> recorded sl L)) \<and>
     (case st of
        Unsent \<Rightarrow> in_flight (str_uuid c (sl_key sl)) Q P = 0 \<and> \<not> recorded sl L
      | Waiting \<Rightarrow> in_flight (str_uuid c (sl_key sl)) Q P \<le> 1
      | Retrying \<Rightarrow> in_flight (str_uuid c (sl_key sl)) Q P = 0
      | Won \<Rightarrow> in_flight (str_uuid c (sl_key sl)) Q P = 0 \<and> recorded sl L
      | Lost \<Rightarrow> in_flight (str_uuid c (sl_key sl)) Q P = 0 \<and> \<not> recorded sl L)"

section \<open>Moving a slot\<close>

lemma in_flight_snoc [simp]:
  "in_flight k (Q @ [q]) P = in_flight k Q P + (if req_key q = k then 1 else 0)"
  "in_flight k Q (P @ [r]) = in_flight k Q P + (if rm_IdempotencyKey r = k then 1 else 0)"
  "in_flight k (Q1 @ q # Q2) P = in_flight k (Q1 @ Q2) P + (if req_key q = k then 1 else 0)"
  "in_flight k Q (P1 @ r # P2) = in_flight k Q (P1 @ P2) + (if rm_IdempotencyKey r = k then 1 else 0)"
  by (simp_all add: in_flight_def)

lemma slot_send:
  assumes "slot_ok c sl st L Q P" "st = Unsent \<or> st = Retrying" "slot_request c sl q"
  shows "slot_ok c sl Waiting L (Q @ [q]) P"
  using assms by (auto simp: slot_ok_def slot_request_def req_key_def)

lemma slot_other_send: "slot_ok c sl st L Q P \<Longrightarrow> req_key q \<noteq> str_uuid c (sl_key sl) \<Longrightarrow> slot_ok c sl st L (Q @ [q]) P"
  by (auto simp: slot_ok_def split: slot_state.splits)

lemma slot_drop:
  "slot_ok c sl st L (Q1 @ q # Q2) P \<Longrightarrow> slot_ok c sl st L (Q1 @ Q2) P"
  "slot_ok c sl st L Q (P1 @ r # P2) \<Longrightarrow> slot_ok c sl st L Q (P1 @ P2)"
  by (auto simp: slot_ok_def split: slot_state.splits)

text \<open>A message in flight belongs to a slot its actor waits for.\<close>

lemma slot_waiting:
  "slot_ok c sl st L (Q1 @ q # Q2) P \<Longrightarrow> req_key q = str_uuid c (sl_key sl) \<Longrightarrow> st = Waiting \<and> slot_request c sl q"
  "slot_ok c sl st L Q (P1 @ r # P2) \<Longrightarrow> rm_IdempotencyKey r = str_uuid c (sl_key sl) \<Longrightarrow> st = Waiting"
  by (auto simp: slot_ok_def split: slot_state.splits)

lemma slot_reply:
  assumes "slot_ok c sl Waiting L Q (P1 @ r # P2)" "rm_IdempotencyKey r = str_uuid c (sl_key sl)"
  shows "rm_ErrorCode r = [] \<Longrightarrow> slot_ok c sl Won L Q (P1 @ P2)" "Definitive (rm_ErrorCode r) \<Longrightarrow> slot_ok c sl Lost L Q (P1 @ P2)"
    "slot_ok c sl Retrying L Q (P1 @ P2)"
  using assms by (auto simp: slot_ok_def)

text \<open>A reply that says nothing about the ledger: the dead-letter handler's.\<close>

lemma slot_undeliverable:
  assumes "slot_ok c sl st L (Q1 @ q # Q2) P" "rm_IdempotencyKey r = req_key q" "rm_ErrorCode r \<noteq> []" "\<not> Definitive (rm_ErrorCode r)"
  shows "slot_ok c sl st L (Q1 @ Q2) (P @ [r])"
  using assms by (auto simp: slot_ok_def split: slot_state.splits)

text \<open>The ledger grows by at most one row, of the key that was handled.\<close>

definition grows :: "slot \<Rightarrow> ledger list \<Rightarrow> ledger list \<Rightarrow> bool" where
  "grows sl L L' \<longleftrightarrow> L' = L \<or> (\<not> recorded sl L \<and> (\<exists>l. L' = L @ [l] \<and> slot_row sl l \<and> l_Type l = sl_action sl \<and> l_Amount l = sl_amount sl \<and>
     l_TransactionID l = sl_txn sl))"

lemma grows_recorded: "grows sl L L' \<Longrightarrow> recorded sl L \<Longrightarrow> recorded sl L'"
  by (auto simp: grows_def)

lemma grows_other: "grows sl L L' \<Longrightarrow> sl_key sl' \<noteq> sl_key sl \<Longrightarrow> recorded sl' L' = recorded sl' L"
  by (auto simp: grows_def recorded_def has_key_def slot_row_def)

lemma slot_handled:
  assumes "slot_ok c sl Waiting L (Q1 @ q # Q2) P" "req_key q = str_uuid c (sl_key sl)" "grows sl L L'" "rm_IdempotencyKey r = str_uuid c (sl_key sl)"
    and "rm_ErrorCode r = [] \<Longrightarrow> recorded sl L'" "Definitive (rm_ErrorCode r) \<Longrightarrow> \<not> recorded sl L'"
  shows "slot_ok c sl Waiting L' (Q1 @ Q2) (P @ [r])"
proof -
  have none: "\<forall>x \<in> set P. rm_IdempotencyKey x \<noteq> str_uuid c (sl_key sl)"
    using assms(1,2) by (auto simp: slot_ok_def in_flight_def filter_empty_conv)
  show ?thesis using assms none by (auto simp: slot_ok_def grows_def)
qed

lemma slot_other_handled:
  assumes "slot_ok c sl st L (Q1 @ q # Q2) P" "grows sl' L L'" "sl_key sl' \<noteq> sl_key sl" "rm_IdempotencyKey r \<noteq> str_uuid c (sl_key sl)"
  shows "slot_ok c sl st L' (Q1 @ Q2) (P @ [r])"
proof -
  have rec: "recorded sl L' = recorded sl L" using grows_other [OF assms(2)] assms(3) by auto
  have rows: "\<forall>l \<in> set L'. slot_row sl l \<longrightarrow> l \<in> set L" using assms(2,3) by (auto simp: grows_def slot_row_def)
  show ?thesis using assms(1,4) rows by (auto simp: slot_ok_def rec split: slot_state.splits)
qed

lemma slot_foreign:
  assumes "slot_ok c sl st L Q P" "L' = L \<or> (\<exists>l. L' = L @ [l] \<and> \<not> slot_row sl l)"
  shows "slot_ok c sl st L' Q P"
proof -
  have "recorded sl L' = recorded sl L" using assms(2) by (auto simp: recorded_def has_key_def slot_row_def)
  then show ?thesis using assms by (auto simp: slot_ok_def split: slot_state.splits)
qed

section \<open>The wallet's side\<close>

lemma wa_apply_frame:
  "wa_apply c action ws ts ks amount purpose a w = (r, a', w') \<Longrightarrow> outbox w' = outbox w \<and> txns w' = txns w \<and> n_uuid w' = n_uuid w \<and> selfbox w' = selfbox w \<and>
     wa_walletID a' = wa_walletID a"
proof -
  have att: "wa_attempts c n le action i t k amount purpose a w = (r, a', w') \<Longrightarrow> outbox w' = outbox w \<and> txns w' = txns w \<and> n_uuid w' = n_uuid w \<and>
      selfbox w' = selfbox w \<and> wa_walletID a' = wa_walletID a" for n le i t k a w
  proof (induction n arbitrary: le a w)
    case (Suc n)
    have cur: "current c i a w = (rc, a1, w1) \<Longrightarrow> outbox w1 = outbox w \<and> txns w1 = txns w \<and> n_uuid w1 = n_uuid w \<and> selfbox w1 = selfbox w \<and> wa_walletID a1 = wa_walletID a" for rc a1 w1
      by (auto simp: current_def load_def db_call_def Let_def split: option.splits if_splits sum.splits fault.splits)
    have per: "persist c wl action t k amount purpose a1 w1 = (rp, a2, w2) \<Longrightarrow> outbox w2 = outbox w1 \<and> txns w2 = txns w1 \<and> n_uuid w2 = n_uuid w1 \<and> selfbox w2 = selfbox w1 \<and>
        wa_walletID a2 = wa_walletID a1" for wl a1 w1 rp a2 w2
      by (auto simp: persist_def Let_def db_call_def cache_Delete_def split: if_splits fault.splits option.splits)
    obtain rc a1 w1 where c1: "current c i a w = (rc, a1, w1)" by (metis prod_cases3)
    show ?case
    proof (cases rc)
      case (Inl e)
      with Suc.prems c1 cur [OF c1] show ?thesis by simp
    next
      case (Inr wl)
      obtain rp a2 w2 where p: "persist c wl action t k amount purpose a1 w1 = (rp, a2, w2)" by (metis prod_cases3)
      show ?thesis using Suc.prems c1 cur [OF c1] Inr p per [OF p] Suc.IH
        by (auto simp: Let_def split: if_splits sum.splits)
    qed
  qed simp
  show "wa_apply c action ws ts ks amount purpose a w = (r, a', w') \<Longrightarrow> ?thesis"
    by (auto simp: wa_apply_def findLedger_def db_call_def Let_def split: option.splits if_splits sum.splits fault.splits dest!: att)
qed

lemma wa_apply_known:
  assumes "parse_uuid c ws = Some i" "parse_uuid c ts = Some t" "parse_uuid c ks = Some k" "0 < amount" "wa_walletID a = uuid_Nil \<or> wa_walletID a = i"
    and "has_key i k (ledgers w)" "wa_apply c action ws ts ks amount purpose a w = (r, a', w')"
  shows "\<not> Definitive (case r of Inl e \<Rightarrow> e_Code (wrapInternal e) | Inr res \<Rightarrow> [])"
proof -
  obtain l where l: "find (\<lambda>l. l_WalletID l = i \<and> l_IdempotencyKey l = Some k) (ledgers w) = Some l"
    using assms(6) find_key_None [of i k "ledgers w"] by auto
  have "wa_apply c action ws ts ks amount purpose a w = (case findLedger c i k w of
      (Inl e, w1) \<Rightarrow> (Inl (WalletErr (wrapInternal e)), a, w1)
    | (Inr (Some prior), w1) \<Rightarrow> (Inr \<lparr>ar_initial = l_InitialBalance prior, ar_updated = l_UpdatedBalance prior\<rparr>, a, w1)
    | (Inr None, w1) \<Rightarrow> wa_attempts c maxVersionRetries (OtherErr []) action i t k amount purpose a w1)"
    using assms(1-5) by (auto simp: wa_apply_def)
  moreover have "\<exists>w1. findLedger c i k w = (Inr (Some l), w1) \<or> (\<exists>m. findLedger c i k w = (Inl (OtherErr m), w1))"
    using l by (simp add: findLedger_def db_call_def Let_def split: fault.split)
  ultimately show ?thesis using assms(7) by auto
qed

definition ids_ok :: "uuid \<Rightarrow> world \<Rightarrow> bool" where "ids_ok i w \<longleftrightarrow> (\<forall>x. wallets w i = Some x \<longrightarrow> w_ID x = i)"

definition copy_ok :: "uuid \<Rightarrow> wallet_actor \<Rightarrow> bool" where "copy_ok i a \<longleftrightarrow> (\<forall>x. wa_wallet a = Some x \<longrightarrow> w_ID x = i)"

lemma current_copy:
  assumes "current c i a w = (rc, a1, w1)" "copy_ok i a" "ids_ok i w"
  shows "copy_ok i a1 \<and> ids_ok i w1 \<and> (\<forall>x. rc = Inr x \<longrightarrow> w_ID x = i)"
proof -
  have "load c i w = (rl, w2) \<Longrightarrow> ids_ok i w2 \<and> (\<forall>x. rl = Inr x \<longrightarrow> w_ID x = i)" for rl w2
    using assms(3) load_tables [of c i w rl w2] by (auto simp: ids_ok_def same_tables_def dest!: load_Inr)
  then show ?thesis using assms
    by (cases "load c i w"; cases "fst (load c i w)") (auto simp: current_def copy_ok_def split: option.splits if_splits)
qed

lemma persist_effects:
  assumes "quiet c"
  shows "wallets (snd (snd (persist c wl action t k amount purpose a w))) = wallets w \<or>
      (\<exists>row. wallets w (w_ID wl) = Some row \<and>
         wallets (snd (snd (persist c wl action t k amount purpose a w))) = (wallets w)(w_ID wl \<mapsto> write_wallet c (next_wallet c wl action amount) row))"
    "wa_wallet (fst (snd (persist c wl action t k amount purpose a w))) = wa_wallet a \<or>
     wa_wallet (fst (snd (persist c wl action t k amount purpose a w))) = Some ((next_wallet c wl action amount)\<lparr>w_UpdatedAt := now c\<rparr>)"
  using assms by (simp_all add: persist_def Let_def db_call_def quiet_def cache_Delete_def split: fault.split option.split)

lemma persist_copy:
  assumes "persist c wl action t k amount purpose a w = (rp, a1, w1)" "w_ID wl = i" "copy_ok i a" "ids_ok i w" "quiet c"
  shows "copy_ok i a1 \<and> ids_ok i w1"
proof
  note e = persist_effects [OF assms(5), of wl action t k amount purpose a w, unfolded assms(1) fst_conv snd_conv]
  show "copy_ok i a1" using e(2) assms(2,3) unfolding copy_ok_def by (elim disjE) simp_all
  show "ids_ok i w1" using e(1) assms(2,4) unfolding ids_ok_def by (elim disjE exE conjE) (simp_all add: write_wallet_def)
qed

lemma attempts_copy:
  assumes "wa_attempts c n le action i t k amount purpose a w = (r, a', w')" "copy_ok i a" "ids_ok i w" "quiet c"
  shows "copy_ok i a'"
  using assms(1-3)
proof (induction n arbitrary: le a w)
  case (Suc n)
  obtain rc a1 w1 where c1: "current c i a w = (rc, a1, w1)" by (metis prod_cases3)
  note cur = current_copy [OF c1 Suc.prems(2,3)]
  show ?case
  proof (cases rc)
    case (Inl e)
    with Suc.prems c1 cur show ?thesis by simp
  next
    case (Inr wl)
    obtain rp a2 w2 where p: "persist c wl action t k amount purpose a1 w1 = (rp, a2, w2)" by (metis prod_cases3)
    have per: "copy_ok i a2" "ids_ok i w2" using persist_copy [OF p _ _ _ assms(4)] cur Inr by auto
    have "copy_ok i (a2\<lparr>wa_wallet := None\<rparr>)" by (simp add: copy_ok_def)
    then show ?thesis using Suc.prems(1) c1 cur Inr p per Suc.IH [of _ "a2\<lparr>wa_wallet := None\<rparr>" w2]
      by (auto simp: Let_def split: if_splits sum.splits)
  qed
qed simp

lemma apply_copy:
  assumes "wa_apply c action ws ts ks amount purpose a w = (r, a', w')" "parse_uuid c ws = Some i" "copy_ok i a" "ids_ok i w" "quiet c"
  shows "copy_ok i a'"
proof -
  have "findLedger c i k w = (rf, w1) \<Longrightarrow> ids_ok i w1" for k rf w1
    using assms(4) findLedger_spec(1) [of c i k w rf w1] by (simp add: ids_ok_def same_tables_def)
  then show ?thesis using assms
    by (auto simp: wa_apply_def split: option.splits if_splits prod.splits sum.splits intro: attempts_copy)
qed

text \<open>The memory of a WalletActor is its own wallet's row.\<close>

definition own_copy :: "uuid \<Rightarrow> wallet_actor \<Rightarrow> world \<Rightarrow> bool" where
  "own_copy i a w \<longleftrightarrow> (wa_walletID a = uuid_Nil \<or> wa_walletID a = i) \<and> coherent a w \<and> copy_ok i a"

lemma own_copy_elsewhere:
  assumes "own_copy j a w" "wallets w' j = wallets w j"
  shows "own_copy j a w'"
  using assms by (auto simp: own_copy_def coherent_def copy_ok_def)

text \<open>An error result always carries a code.\<close>

abbreviation coded :: "go_error \<Rightarrow> bool" where "coded e \<equiv> e_Code (wrapInternal e) \<noteq> []"

lemma coded_basic [simp]: "coded (WalletErr (wrapInternal e)) = coded e" "coded (OtherErr m)" "code \<noteq> [] \<Longrightarrow> coded (newWalletError code m)"
  by (simp_all add: newWalletError_def)

lemma current_coded: "current c i a w = (Inl e, a1, w1) \<Longrightarrow> coded e"
  by (auto simp: current_def load_def db_call_def Let_def newWalletError_def error_code_defs split: option.splits if_splits fault.splits sum.splits)

lemma findLedger_coded: "findLedger c i k w = (Inl e, w1) \<Longrightarrow> coded e"
  by (auto simp: findLedger_def db_call_def Let_def split: option.splits if_splits fault.splits)

lemma persist_coded: "persist c wl action t k amount purpose a w = (Inl e, a1, w1) \<Longrightarrow> coded e"
  by (auto simp: persist_def db_call_def Let_def newWalletError_def error_code_defs split: option.splits if_splits fault.splits)

lemma attempts_coded: "wa_attempts c n le action i t k amount purpose a w = (Inl e, a', w') \<Longrightarrow> coded le \<Longrightarrow> coded e"
proof (induction n arbitrary: le a w)
  case (Suc n)
  obtain rc a1 w1 where c1: "current c i a w = (rc, a1, w1)" by (metis prod_cases3)
  show ?case
  proof (cases rc)
    case (Inl x)
    with Suc.prems c1 current_coded [of c i a w x a1 w1] show ?thesis by auto
  next
    case (Inr wl)
    obtain rp a2 w2 where p: "persist c wl action t k amount purpose a1 w1 = (rp, a2, w2)" by (metis prod_cases3)
    show ?thesis
    proof (cases rp)
      case (Inl x)
      have "coded x" using persist_coded p Inl by blast
      then show ?thesis using Suc.prems c1 Inr p Inl Suc.IH
        by (auto simp: Let_def newWalletError_def error_code_defs split: if_splits)
    next
      case (Inr y)
      with Suc.prems c1 \<open>rc = Inr wl\<close> p show ?thesis by (auto simp: newWalletError_def error_code_defs split: if_splits)
    qed
  qed
qed auto

lemma apply_coded:
  assumes "wa_apply c action ws ts ks amount purpose a w = (Inl e, a', w')"
  shows "coded e"
  using assms attempts_coded [where le = "OtherErr []"] findLedger_coded
  by (auto simp: wa_apply_def newWalletError_def error_code_defs split: option.splits if_splits prod.splits sum.splits)

text \<open>Any operation on wallet \<open>i\<close>: the books stay right, no other wallet moves, and the ledger grows by at most the row of its key.\<close>

definition handled :: "ctx \<Rightarrow> ledger_type \<Rightarrow> wallet_op \<Rightarrow> uuid \<Rightarrow> ledger list \<Rightarrow> WalletResultMsg \<Rightarrow> ledger list \<Rightarrow> bool" where
  "handled c action m i L reply L' \<longleftrightarrow> rm_IdempotencyKey reply = wo_IdempotencyKey m \<and>
    (L' = L \<and> (rm_ErrorCode reply = [] \<longrightarrow> (\<exists>k. parse_uuid c (wo_IdempotencyKey m) = Some k \<and> has_key i k L)) \<or>
     (\<exists>l k t. L' = L @ [l] \<and> parse_uuid c (wo_IdempotencyKey m) = Some k \<and> parse_uuid c (wo_TransactionId m) = Some t \<and>
        \<not> has_key i k L \<and> l_WalletID l = i \<and> l_IdempotencyKey l = Some k \<and> l_TransactionID l = t \<and> l_Type l = action \<and>
        l_Amount l = wo_Amount m \<and> l_CreatedAt l = now c \<and> \<not> Definitive (rm_ErrorCode reply)))"

lemma wallet_handles:
  assumes "quiet c" "books c op w" "own_copy i a w" "parse_uuid c (wo_WalletId m) = Some i" "is_int64 (wo_Amount m)"
    and "wa_handle c action m a w = (reply, a', w')"
  shows "books c op w' \<and> own_copy i a' w' \<and> (\<forall>j. j \<noteq> i \<longrightarrow> wallets w' j = wallets w j) \<and> outbox w' = outbox w \<and> n_uuid w' = n_uuid w \<and> txns w' = txns w \<and>
    handled c action m i (ledgers w) reply (ledgers w')"
proof -
  obtain r where ap: "wa_apply c action (wo_WalletId m) (wo_TransactionId m) (wo_IdempotencyKey m) (wo_Amount m) (wo_Purpose m) a w = (r, a', w')"
    and code: "rm_ErrorCode reply = (case r of Inl e \<Rightarrow> e_Code (wrapInternal e) | Inr res \<Rightarrow> [])" and key: "rm_IdempotencyKey reply = wo_IdempotencyKey m"
    using assms(6) by (auto simp: wa_handle_def Let_def split: prod.splits sum.splits)
  have nonempty: "coded e" if "r = Inl e" for e using apply_coded ap that by blast
  have own: "coherent a w" "copy_ok i a" "wa_walletID a = uuid_Nil \<or> wa_walletID a = i" using assms(3) by (simp_all add: own_copy_def)
  have ids: "ids_ok i w" using assms(2) by (simp add: books_def ids_ok_def)
  note fr = wa_apply_frame [OF ap] and cp = apply_copy [OF ap assms(4) own(2) ids assms(1)]
  have own': "own_copy i a' w'" if "coherent a' w'" using that cp fr own(3) by (simp add: own_copy_def)
  from assms(1,2) own(1) ap show ?thesis
  proof (cases rule: wa_apply_outcome)
    case (rejected e)
    then show ?thesis using fr own' nonempty [of e] assms(2) code key
      by (simp add: handled_def same_tables_books) (simp add: same_tables_def)
  next
    case (duplicate j k l)
    have "has_key i k (ledgers w)" using duplicate(1,3) assms(4) find_key_None [of i k "ledgers w"] by auto
    then show ?thesis using fr own' duplicate assms(2) code key
      by (simp add: handled_def same_tables_books) (simp add: same_tables_def)
  next
    case (fresh j t k)
    have j: "j = i" using fresh(1) assms(4) by simp
    have bk: "books c op w'" using op_outcome_books [OF assms(2) fresh(6,4,5)] assms(5) by (simp add: is_int64_def)
    from fresh(6) consider e where "r = Inl e" "same_tables w w'"
      | wl where "w_ID wl = i" "applied_to c wl action t k (wo_Amount m) (wo_Purpose m) w w'" "(\<exists>x. r = Inr x) \<or> (\<exists>x. r = Inl (WalletErr (wrapInternal (OtherErr x))))"
      unfolding op_outcome_def j by blast
    then show ?thesis
    proof cases
      case 1
      then show ?thesis using fr own' [OF fresh(7)] nonempty [of e] bk code key
        by (simp add: handled_def) (simp add: same_tables_def)
    next
      case 2
      have "\<not> Definitive (rm_ErrorCode reply)" using 2(3) code by auto
      moreover have "l_CreatedAt (ledger_row c w wl nx action t k x y) = now c" for nx x y by (simp add: ledger_row_def)
      ultimately show ?thesis using 2 fr own' [OF fresh(7)] bk key fresh(2-4) j
        by (simp add: handled_def applied_to_def Let_def)
    qed
  qed
qed

lemma handle_known:
  assumes "parse_uuid c (wo_WalletId m) = Some i" "parse_uuid c (wo_TransactionId m) = Some t" "parse_uuid c (wo_IdempotencyKey m) = Some k"
    and "0 < wo_Amount m" "own_copy i a w" "has_key i k (ledgers w)" "wa_handle c action m a w = (reply, a', w')"
  shows "\<not> Definitive (rm_ErrorCode reply)"
proof -
  obtain r where ap: "wa_apply c action (wo_WalletId m) (wo_TransactionId m) (wo_IdempotencyKey m) (wo_Amount m) (wo_Purpose m) a w = (r, a', w')"
    and code: "rm_ErrorCode reply = (case r of Inl e \<Rightarrow> e_Code (wrapInternal e) | Inr res \<Rightarrow> [])"
    using assms(7) by (auto simp: wa_handle_def Let_def split: prod.splits sum.splits)
  have "wa_walletID a = uuid_Nil \<or> wa_walletID a = i" using assms(5) by (simp add: own_copy_def)
  from wa_apply_known [OF assms(1-4) this assms(6) ap] code show ?thesis by simp
qed

end
