(* ===== verification/Leg_Flows.thy ===== *)
theory Leg_Flows
  imports Leg_Slots Reversal Dead_Letter
begin

text \<open>
  All idempotency keys of one transaction together. \<open>flows\<close> says of a list of slots, each with the state its actor is in
  about it, that they are right about the ledger and the messages on their way, and that nothing else of the ledger or of the messages
  belongs to the transaction. It is kept by everything that can happen outside the TransactionActor: a wallet handling a
  request, the dead-letter handler answering one, a message getting lost, a wallet handling a request of another transaction.
  \<open>flows_net\<close> reads the net effect of the transaction on a wallet off the slots.
\<close>

section \<open>The flows of a transaction\<close>

definition amount_ok :: "int64 \<Rightarrow> bool" where "amount_ok x \<longleftrightarrow> 0 < x \<and> is_int64 x"

definition owner :: "(slot \<times> slot_state) list \<Rightarrow> ledger \<Rightarrow> bool" where
  "owner A l \<longleftrightarrow> (\<exists>p \<in> set A. slot_row (fst p) l)"

definition flows :: "ctx \<Rightarrow> uuid set \<Rightarrow> uuid \<Rightarrow> (slot \<times> slot_state) list \<Rightarrow> ledger list \<Rightarrow> request list \<Rightarrow> WalletResultMsg list \<Rightarrow> bool" where
  "flows c R tid A L Q P \<longleftrightarrow>
     distinct (map (\<lambda>p. sl_key (fst p)) A) \<and> (\<forall>p \<in> set A. sl_key (fst p) \<in> R \<and> sl_txn (fst p) = tid \<and> amount_ok (sl_amount (fst p)) \<and> slot_ok c (fst p) (snd p) L Q P) \<and>
     (\<forall>l \<in> set L. l_TransactionID l = tid \<or> l_IdempotencyKey l \<in> Some ` R \<longrightarrow> owner A l) \<and>
     (\<forall>q \<in> set Q. \<exists>p \<in> set A. req_key q = str_uuid c (sl_key (fst p))) \<and>
     (\<forall>r \<in> set P. \<exists>p \<in> set A. rm_IdempotencyKey r = str_uuid c (sl_key (fst p)))"

lemma flows_slot: "flows c R tid A L Q P \<Longrightarrow> p \<in> set A \<Longrightarrow> slot_ok c (fst p) (snd p) L Q P"
  by (simp add: flows_def)

lemma flows_distinct:
  assumes "flows c R tid A L Q P" "p \<in> set A" "p' \<in> set A" "sl_key (fst p) = sl_key (fst p')"
  shows "p = p'"
  using assms by (auto simp: flows_def distinct_map inj_on_def)

lemma flows_lose:
  "flows c R tid A L (Q1 @ q # Q2) P \<Longrightarrow> flows c R tid A L (Q1 @ Q2) P"
  "flows c R tid A L Q (P1 @ r # P2) \<Longrightarrow> flows c R tid A L Q (P1 @ P2)"
  by (auto simp: flows_def intro: slot_drop)

lemma flows_undeliverable:
  assumes "flows c R tid A L (Q1 @ q # Q2) P" "rm_IdempotencyKey r = req_key q" "rm_ErrorCode r = CodeUndeliverable"
  shows "flows c R tid A L (Q1 @ Q2) (P @ [r])"
  using assms slot_undeliverable [where r = r and q = q and P = P] by (auto simp: flows_def)

text \<open>A request of another transaction.\<close>

lemma flows_foreign:
  assumes "flows c R tid A L Q P"
    and "L' = L \<or> (\<exists>l k. L' = L @ [l] \<and> l_IdempotencyKey l = Some k \<and> k \<notin> R \<and> l_TransactionID l \<noteq> tid)"
  shows "flows c R tid A L' Q P"
proof -
  have row: "L' = L \<or> (\<exists>l. L' = L @ [l] \<and> \<not> slot_row (fst p) l)" if "p \<in> set A" for p
    using assms that by (auto simp: flows_def slot_row_def)
  show ?thesis using assms slot_foreign [OF _ row] by (auto simp: flows_def)
qed

text \<open>The wallet handles a request of the transaction.\<close>

lemma handled_grows:
  assumes "uuid_codec c" "slot_request c sl q" "handled c (wallet_msg_action (snd q)) (wallet_msg_op (snd q)) (sl_wallet sl) L r L'"
  shows "grows sl L L'" "rm_IdempotencyKey r = str_uuid c (sl_key sl)" "rm_ErrorCode r = [] \<Longrightarrow> recorded sl L'"
    "L' = L \<or> recorded sl L' \<and> \<not> Definitive (rm_ErrorCode r)"
  using assms by (auto simp: handled_def slot_request_def grows_def recorded_def slot_row_def uuid_codecD has_key_def)

lemma flows_handled:
  assumes "uuid_codec c" "flows c R tid A L (Q1 @ q # Q2) P" "p \<in> set A" "req_key q = str_uuid c (sl_key (fst p))"
    and h: "handled c (wallet_msg_action (snd q)) (wallet_msg_op (snd q)) (fst q) L r L'"
    and known: "recorded (fst p) L \<Longrightarrow> \<not> Definitive (rm_ErrorCode r)"
  shows "flows c R tid A L' (Q1 @ Q2) (P @ [r])"
proof -
  note ok = flows_slot [OF assms(2,3)]
  note w = slot_waiting(1) [OF ok assms(4)]
  have wal: "fst q = sl_wallet (fst p)" using w by (simp add: slot_request_def)
  note g = handled_grows [OF assms(1) conjunct2 [OF w] h [unfolded wal]]
  have def: "\<not> recorded (fst p) L'" if "Definitive (rm_ErrorCode r)" using g(4) known that by auto
  have slot: "slot_ok c (fst p') (snd p') L' (Q1 @ Q2) (P @ [r])" if "p' \<in> set A" for p'
  proof (cases "p' = p")
    case True
    then show ?thesis using slot_handled [OF _ assms(4) g(1,2)] ok w g(3) def by simp
  next
    case False
    then have ne: "sl_key (fst p) \<noteq> sl_key (fst p')" using flows_distinct [OF assms(2,3) that] by auto
    then have "rm_IdempotencyKey r \<noteq> str_uuid c (sl_key (fst p'))" using g(2) str_uuid_inject [OF assms(1)] by auto
    from slot_other_handled [OF flows_slot [OF assms(2) that] g(1) ne this] show ?thesis .
  qed
  have rows: "owner A l" if "l \<in> set L'" "l_TransactionID l = tid \<or> l_IdempotencyKey l \<in> Some ` R" for l
    using that g(1) assms(2,3) by (auto simp: flows_def grows_def owner_def)
  show ?thesis using assms(2,3) slot rows g(2) by (auto simp: flows_def)
qed

section \<open>The net effect of a transaction\<close>

definition slot_net :: "uuid \<Rightarrow> ledger list \<Rightarrow> slot \<Rightarrow> int" where
  "slot_net i L sl = (if recorded sl L \<and> sl_wallet sl = i then signed_amount (sl_action sl) (sl_amount sl) else 0)"

lemma net_split:
  assumes "\<And>l. l \<in> set L \<Longrightarrow> \<not> (P l \<and> Q l)"
  shows "net i (filter (\<lambda>l. P l \<or> Q l) L) = net i (filter P L) + net i (filter Q L)"
  using assms by (induction L) (auto simp: net_def)

lemma net_slot:
  assumes "slot_ok c sl st L Q P" "unique_keys L"
  shows "net i (filter (slot_row sl) L) = slot_net i L sl"
proof -
  have eq: "l = l'" if "l \<in> set L" "slot_row sl l" "l' \<in> set L" "slot_row sl l'" for l l'
    using assms(2) that by (auto simp: unique_keys_def slot_row_def distinct_map inj_on_def)
  have "distinct (filter (slot_row sl) L)"
  proof -
    have e: "filter (slot_row sl) L = filter (slot_row sl) (filter (\<lambda>l. l_IdempotencyKey l \<noteq> None) L)"
      by (auto simp: slot_row_def intro!: filter_cong)
    have "distinct (filter (\<lambda>l. l_IdempotencyKey l \<noteq> None) L)" using assms(2) unfolding unique_keys_def distinct_map by blast
    then show ?thesis by (subst e) (rule distinct_filter)
  qed
  then consider "filter (slot_row sl) L = []" | l where "filter (slot_row sl) L = [l]" "l \<in> set L" "slot_row sl l"
  proof (cases "filter (slot_row sl) L")
    case (Cons a xs)
    then have "set (a # xs) \<subseteq> {l \<in> set L. slot_row sl l}" by (metis filter_set set_filter subset_refl)
    moreover have "xs = []"
    proof (rule ccontr)
      assume "xs \<noteq> []"
      then obtain b where "b \<in> set xs" by (meson list.set_sel(1))
      with calculation eq [of a b] \<open>distinct (filter (slot_row sl) L)\<close> Cons show False by auto
    qed
    ultimately show ?thesis using that(2) [of a] Cons by auto
  qed
  then show ?thesis
  proof cases
    case 1
    then have "\<not> recorded sl L" by (auto simp: recorded_def has_key_def slot_row_def filter_empty_conv)
    with 1 show ?thesis by (simp add: slot_net_def net_def)
  next
    case 2
    have "recorded sl L" using 2 by (auto simp: recorded_def has_key_def slot_row_def)
    moreover have "l_Type l = sl_action sl" "l_Amount l = sl_amount sl" "l_WalletID l = sl_wallet sl"
      using assms(1) 2 by (auto simp: slot_ok_def slot_row_def)
    ultimately show ?thesis using 2(1) by (simp add: slot_net_def net_def)
  qed
qed

lemma flows_net:
  assumes "flows c R tid A L Q P" "unique_keys L"
  shows "net i (filter (\<lambda>l. l_TransactionID l = tid) L) = sum_list (map (\<lambda>p. slot_net i L (fst p)) A)"
proof -
  have own: "net i (filter (owner B) L) = sum_list (map (\<lambda>p. slot_net i L (fst p)) B)" if "set B \<subseteq> set A" "distinct (map (\<lambda>p. sl_key (fst p)) B)" for B
    using that
  proof (induction B)
    case Nil
    then show ?case by (simp add: owner_def net_def)
  next
    case (Cons p B)
    have dis: "\<not> (slot_row (fst p) l \<and> owner B l)" for l using Cons.prems(2) by (auto simp: slot_row_def owner_def)
    have "filter (owner (p # B)) L = filter (\<lambda>l. slot_row (fst p) l \<or> owner B l) L"
      by (rule filter_cong [OF refl]) (simp add: owner_def)
    then have "net i (filter (owner (p # B)) L) = net i (filter (slot_row (fst p)) L) + net i (filter (owner B) L)"
      using net_split dis by metis
    moreover have "net i (filter (slot_row (fst p)) L) = slot_net i L (fst p)"
      using net_slot [OF _ assms(2)] flows_slot [OF assms(1), of p] Cons.prems(1) by auto
    ultimately show ?case using Cons.IH Cons.prems by simp
  qed
  have "l_TransactionID l = tid \<longleftrightarrow> owner A l" if "l \<in> set L" for l
    using assms(1) that by (fastforce simp: flows_def slot_ok_def owner_def)
  then have "filter (\<lambda>l. l_TransactionID l = tid) L = filter (owner A) L" by (rule filter_cong [OF refl])
  then show ?thesis using own [of A] assms(1) by (simp add: flows_def)
qed

section \<open>Changing the slots\<close>

text \<open>The TransactionActor changes its mind about a key; what it knew before covers what it knows now.\<close>

definition eases :: "slot \<times> slot_state \<Rightarrow> slot \<times> slot_state \<Rightarrow> bool" where
  "eases p p' \<longleftrightarrow> fst p' = fst p \<and> (snd p' = snd p \<or> snd p = Unsent \<and> (snd p' = Retrying \<or> snd p' = Waiting))"

lemma eases_refl [simp]: "eases p p"
  by (simp add: eases_def)

lemma eases_slot: "eases p p' \<Longrightarrow> slot_ok c (fst p) (snd p) L Q P \<Longrightarrow> slot_ok c (fst p') (snd p') L Q P"
  by (auto simp: eases_def slot_ok_def)

lemma eases_fst: "list_all2 eases B B' \<Longrightarrow> map fst B' = map fst B"
  by (induction rule: list_all2_induct) (simp_all add: eases_def)

text \<open>Everything but the states depends on the slots only.\<close>

lemma flows_states:
  assumes "flows c R tid A L Q P" "map fst A' = map fst A" "\<And>p. p \<in> set A' \<Longrightarrow> slot_ok c (fst p) (snd p) L' Q' P'"
    and "\<And>l. l \<in> set L' \<Longrightarrow> l \<in> set L" "\<And>q. q \<in> set Q' \<Longrightarrow> q \<in> set Q \<or> (\<exists>p \<in> set A. req_key q = str_uuid c (sl_key (fst p)))"
    and "set P' \<subseteq> set P"
  shows "flows c R tid A' L' Q' P'"
proof -
  have sets: "fst ` set A' = fst ` set A" using arg_cong [OF assms(2), of set] by simp
  have onto: "\<exists>p' \<in> set A'. fst p' = fst p" if "p \<in> set A" for p using sets that by (metis imageE imageI)
  have fore: "\<exists>p \<in> set A. fst p = fst p'" if "p' \<in> set A'" for p' using sets that by (metis imageE imageI)
  have keys: "map (\<lambda>p. sl_key (fst p)) A' = map (\<lambda>p. sl_key (fst p)) A"
    using arg_cong [OF assms(2), of "map sl_key"] by (simp add: comp_def)
  have static: "sl_key (fst p) \<in> R \<and> sl_txn (fst p) = tid \<and> amount_ok (sl_amount (fst p))" if "p \<in> set A'" for p
    using assms(1) fore [OF that] by (metis flows_def)
  have own: "owner A' l" if "owner A l" for l using that onto unfolding owner_def by metis
  have msg: "\<exists>p \<in> set A'. k = str_uuid c (sl_key (fst p))" if "\<exists>p \<in> set A. k = str_uuid c (sl_key (fst p))" for k
    using that onto by metis
  have f: "distinct (map (\<lambda>p. sl_key (fst p)) A)" "\<And>l. l \<in> set L \<Longrightarrow> l_TransactionID l = tid \<or> l_IdempotencyKey l \<in> Some ` R \<Longrightarrow> owner A l"
    "\<And>q. q \<in> set Q \<Longrightarrow> \<exists>p \<in> set A. req_key q = str_uuid c (sl_key (fst p))"
    "\<And>r. r \<in> set P \<Longrightarrow> \<exists>p \<in> set A. rm_IdempotencyKey r = str_uuid c (sl_key (fst p))"
    using assms(1) unfolding flows_def by blast+
  show ?thesis unfolding flows_def keys
  proof (intro conjI ballI impI)
    show "\<exists>p \<in> set A'. req_key q = str_uuid c (sl_key (fst p))" if "q \<in> set Q'" for q using assms(5) [OF that] f(3) msg by blast
    show "\<exists>p \<in> set A'. rm_IdempotencyKey r = str_uuid c (sl_key (fst p))" if "r \<in> set P'" for r using that assms(6) f(4) msg by blast
    show "owner A' l" if "l \<in> set L'" "l_TransactionID l = tid \<or> l_IdempotencyKey l \<in> Some ` R" for l
      using own [OF f(2) [OF assms(4) [OF that(1)] that(2)]] .
  qed (simp_all add: f(1) static assms(3))
qed

lemma flows_ease:
  assumes "flows c R tid (A @ B @ C) L Q P" "list_all2 eases B B'"
  shows "flows c R tid (A @ B' @ C) L Q P"
proof (rule flows_states [OF assms(1)])
  show "map fst (A @ B' @ C) = map fst (A @ B @ C)" using eases_fst [OF assms(2)] by simp
  have eased: "\<exists>p \<in> set B. eases p p'" if "p' \<in> set B'" for p' using assms(2) that by (metis list_all2_conv_all_nth in_set_conv_nth)
  show "slot_ok c (fst p) (snd p) L Q P" if "p \<in> set (A @ B' @ C)" for p
  proof (cases "p \<in> set B'")
    case True
    then obtain p0 where "p0 \<in> set B" "eases p0 p" using eased by blast
    then show ?thesis using eases_slot flows_slot [OF assms(1), of p0] by simp
  next
    case False
    with that flows_slot [OF assms(1), of p] show ?thesis by auto
  qed
qed auto

lemma flows_send:
  assumes "uuid_codec c" "flows c R tid (A @ (sl, st) # C) L Q P" "st = Unsent \<or> st = Retrying" "slot_request c sl q"
  shows "flows c R tid (A @ (sl, Waiting) # C) L (Q @ [q]) P"
proof (rule flows_states [OF assms(2)])
  have k: "req_key q = str_uuid c (sl_key sl)" using assms(4) by (simp add: slot_request_def req_key_def)
  show "\<And>x. x \<in> set (Q @ [q]) \<Longrightarrow> x \<in> set Q \<or> (\<exists>p \<in> set (A @ (sl, st) # C). req_key x = str_uuid c (sl_key (fst p)))"
    using k by auto
  show "slot_ok c (fst p) (snd p) L (Q @ [q]) P" if p: "p \<in> set (A @ (sl, Waiting) # C)" for p
  proof (cases "p \<in> set A \<union> set C")
    case True
    then have "sl_key (fst p) \<noteq> sl_key sl" using assms(2) by (auto simp: flows_def image_iff)
    then have "req_key q \<noteq> str_uuid c (sl_key (fst p))" using k str_uuid_inject [OF assms(1)] by auto
    then show ?thesis using slot_other_send flows_slot [OF assms(2)] True by auto
  next
    case False
    with p slot_send [OF _ assms(3,4)] flows_slot [OF assms(2)] show ?thesis by fastforce
  qed
qed simp_all

lemma flows_reply:
  assumes "flows c R tid (A @ (sl, Waiting) # C) L Q (P1 @ r # P2)" "rm_IdempotencyKey r = str_uuid c (sl_key sl)"
    and "st = Retrying \<or> st = Won \<and> rm_ErrorCode r = [] \<or> st = Lost \<and> Definitive (rm_ErrorCode r)"
  shows "flows c R tid (A @ (sl, st) # C) L Q (P1 @ P2)"
proof (rule flows_states [OF assms(1)])
  have "slot_ok c sl Waiting L Q (P1 @ r # P2)" using flows_slot [OF assms(1)] by fastforce
  from slot_reply [OF this assms(2)] have own: "slot_ok c sl st L Q (P1 @ P2)" using assms(3) by auto
  show "slot_ok c (fst p) (snd p) L Q (P1 @ P2)" if "p \<in> set (A @ (sl, st) # C)" for p
  proof (cases "p \<in> set A \<union> set C")
    case True
    then have "slot_ok c (fst p) (snd p) L Q (P1 @ r # P2)" using flows_slot [OF assms(1)] by auto
    then show ?thesis by (rule slot_drop(2))
  next
    case False
    with that own show ?thesis by auto
  qed
qed auto

text \<open>A key that no one has used becomes a slot of the transaction.\<close>

lemma flows_add:
  assumes "uuid_codec c" "flows c R tid (A @ C) L Q P" "sl_key sl \<in> R" "sl_txn sl = tid" "amount_ok (sl_amount sl)"
    and "sl_key sl \<notin> (\<lambda>p. sl_key (fst p)) ` set (A @ C)"
  shows "flows c R tid (A @ (sl, Unsent) # C) L Q P"
proof -
  have k: "sl_key (fst p) \<noteq> sl_key sl" if "p \<in> set (A @ C)" for p using assms(6) that by (metis image_eqI)
  have f: "\<And>l. l \<in> set L \<Longrightarrow> l_IdempotencyKey l \<in> Some ` R \<Longrightarrow> owner (A @ C) l"
    "\<And>q. q \<in> set Q \<Longrightarrow> \<exists>p \<in> set (A @ C). req_key q = str_uuid c (sl_key (fst p))"
    "\<And>r. r \<in> set P \<Longrightarrow> \<exists>p \<in> set (A @ C). rm_IdempotencyKey r = str_uuid c (sl_key (fst p))"
    using assms(2) unfolding flows_def by blast+
  have rows: "l_IdempotencyKey l \<noteq> Some (sl_key sl)" if "l \<in> set L" for l
  proof
    assume "l_IdempotencyKey l = Some (sl_key sl)"
    with f(1) [OF that] assms(3) obtain p where "p \<in> set (A @ C)" "slot_row (fst p) l" by (auto simp: owner_def)
    with k [of p] \<open>l_IdempotencyKey l = Some (sl_key sl)\<close> show False by (simp add: slot_row_def)
  qed
  have msgs: "req_key q \<noteq> str_uuid c (sl_key sl)" if "q \<in> set Q" for q
    using f(2) [OF that] k str_uuid_inject [OF assms(1)] by metis
  have reps: "rm_IdempotencyKey r \<noteq> str_uuid c (sl_key sl)" if "r \<in> set P" for r
    using f(3) [OF that] k str_uuid_inject [OF assms(1)] by metis
  have "slot_ok c sl Unsent L Q P"
    using rows msgs reps by (auto simp: slot_ok_def in_flight_def recorded_def has_key_def slot_row_def filter_empty_conv)
  then show ?thesis using assms(2-6) by (auto simp: flows_def owner_def)
qed

end
