(* ===== verification/Actor_Flows.thy ===== *)
theory Actor_Flows
  imports Leg_Flows
begin

text \<open>
  The TransactionActor's bookkeeping as slots: every leg is a slot for its forward operation and, once it has a reversal key, one for
  its reversal, in the state the flags of the leg say. The lemmas show that every loop and handler of the actor keeps
  \<open>flows\<close>: what the actor believes about a key stays true of the ledger and of the messages on their way.
\<close>

section \<open>Legs as slots\<close>

definition fwd_slot :: "uuid \<Rightarrow> transfer \<Rightarrow> slot" where
  "fwd_slot tid tr = \<lparr>sl_wallet = tr_walletID tr, sl_key = tr_key tr, sl_txn = tid, sl_action = tr_action tr, sl_amount = tr_amount tr\<rparr>"

definition rev_slot :: "uuid \<Rightarrow> transfer \<Rightarrow> uuid \<Rightarrow> slot" where
  "rev_slot tid tr k = \<lparr>sl_wallet = tr_walletID tr, sl_key = k, sl_txn = tid, sl_action = Opposite (tr_action tr), sl_amount = tr_amount tr\<rparr>"

definition fwd_state :: "stage \<Rightarrow> transfer \<Rightarrow> slot_state" where
  "fwd_state s tr = (if tr_applied tr then Won else if tr_failCode tr \<noteq> [] then Lost
     else if s = stageProcessing \<and> tr_action tr \<noteq> LedgerTypeDebit \<or> s = stageReversing \<or> s = stageFinalized then Unsent
     else if tr_retry tr then Retrying else Waiting)"

definition rev_state :: "transfer \<Rightarrow> slot_state" where
  "rev_state tr = (if \<not> tr_done tr then (if tr_retry tr then Retrying else Waiting) else if tr_reversed tr then Won else Lost)"

definition rev_part :: "uuid \<Rightarrow> slot_state \<Rightarrow> transfer \<Rightarrow> (slot \<times> slot_state) list" where
  "rev_part tid st tr = (case tr_reversalKey tr of None \<Rightarrow> [] | Some k \<Rightarrow> [(rev_slot tid tr k, st)])"

definition leg_slots :: "uuid \<Rightarrow> stage \<Rightarrow> transfer \<Rightarrow> (slot \<times> slot_state) list" where
  "leg_slots tid s tr = (fwd_slot tid tr, fwd_state s tr) # rev_part tid (rev_state tr) tr"

definition all_slots :: "uuid \<Rightarrow> stage \<Rightarrow> transfer list \<Rightarrow> (slot \<times> slot_state) list" where
  "all_slots tid s trs = concat (map (leg_slots tid s) trs)"

lemma fwd_request:
  assumes "leg_static tr"
  shows "slot_request c (fwd_slot tid tr) (tr_walletID tr, op_message c tid tr (tr_action tr) (tr_key tr))"
    "slot_request c (rev_slot tid tr k) (tr_walletID tr, op_message c tid tr (Opposite (tr_action tr)) k)"
  using assms by (auto simp: slot_request_def fwd_slot_def rev_slot_def op_message_def Opposite_def leg_static_def Let_def)

lemma slot_frame [simp]:
  "fwd_slot tid (tr\<lparr>tr_retry := b\<rparr>) = fwd_slot tid tr" "fwd_slot tid (tr\<lparr>tr_done := d\<rparr>) = fwd_slot tid tr"
  "fwd_slot tid (tr\<lparr>tr_reversalKey := x\<rparr>) = fwd_slot tid tr"
  "rev_slot tid (tr\<lparr>tr_retry := b\<rparr>) k = rev_slot tid tr k" "rev_slot tid (tr\<lparr>tr_done := d\<rparr>) k = rev_slot tid tr k"
  "rev_slot tid (tr\<lparr>tr_reversalKey := x\<rparr>) k = rev_slot tid tr k"
  by (simp_all add: fwd_slot_def rev_slot_def)

section \<open>Sending in a loop\<close>

lemma flows_try_send:
  assumes "uuid_codec c" "flows c R tid (A @ (sl, st) # C) (ledgers w) (outbox w) P" "st = Unsent \<or> st = Retrying"
    and "slot_request c sl (tr_walletID tr, op_message c (ta_transactionID t) tr a k)"
  shows "flows c R tid (A @ (sl, if tr_retry (fst (try_send c t a k tr w)) then Retrying else Waiting) # C)
    (ledgers (snd (try_send c t a k tr w))) (outbox (snd (try_send c t a k tr w))) P"
proof (cases "tr_retry (fst (try_send c t a k tr w))")
  case True
  have "flows c R tid (A @ [(sl, Retrying)] @ C) (ledgers w) (outbox w) P"
    by (rule flows_ease [where B = "[(sl, st)]"]) (use assms(2,3) in \<open>auto simp: eases_def\<close>)
  with True show ?thesis by (simp add: try_send_def ta_send_def split_beta Let_def split: if_splits)
next
  case False
  with flows_send [OF assms] show ?thesis by (simp add: try_send_def ta_send_def split_beta Let_def split: if_splits)
qed

lemma each_leg_flows:
  assumes "\<And>tr w A C. tr \<in> set trs \<Longrightarrow> flows c R tid (A @ pre tr @ C) (ledgers w) (outbox w) P \<Longrightarrow>
      flows c R tid (A @ post (fst (f tr w)) @ C) (ledgers (snd (f tr w))) (outbox (snd (f tr w))) P"
    and "flows c R tid (A @ concat (map pre trs) @ C) (ledgers w) (outbox w) P"
  shows "flows c R tid (A @ concat (map post (fst (each_leg f trs w))) @ C) (ledgers (snd (each_leg f trs w))) (outbox (snd (each_leg f trs w))) P"
  using assms
proof (induction trs arbitrary: A w)
  case (Cons tr trs)
  have "flows c R tid (A @ post (fst (f tr w)) @ concat (map pre trs) @ C) (ledgers (snd (f tr w))) (outbox (snd (f tr w))) P"
    using Cons.prems(1) [of tr A "concat (map pre trs) @ C" w] Cons.prems(2) by simp
  then have "flows c R tid ((A @ post (fst (f tr w))) @ concat (map pre trs) @ C) (ledgers (snd (f tr w))) (outbox (snd (f tr w))) P" by simp
  from Cons.IH [OF Cons.prems(1) this] show ?case by (simp add: split_beta Let_def)
qed simp

text \<open>The flows of an actor in a stage.\<close>

abbreviation actor_flows :: "ctx \<Rightarrow> uuid set \<Rightarrow> uuid \<Rightarrow> tactor \<Rightarrow> world \<Rightarrow> WalletResultMsg list \<Rightarrow> bool" where
  "actor_flows c R tid t w P \<equiv> flows c R tid (all_slots tid (ta_stage t) (ta_transfers t)) (ledgers w) (outbox w) P"

text \<open>What a leg is before it is sent for the first time in the stage \<open>s\<close>.\<close>

definition fwd_pre :: "uuid \<Rightarrow> stage \<Rightarrow> transfer \<Rightarrow> (slot \<times> slot_state) list" where
  "fwd_pre tid s tr = [(fwd_slot tid tr, if tr_applied tr \<or> tr_failCode tr \<noteq> [] then fwd_state s tr else Unsent)]"

lemma fireLegs_flows:
  assumes "uuid_codec c" "ta_stage t = stageProcessing \<or> ta_stage t = stageCrediting" "list_all leg_fwd (ta_transfers t)"
    and "debitsApplied t \<or> ta_stage t = stageProcessing" "ta_transactionID t = tid"
    and "flows c R tid (concat (map (fwd_pre tid (ta_stage t)) (ta_transfers t))) (ledgers w) (outbox w) P"
  shows "actor_flows c R tid (fst (fireLegs c t w)) (snd (fireLegs c t w)) P"
proof -
  let ?f = "\<lambda>tr w. if tr_done tr \<or> \<not> inStage t tr then (tr, w) else try_send c t (tr_action tr) (tr_key tr) tr w"
  let ?pre = "fwd_pre tid (ta_stage t)" and ?post = "leg_slots tid (ta_stage t)"
  have step: "flows c R tid (A @ ?post (fst (?f tr w)) @ C) (ledgers (snd (?f tr w))) (outbox (snd (?f tr w))) P"
    if tr: "tr \<in> set (ta_transfers t)" and fl: "flows c R tid (A @ ?pre tr @ C) (ledgers w) (outbox w) P" for tr w A C
  proof -
    have leg: "leg_fwd tr" and da: "ta_stage t = stageCrediting \<Longrightarrow> tr_action tr = LedgerTypeDebit \<Longrightarrow> tr_applied tr"
      using assms(2-4) tr by (auto simp: list_all_iff debitsApplied_def)
    show ?thesis
    proof (cases "tr_done tr \<or> \<not> inStage t tr")
      case True
      have "fwd_state (ta_stage t) tr = Unsent" if "\<not> tr_applied tr" "tr_failCode tr = []"
        using True that leg da assms(2) by (auto simp: fwd_state_def leg_fwd_def leg_static_def inStage_def)
      then show ?thesis using True fl leg by (auto simp: fwd_pre_def leg_slots_def rev_part_def leg_fwd_def split: if_splits)
    next
      case False
      have un: "\<not> tr_applied tr" "tr_failCode tr = []" using False leg by (auto simp: leg_fwd_def)
      have act: "ta_stage t = stageProcessing \<Longrightarrow> tr_action tr = LedgerTypeDebit" using False by (auto simp: inStage_def)
      let ?x = "fst (try_send c t (tr_action tr) (tr_key tr) tr w)"
      have "?post ?x = [(fwd_slot tid tr, if tr_retry ?x then Retrying else Waiting)]"
        using leg un act assms(2) by (auto simp: leg_slots_def rev_part_def leg_fwd_def fwd_state_def try_send_leg)
      then show ?thesis
        using False un fl flows_try_send [OF assms(1), where st = Unsent and t = t and tr = tr and a = "tr_action tr" and k = "tr_key tr" and sl = "fwd_slot tid tr"]
          fwd_request(1) [of tr c tid] leg assms(5) by (simp add: fwd_pre_def leg_fwd_def)
    qed
  qed
  from each_leg_flows [where A = "[]" and C = "[]" and f = ?f, OF step] assms(6)
  show ?thesis by (simp add: fireLegs_def all_slots_def)
qed

lemma resendPending_flows:
  assumes "uuid_codec c" "ready t" "ta_transactionID t = tid" "actor_flows c R tid t w P"
  shows "actor_flows c R tid (fst (snd (resendPending c t w))) (snd (snd (resendPending c t w))) P"
proof -
  let ?f = "\<lambda>tr w. if tr_done tr \<or> \<not> inStage t tr \<or> \<not> tr_retry tr then (tr, w)
        else if ta_stage t = stageReversing then
          (case tr_reversalKey tr of
             None \<Rightarrow> (tr, w)
           | Some k \<Rightarrow> try_send c t (Opposite (tr_action tr)) k tr w)
        else try_send c t (tr_action tr) (tr_key tr) tr w"
  let ?s = "leg_slots tid (ta_stage t)"
  have step: "flows c R tid (A @ ?s (fst (?f tr w)) @ C) (ledgers (snd (?f tr w))) (outbox (snd (?f tr w))) P"
    if tr: "tr \<in> set (ta_transfers t)" and fl: "flows c R tid (A @ ?s tr @ C) (ledgers w) (outbox w) P" for tr w A C
  proof (cases "tr_done tr \<or> \<not> inStage t tr \<or> \<not> tr_retry tr")
    case True
    with fl show ?thesis by auto
  next
    case go: False
    show ?thesis
    proof (cases "ta_stage t = stageReversing")
      case True
      have leg: "leg_rev tr" using assms(2) tr True by (simp add: ready_def list_all_iff)
      show ?thesis
      proof (cases "tr_reversalKey tr")
        case None
        with go True fl show ?thesis by auto
      next
        case (Some k)
        let ?x = "fst (try_send c t (Opposite (tr_action tr)) k tr w)"
        have sl: "?s tr = (fwd_slot tid tr, fwd_state (ta_stage t) tr) # [(rev_slot tid tr k, Retrying)]"
          "?s ?x = (fwd_slot tid tr, fwd_state (ta_stage t) tr) # [(rev_slot tid tr k, if tr_retry ?x then Retrying else Waiting)]"
          using Some go True by (auto simp: leg_slots_def rev_part_def rev_state_def fwd_state_def try_send_leg)
        show ?thesis
          using go True Some fl leg assms(3) fwd_request(2) [of tr c tid k]
            flows_try_send [OF assms(1), where st = Retrying and t = t and tr = tr and a = "Opposite (tr_action tr)" and k = k
              and sl = "rev_slot tid tr k" and A = "A @ [(fwd_slot tid tr, fwd_state (ta_stage t) tr)]" and C = C and w = w]
          by (simp add: sl [unfolded True] leg_rev_def)
      qed
    next
      case False
      have leg: "leg_fwd tr" using assms(2) tr False by (auto simp: ready_def list_all_iff split: stage.splits)
      have un: "\<not> tr_applied tr" "tr_failCode tr = []" "tr_reversalKey tr = None" using go leg by (auto simp: leg_fwd_def)
      let ?x = "fst (try_send c t (tr_action tr) (tr_key tr) tr w)"
      have sl: "?s tr = [(fwd_slot tid tr, Retrying)]" "?s ?x = [(fwd_slot tid tr, if tr_retry ?x then Retrying else Waiting)]"
        using un go False ready_working [OF assms(2)] by (auto simp: leg_slots_def rev_part_def fwd_state_def try_send_leg inStage_def working_def)
      show ?thesis
        using go False fl leg assms(3) fwd_request(1) [of tr c tid]
          flows_try_send [OF assms(1), where st = Retrying and t = t and tr = tr and a = "tr_action tr" and k = "tr_key tr" and sl = "fwd_slot tid tr" and A = A and C = C and w = w]
        by (simp add: sl leg_fwd_def)
    qed
  qed
  from each_leg_flows [where A = "[]" and C = "[]" and f = ?f, OF step] assms(4)
  show ?thesis by (simp add: resendPending_def all_slots_def)
qed

section \<open>Starting the reversals\<close>

abbreviation give_key :: "ctx \<Rightarrow> transfer \<Rightarrow> world \<Rightarrow> transfer \<times> world" where
  "give_key c \<equiv> \<lambda>tr w. if tr_applied tr \<and> tr_reversalKey tr = None then fresh_reversal_key c tr w else (tr, w)"

definition fwd_part :: "uuid \<Rightarrow> transfer \<Rightarrow> (slot \<times> slot_state) list" where
  "fwd_part tid tr = [(fwd_slot tid tr, fwd_state stageReversing tr)]"

abbreviation keys_of :: "(slot \<times> slot_state) list \<Rightarrow> uuid set" where
  "keys_of A \<equiv> (\<lambda>p. sl_key (fst p)) ` set A"

lemma give_key_frame: "ledgers (snd (each_leg (give_key c) trs w)) = ledgers w" "outbox (snd (each_leg (give_key c) trs w)) = outbox w"
  by (rule each_leg_world, simp add: fresh_reversal_key_def)+

lemma give_key_flows:
  assumes "uuid_codec c" "flows c R tid (A @ concat (map (fwd_part tid) trs)) L Q P" "list_all (\<lambda>tr. tr_reversalKey tr = None) trs"
    and "inj_on (new_uuid c) {n_uuid w..<n_uuid w + length trs}"
    and "\<forall>n \<in> {n_uuid w..<n_uuid w + length trs}. new_uuid c n \<in> R \<and> new_uuid c n \<notin> keys_of (A @ concat (map (fwd_part tid) trs))"
  shows "flows c R tid (A @ concat (map (\<lambda>tr. fwd_part tid tr @ rev_part tid Unsent tr) (fst (each_leg (give_key c) trs w)))) L Q P"
  using assms(2-5)
proof (induction trs arbitrary: A w)
  case (Cons tr trs)
  let ?k = "new_uuid c (n_uuid w)" and ?B = "concat (map (fwd_part tid) trs)"
  have none: "tr_reversalKey tr = None" using Cons.prems(2) by simp
  show ?case
  proof (cases "tr_applied tr")
    case False
    have "inj_on (new_uuid c) {n_uuid w..<n_uuid w + length trs}" by (rule inj_on_subset [OF Cons.prems(3)]) auto
    with Cons.IH [of "A @ fwd_part tid tr" w] Cons.prems False none show ?thesis by (simp add: split_beta Let_def rev_part_def)
  next
    case True
    let ?tr = "tr\<lparr>tr_reversalKey := Some ?k\<rparr>" and ?w = "w\<lparr>n_uuid := Suc (n_uuid w)\<rparr>"
    have f: "give_key c tr w = (?tr, ?w)" using True none by (simp add: fresh_reversal_key_def)
    have part: "fwd_part tid ?tr = fwd_part tid tr" "rev_part tid Unsent ?tr = [(rev_slot tid tr ?k, Unsent)]"
      by (simp_all add: fwd_part_def fwd_state_def rev_part_def)
    have amt: "amount_ok (sl_amount (rev_slot tid tr ?k))"
      using Cons.prems(1) by (simp add: flows_def fwd_part_def fwd_slot_def rev_slot_def)
    have k: "?k \<in> R" "?k \<notin> keys_of (A @ fwd_part tid tr @ ?B)" using Cons.prems(4) by simp_all
    have "flows c R tid ((A @ fwd_part tid tr) @ (rev_slot tid tr ?k, Unsent) # ?B) L Q P"
      by (rule flows_add [OF assms(1)]) (use Cons.prems(1) k amt in \<open>simp_all add: rev_slot_def\<close>)
    then have 1: "flows c R tid ((A @ fwd_part tid tr @ [(rev_slot tid tr ?k, Unsent)]) @ ?B) L Q P" by simp
    have 3: "inj_on (new_uuid c) {n_uuid ?w..<n_uuid ?w + length trs}" by (rule inj_on_subset [OF Cons.prems(3)]) auto
    have 4: "new_uuid c n \<in> R \<and> new_uuid c n \<notin> keys_of ((A @ fwd_part tid tr @ [(rev_slot tid tr ?k, Unsent)]) @ ?B)"
      if "n \<in> {n_uuid ?w..<n_uuid ?w + length trs}" for n
    proof -
      have n: "n \<in> {n_uuid w..<n_uuid w + length (tr # trs)}" using that by simp
      have "new_uuid c n \<noteq> ?k" using inj_onD [OF Cons.prems(3) _ n, of "n_uuid w"] that by auto
      then show ?thesis using Cons.prems(4) n by (auto simp: rev_slot_def)
    qed
    have "fst (each_leg (give_key c) (tr # trs) w) = ?tr # fst (each_leg (give_key c) trs ?w)"
      unfolding each_leg.simps f by (simp add: split_beta Let_def)
    with Cons.IH [OF 1 _ 3] 4 Cons.prems(2) show ?thesis by (simp add: part)
  qed
qed simp

lemma fireReversals_flows:
  assumes "uuid_codec c" "ready t" "ta_stage t = stageProcessing \<or> ta_stage t = stageCrediting" "allDone t" "ta_transactionID t = tid"
    and "actor_flows c R tid t w P" "inj_on (new_uuid c) {n_uuid w..<n_uuid w + length (ta_transfers t)}"
    and "\<forall>n \<in> {n_uuid w..<n_uuid w + length (ta_transfers t)}. new_uuid c n \<in> R \<and> new_uuid c n \<notin> tr_key ` set (ta_transfers t)"
  shows "actor_flows c R tid (fst (fireReversals c t w)) (snd (fireReversals c t w)) P"
proof -
  have fwd: "list_all leg_fwd (ta_transfers t)" and da: "ta_stage t = stageCrediting \<Longrightarrow> debitsApplied t"
    using assms(2,3) by (auto simp: ready_def)
  have same: "leg_slots tid (ta_stage t) tr = fwd_part tid tr" if "tr \<in> set (ta_transfers t)" for tr
  proof -
    have "leg_fwd tr" "\<not> (\<not> tr_done tr \<and> inStage t tr)" "ta_stage t = stageCrediting \<Longrightarrow> tr_action tr = LedgerTypeDebit \<Longrightarrow> tr_applied tr"
      using that fwd assms(4) da by (auto simp: list_all_iff allDone_def debitsApplied_def)
    then show ?thesis using assms(3)
      by (auto simp: leg_slots_def fwd_part_def rev_part_def leg_fwd_def leg_static_def fwd_state_def inStage_def)
  qed
  have "map (leg_slots tid (ta_stage t)) (ta_transfers t) = map (fwd_part tid) (ta_transfers t)" by (rule map_cong [OF refl same])
  then have all: "all_slots tid (ta_stage t) (ta_transfers t) = concat (map (fwd_part tid) (ta_transfers t))"
    unfolding all_slots_def by (rule arg_cong)
  define t1 where "t1 = fst (for_legs (give_key c) (t\<lparr>ta_stage := stageReversing, ta_ticks := 0\<rparr>) w)"
  define w1 where "w1 = snd (each_leg (give_key c) (ta_transfers t) w)"
  define w2 where "w2 = persistPlan c t1 w1"
  have t1: "ta_transfers t1 = fst (each_leg (give_key c) (ta_transfers t) w)" "ta_transactionID t1 = tid" using assms(5) by (simp_all add: t1_def)
  have tab: "ledgers w2 = ledgers w" "outbox w2 = outbox w"
    using blind_basic(3) [OF actor_blind_tables, of c t1 w1] by (simp_all add: w2_def w1_def give_key_frame)
  let ?f = "\<lambda>tr w. if \<not> tr_applied tr then (tr\<lparr>tr_done := True, tr_retry := False\<rparr>, w) else send_reversal c t1 tr w"
  let ?pre = "\<lambda>tr. fwd_part tid tr @ rev_part tid Unsent tr" and ?post = "leg_slots tid stageReversing"
  have none: "list_all (\<lambda>tr. tr_reversalKey tr = None) (ta_transfers t)" using fwd by (auto simp: list_all_iff leg_fwd_def)
  have "keys_of (concat (map (fwd_part tid) (ta_transfers t))) = tr_key ` set (ta_transfers t)"
    by (auto simp: fwd_part_def fwd_slot_def image_iff)
  with give_key_flows [OF assms(1), of R tid "[]" "ta_transfers t"] assms(6-8) none all
  have "flows c R tid (concat (map ?pre (ta_transfers t1))) (ledgers w2) (outbox w2) P" by (simp add: t1 tab)
  moreover have legs: "list_all (\<lambda>tr. leg_static tr \<and> (tr_applied tr \<longleftrightarrow> tr_reversalKey tr \<noteq> None) \<and> \<not> tr_reversed tr) (ta_transfers t1)"
    unfolding t1 by (rule each_leg_all [where P = leg_fwd]) (use fwd in \<open>auto simp: leg_defs fresh_reversal_key_def\<close>)
  moreover have "flows c R tid (A @ ?post (fst (?f tr w)) @ C) (ledgers (snd (?f tr w))) (outbox (snd (?f tr w))) P"
    if tr: "tr \<in> set (ta_transfers t1)" and fl: "flows c R tid (A @ ?pre tr @ C) (ledgers w) (outbox w) P" for tr w A C
  proof (cases "tr_reversalKey tr")
    case None
    then have "\<not> tr_applied tr" using legs tr by (auto simp: list_all_iff)
    with fl None show ?thesis by (simp add: fwd_part_def rev_part_def leg_slots_def fwd_state_def split: if_splits)
  next
    case (Some k)
    then have ap: "tr_applied tr" "leg_static tr" "leg_static (tr\<lparr>tr_done := False\<rparr>)" using legs tr by (auto simp: list_all_iff leg_static_def)
    let ?tr = "tr\<lparr>tr_done := False\<rparr>"
    let ?x = "fst (try_send c t1 (Opposite (tr_action tr)) k ?tr w)"
    have sl: "?pre tr = [(fwd_slot tid tr, Won), (rev_slot tid tr k, Unsent)]"
      "?post ?x = [(fwd_slot tid tr, Won), (rev_slot tid tr k, if tr_retry ?x then Retrying else Waiting)]"
      using Some ap by (auto simp: leg_slots_def fwd_part_def rev_part_def rev_state_def fwd_state_def try_send_leg)
    show ?thesis
      using fl Some ap t1(2) fwd_request(2) [OF ap(3), of c tid k]
        flows_try_send [OF assms(1), where st = Unsent and t = t1 and tr = ?tr and a = "Opposite (tr_action tr)" and k = k
          and sl = "rev_slot tid tr k" and A = "A @ [(fwd_slot tid tr, Won)]" and C = C and w = w]
      by (simp add: sl send_reversal_def)
  qed
  ultimately have "flows c R tid (concat (map ?post (fst (each_leg ?f (ta_transfers t1) w2))))
      (ledgers (snd (each_leg ?f (ta_transfers t1) w2))) (outbox (snd (each_leg ?f (ta_transfers t1) w2))) P"
    using each_leg_flows [where A = "[]" and C = "[]" and f = ?f and pre = ?pre and post = ?post and trs = "ta_transfers t1" and w = w2] by simp
  moreover have "fireReversals c t w = (armTimeout (fst (for_legs ?f t1 w2)), snd (for_legs ?f t1 w2))"
    unfolding fireReversals_def w2_def w1_def t1_def by (simp add: split_beta Let_def)
  moreover have "ta_stage t1 = stageReversing" by (simp add: t1_def)
  ultimately show ?thesis by (simp add: all_slots_def)
qed

section \<open>Replies\<close>

lemma all_slots_nth:
  assumes "i < length trs"
  shows "all_slots tid s (trs[i := x]) = all_slots tid s (take i trs) @ leg_slots tid s x @ all_slots tid s (drop (Suc i) trs)"
    "all_slots tid s trs = all_slots tid s (take i trs) @ leg_slots tid s (trs ! i) @ all_slots tid s (drop (Suc i) trs)"
proof -
  show "all_slots tid s (trs[i := x]) = all_slots tid s (take i trs) @ leg_slots tid s x @ all_slots tid s (drop (Suc i) trs)"
    using assms by (simp add: all_slots_def upd_conv_take_nth_drop)
  show "all_slots tid s trs = all_slots tid s (take i trs) @ leg_slots tid s (trs ! i) @ all_slots tid s (drop (Suc i) trs)"
    by (subst (1) id_take_nth_drop [OF assms]) (simp add: all_slots_def)
qed

text \<open>The slots of a leg after a reply to its outstanding operation.\<close>

definition reply_state :: "WalletResultMsg \<Rightarrow> slot_state" where
  "reply_state r = (if rm_ErrorCode r = [] then Won else if Definitive (rm_ErrorCode r) then Lost else Retrying)"

lemma flows_reply_state:
  "flows c R tid (A @ (sl, Waiting) # C) L Q (P1 @ r # P2) \<Longrightarrow> rm_IdempotencyKey r = str_uuid c (sl_key sl) \<Longrightarrow>
    flows c R tid (A @ (sl, reply_state r) # C) L Q (P1 @ P2)"
  by (erule flows_reply) (auto simp: reply_state_def)

lemma collect_leg_flows:
  assumes "ready t" "i < length (ta_transfers t)" "inFlightKey c (ta_stage t) (ta_transfers t ! i) = rm_IdempotencyKey r"
    and "actor_flows c R tid t w (P1 @ r # P2)"
  shows "actor_flows c R tid (fst (collect_leg c r i t w)) (snd (collect_leg c r i t w)) (P1 @ P2) \<and> snd (collect_leg c r i t w) = w \<and>
    \<not> tr_done (ta_transfers t ! i)"
proof -
  let ?tr = "ta_transfers t ! i" and ?s = "ta_stage t"
  define A C where "A = all_slots tid ?s (take i (ta_transfers t))" and "C = all_slots tid ?s (drop (Suc i) (ta_transfers t))"
  note split = all_slots_nth [OF assms(2), of tid ?s, folded A_def C_def]
  have fl: "flows c R tid (A @ leg_slots tid ?s ?tr @ C) (ledgers w) (outbox w) (P1 @ r # P2)" using assms(4) split by simp
  have work: "working t" using ready_working [OF assms(1)] .
  have legs: "?s \<noteq> stageReversing \<Longrightarrow> leg_fwd ?tr" "?s = stageReversing \<Longrightarrow> leg_rev ?tr"
    using assms(1,2) by (auto simp: ready_def list_all_length split: stage.splits)
  have waits: "st = Waiting" if "(sl, st) \<in> set (leg_slots tid ?s ?tr)" "rm_IdempotencyKey r = str_uuid c (sl_key sl)" for sl st
    using slot_waiting(2) [OF _ that(2)] flows_slot [OF fl, of "(sl, st)"] that(1) by fastforce
  show ?thesis
  proof (cases "?s = stageReversing")
    case False
    have key: "rm_IdempotencyKey r = str_uuid c (sl_key (fwd_slot tid ?tr))"
      using assms(3) legs(1) [OF False] by (simp add: inFlightKey_def fwd_slot_def leg_fwd_def)
    have wait: "fwd_state ?s ?tr = Waiting"
      using waits [OF _ key] by (simp add: leg_slots_def)
    then have un: "\<not> tr_applied ?tr" "tr_failCode ?tr = []" "\<not> tr_done ?tr" "tr_reversalKey ?tr = None"
      using legs(1) [OF False] by (auto simp: fwd_state_def leg_fwd_def split: if_splits)
    have pre: "leg_slots tid ?s ?tr = [(fwd_slot tid ?tr, Waiting)]" using un wait by (simp add: leg_slots_def rev_part_def)
    have new: "flows c R tid (A @ [(fwd_slot tid ?tr, reply_state r)] @ C) (ledgers w) (outbox w) (P1 @ P2)"
      using flows_reply_state [OF _ key] fl pre by simp
    have sent: "\<not> (?s = stageProcessing \<and> tr_action ?tr \<noteq> LedgerTypeDebit \<or> ?s = stageReversing \<or> ?s = stageFinalized)"
      using wait un(1,2) unfolding fwd_state_def by (auto split: if_splits)
    define n where "n = ta_replies t + 1"
    define x where "x = (if rm_ErrorCode r = [] then ?tr\<lparr>tr_done := True, tr_applied := True, tr_initial := rm_InitialBalance r, tr_updated := rm_UpdatedBalance r, tr_seq := n\<rparr>
      else if Definitive (rm_ErrorCode r) then ?tr\<lparr>tr_done := True, tr_failCode := rm_ErrorCode r, tr_failMsg := rm_ErrorMessage r\<rparr> else ?tr\<lparr>tr_retry := True\<rparr>)"
    have "leg_slots tid ?s x = [(fwd_slot tid ?tr, reply_state r)]"
      using un(1,2,4) sent by (simp add: x_def leg_slots_def rev_part_def fwd_state_def fwd_slot_def reply_state_def) blast
    moreover have "ta_transfers (fst (collect_leg c r i t w)) = (ta_transfers t)[i := x]" "snd (collect_leg c r i t w) = w"
      using un(3) False by (simp_all add: collect_leg_def Let_def x_def n_def)
    ultimately show ?thesis using new un by (simp add: split)
  next
    case True
    have rev: "leg_rev ?tr" using legs(2) [OF True] .
    show ?thesis
    proof (cases "tr_reversalKey ?tr")
      case None
      have "fwd_state ?s ?tr = Waiting"
        using waits [of "fwd_slot tid ?tr"] assms(3) None by (simp add: leg_slots_def inFlightKey_def fwd_slot_def)
      with True show ?thesis by (auto simp: fwd_state_def split: if_splits)
    next
      case (Some k)
      have key: "rm_IdempotencyKey r = str_uuid c (sl_key (rev_slot tid ?tr k))"
        using assms(3) Some True by (simp add: inFlightKey_def rev_slot_def)
      have "rev_state ?tr = Waiting"
        using waits [OF _ key] Some by (simp add: leg_slots_def rev_part_def)
      then have un: "\<not> tr_done ?tr" "\<not> tr_reversed ?tr" "tr_applied ?tr" "rev_state ?tr = Waiting"
        using rev Some by (auto simp: rev_state_def leg_rev_def split: if_splits)
      have pre: "leg_slots tid ?s ?tr = [(fwd_slot tid ?tr, Won), (rev_slot tid ?tr k, Waiting)]"
        using un Some by (simp add: leg_slots_def rev_part_def fwd_state_def)
      have new: "flows c R tid (A @ [(fwd_slot tid ?tr, Won), (rev_slot tid ?tr k, reply_state r)] @ C) (ledgers w) (outbox w) (P1 @ P2)"
        using flows_reply_state [of c R tid "A @ [(fwd_slot tid ?tr, Won)]" "rev_slot tid ?tr k" C, OF _ key] fl pre by simp
      define n where "n = ta_replies t + 1"
      define x where "x = (if rm_ErrorCode r = [] then ?tr\<lparr>tr_done := True, tr_reversed := True, tr_rInitial := rm_InitialBalance r, tr_rUpdated := rm_UpdatedBalance r, tr_rSeq := n\<rparr>
        else if Definitive (rm_ErrorCode r) then ?tr\<lparr>tr_done := True, tr_reversalErr := rm_ErrorCode r @ '': '' @ rm_ErrorMessage r\<rparr> else ?tr\<lparr>tr_retry := True\<rparr>)"
      have "leg_slots tid ?s x = [(fwd_slot tid ?tr, Won), (rev_slot tid ?tr k, reply_state r)]"
        using un(1-3) Some by (simp add: x_def leg_slots_def rev_part_def fwd_state_def rev_state_def fwd_slot_def rev_slot_def reply_state_def)
      moreover have "ta_transfers (fst (collect_leg c r i t w)) = (ta_transfers t)[i := x]" "snd (collect_leg c r i t w) = w"
        using un(1) True by (simp_all add: collect_leg_def Let_def x_def n_def)
      ultimately show ?thesis using new un by (simp add: split)
    qed
  qed
qed

section \<open>The handlers\<close>

definition leg_core :: "transfer \<Rightarrow> uuid \<times> ledger_type \<times> int64 \<times> uuid" where
  "leg_core tr = (tr_walletID tr, tr_action tr, tr_amount tr, tr_key tr)"

text \<open>Enough unused keys for a reversal of every leg.\<close>

definition spare_keys :: "ctx \<Rightarrow> uuid set \<Rightarrow> uuid list \<Rightarrow> nat \<Rightarrow> bool" where
  "spare_keys c R keys n \<longleftrightarrow> inj_on (new_uuid c) {n..<n + length keys} \<and> (\<forall>m \<in> {n..<n + length keys}. new_uuid c m \<in> R \<and> new_uuid c m \<notin> set keys)"

definition actor_inv :: "ctx \<Rightarrow> uuid set \<Rightarrow> uuid \<Rightarrow> (uuid \<times> ledger_type \<times> int64 \<times> uuid) list \<Rightarrow> tactor \<Rightarrow> world \<Rightarrow> WalletResultMsg list \<Rightarrow> bool" where
  "actor_inv c R tid cores t w P \<longleftrightarrow> ta_transactionID t = tid \<and> map leg_core (ta_transfers t) = cores \<and> actor_flows c R tid t w P \<and>
     (ta_stage t = stageProcessing \<or> ta_stage t = stageCrediting \<longrightarrow> spare_keys c R (map tr_key (ta_transfers t)) (n_uuid w))"

lemma core_keys: "map leg_core xs = map leg_core ys \<Longrightarrow> map tr_key xs = map tr_key ys"
proof -
  assume "map leg_core xs = map leg_core ys"
  then have "map (\<lambda>x. snd (snd (snd x))) (map leg_core xs) = map (\<lambda>x. snd (snd (snd x))) (map leg_core ys)" by simp
  then show ?thesis by (simp add: leg_core_def comp_def)
qed

lemma each_leg_core:
  assumes "\<And>tr w. leg_core (fst (f tr w)) = leg_core tr"
  shows "map leg_core (fst (each_leg f trs w)) = map leg_core trs"
  by (induction trs arbitrary: w) (simp_all add: assms split_beta Let_def)

lemma core_frame [simp]:
  "leg_core (fst (try_send c t a k tr w)) = leg_core tr" "leg_core (fst (fresh_reversal_key c tr w)) = leg_core tr"
  "leg_core (fst (send_reversal c t tr w)) = leg_core tr" "leg_core (tr\<lparr>tr_done := d, tr_retry := b\<rparr>) = leg_core tr"
  by (simp_all add: leg_core_def try_send_leg fresh_reversal_key_def send_reversal_def split: option.split)

lemma loops_core [simp]:
  "map leg_core (ta_transfers (fst (fireLegs c t w))) = map leg_core (ta_transfers t)"
  "map leg_core (ta_transfers (fst (snd (resendPending c t w)))) = map leg_core (ta_transfers t)"
  "map leg_core (ta_transfers (fst (fireReversals c t w))) = map leg_core (ta_transfers t)"
  by (simp_all add: fireLegs_def resendPending_def fireReversals_def split_beta Let_def each_leg_core split: option.split)

lemma collect_leg_core: "map leg_core (ta_transfers (fst (collect_leg c r i t w))) = map leg_core (ta_transfers t)"
proof -
  have upd: "map leg_core (xs[i := x]) = map leg_core xs" if "i < length xs \<Longrightarrow> leg_core x = leg_core (xs ! i)" for xs x
    using that by (cases "i < length xs") (simp_all add: map_update list_update_same_conv list_update_beyond)
  show ?thesis
    by (simp add: collect_leg_def lateApply_def split_beta Let_def fresh_reversal_key_def)
      (intro conjI impI upd; simp add: leg_core_def send_reversal_def try_send_leg)
qed

lemma uuid_frame [simp]:
  "n_uuid (snd (try_send c t a k tr w)) = n_uuid w" "n_uuid (heartbeat c t w) = n_uuid w" "n_uuid (send_finalize c t w) = n_uuid w"
  "n_uuid (snd (fireLegs c t w)) = n_uuid w" "n_uuid (snd (snd (resendPending c t w))) = n_uuid w"
proof -
  show s: "n_uuid (snd (try_send c t a k tr w)) = n_uuid w" for t a k tr w by (simp add: try_send_def ta_send_def split_beta Let_def)
  show "n_uuid (heartbeat c t w) = n_uuid w" "n_uuid (send_finalize c t w) = n_uuid w"
    by (simp_all add: heartbeat_def send_finalize_def db_call_def update_txns_def Let_def split: fault.split)
  show "n_uuid (snd (fireLegs c t w)) = n_uuid w" unfolding fireLegs_def for_legs_frame by (rule each_leg_world) (simp add: s)
  show "n_uuid (snd (snd (resendPending c t w))) = n_uuid w"
    unfolding resendPending_def snd_conv for_legs_frame by (rule each_leg_world) (simp add: s split: option.split)
qed

lemma fireCredits_inv:
  assumes "uuid_codec c" "ready t" "ta_stage t = stageProcessing" "allDone t" "\<not> anyFailed t" "actor_inv c R tid cores t w P"
  shows "actor_inv c R tid cores (fst (fireCredits c t w)) (snd (fireCredits c t w)) P"
proof -
  let ?t = "t\<lparr>ta_stage := stageCrediting, ta_ticks := 0\<rparr>"
  have fwd: "list_all leg_fwd (ta_transfers t)" using assms(2,3) by (simp add: ready_def)
  have da: "debitsApplied ?t"
    using fwd assms(3-5) by (auto simp: debitsApplied_def allDone_def anyFailed_def list_all_iff list_ex_iff inStage_def leg_fwd_def)
  have same: "leg_slots tid stageProcessing tr = fwd_pre tid stageCrediting tr" if "tr \<in> set (ta_transfers t)" for tr
  proof -
    have "leg_fwd tr" "tr_action tr = LedgerTypeDebit \<Longrightarrow> tr_applied tr" using that fwd da by (auto simp: list_all_iff debitsApplied_def)
    then show ?thesis by (auto simp: leg_slots_def fwd_pre_def rev_part_def leg_fwd_def leg_static_def fwd_state_def)
  qed
  have "map (leg_slots tid stageProcessing) (ta_transfers t) = map (fwd_pre tid stageCrediting) (ta_transfers t)" by (rule map_cong [OF refl same])
  then have "all_slots tid stageProcessing (ta_transfers t) = concat (map (fwd_pre tid stageCrediting) (ta_transfers t))"
    unfolding all_slots_def by (rule arg_cong)
  with assms(3,6) have "flows c R tid (concat (map (fwd_pre tid (ta_stage ?t)) (ta_transfers ?t))) (ledgers w) (outbox w) P"
    by (simp add: actor_inv_def)
  from fireLegs_flows [OF assms(1) _ _ disjI1 [OF da] _ this] assms(6) fwd
  show ?thesis using core_keys [OF loops_core(1) [of c ?t w]] assms(3) by (simp add: actor_inv_def fireCredits_def split_beta Let_def)
qed

lemma advance_inv:
  assumes "uuid_codec c" "ready t" "actor_inv c R tid cores t w P"
  shows "actor_inv c R tid cores (fst (advance c t w)) (snd (advance c t w)) P"
proof -
  have fin: "actor_inv c R tid cores t (send_finalize c t' w) P = actor_inv c R tid cores t w P" for t t' w
    by (simp add: actor_inv_def) (simp add: send_finalize_def)
  have rev: "actor_inv c R tid cores (fst (fireReversals c t w)) (snd (fireReversals c t w)) P"
    if "ta_stage t = stageProcessing \<or> ta_stage t = stageCrediting" "allDone t"
    using fireReversals_flows [OF assms(1,2) that] assms(3) that(1) by (simp add: actor_inv_def spare_keys_def)
  show ?thesis
    using assms(3) rev fireCredits_inv [OF assms(1,2) _ _ _ assms(3)] by (auto simp: advance_def split_beta Let_def fin)
qed

end
