(* ===== verification/Settlement.thy ===== *)
theory Settlement
  imports Actor_Flows
begin

text \<open>
  A transaction between its TransactionActor and the wallets. \<open>system\<close> is the actor, the WalletActors, the shared database, the requests on
  their way to wallets (\<open>outbox\<close> of the world) and the replies on their way back. \<open>sys_step\<close> is one thing that can happen; a run is any sequence
  of them. Messages are delivered at most once and in any order, requests can become dead letters, messages can be lost, WalletActors can be
  stopped and activated again, wallets serve other transactions in between, and the database can fail at every call. What is left out is a message
  delivered twice; that the TransactionActor dies and is resumed from the ledger by another one is added in \<open>Resumption\<close>.

  The result: when such a run finalizes the transaction, the ledger holds the whole plan, or
  has no net effect on any wallet, or the transaction is flagged for reconciliation.
\<close>

section \<open>The handlers of the TransactionActor\<close>

lemma collect_inv:
  assumes "uuid_codec c" "tinv t" "ta_stage t \<noteq> stageIdle" "actor_inv c R tid cores t w (P1 @ r # P2)"
  shows "actor_inv c R tid cores (fst (collect c r t w)) (snd (collect c r t w)) (P1 @ P2)"
proof (cases "working t")
  case False
  with assms(4) flows_lose(2) show ?thesis by (auto simp: collect_def actor_inv_def)
next
  case True
  have r: "ready t" using tinv_ready [OF assms(2) True] .
  show ?thesis
  proof (cases "match_leg (\<lambda>tr. inFlightKey c (ta_stage t) tr = rm_IdempotencyKey r) (ta_transfers t)")
    case None
    have "actor_inv c R tid cores t w (P1 @ P2)" using assms(4) flows_lose(2) by (auto simp: actor_inv_def)
    from advance_inv [OF assms(1) r this] None True show ?thesis by (simp add: collect_def)
  next
    case (Some i)
    note i = match_leg_bound [OF Some]
    have "actor_flows c R tid t w (P1 @ r # P2)" using assms(4) by (simp add: actor_inv_def)
    note fl = collect_leg_flows [OF r conjunct1 [OF i] conjunct2 [OF i] this]
    have sw: "snd (collect_leg c r i t w) = w" using fl by blast
    have af: "actor_flows c R tid (fst (collect_leg c r i t w)) w (P1 @ P2)" using conjunct1 [OF fl] unfolding sw .
    have "ta_transactionID (fst (collect_leg c r i t w)) = ta_transactionID t" by (simp add: collect_leg_def lateApply_def split_beta Let_def)
    then have "actor_inv c R tid cores (fst (collect_leg c r i t w)) w (P1 @ P2)"
      using assms(4) af core_keys [OF collect_leg_core [of c r i t w]] by (simp add: actor_inv_def collect_leg_core)
    from advance_inv [OF assms(1) collect_leg_ready [OF r conjunct1 [OF i]] this] Some True
    show ?thesis by (simp add: collect_def split_beta Let_def sw)
  qed
qed

lemma resend_inv:
  assumes "uuid_codec c" "ready t" "actor_inv c R tid cores t w P"
  shows "actor_inv c R tid cores (fst (snd (resendPending c t w))) (snd (snd (resendPending c t w))) P"
  using assms resendPending_flows [OF assms(1,2)] core_keys [OF loops_core(2) [of c t w]] by (simp add: actor_inv_def)

lemma actor_inv_frame:
  assumes "ta_stage t' = ta_stage t" "ta_transfers t' = ta_transfers t" "ta_transactionID t' = ta_transactionID t"
    and "ledgers w' = ledgers w" "outbox w' = outbox w" "n_uuid w' = n_uuid w"
  shows "actor_inv c R tid cores t' w' P = actor_inv c R tid cores t w P"
  unfolding actor_inv_def assms ..

lemma heartbeat_tables: "ledgers (heartbeat c t w) = ledgers w"
  using blind_basic(4) [OF actor_blind_tables, of c t w] by simp

lemma tick_inv:
  assumes "uuid_codec c" "tinv t" "actor_inv c R tid cores t w P"
  shows "actor_inv c R tid cores (fst (tick c armed t w)) (snd (tick c armed t w)) P"
proof (cases "stage_int (ta_stage t) \<noteq> armed \<or> \<not> working t")
  case False
  let ?t = "t\<lparr>ta_ticks := ta_ticks t + 1\<rparr>"
  have "ready ?t" using tinv_ready assms(2) False tinv_cong(2) [of ?t t] by simp
  moreover have "actor_inv c R tid cores ?t w P" using assms(3) actor_inv_frame [of ?t t w w] by simp
  ultimately have "actor_inv c R tid cores (fst (snd (resendPending c ?t w))) (snd (snd (resendPending c ?t w))) P"
    by (rule resend_inv [OF assms(1)])
  moreover have "actor_inv c R tid cores (armTimeout x) (heartbeat c y v) P = actor_inv c R tid cores x v P" for x y v
    by (rule actor_inv_frame) (simp_all add: heartbeat_tables)
  ultimately show ?thesis using False by (simp add: tick_def split_beta Let_def)
qed (use assms(3) in \<open>simp add: tick_def\<close>)

lemma redrive_inv:
  assumes "uuid_codec c" "tinv t" "ta_stage t \<noteq> stageIdle" "actor_inv c R tid cores t w P"
  shows "actor_inv c R tid cores (fst (start c msg t w)) (snd (start c msg t w)) P"
proof -
  have "actor_inv c R tid cores x (heartbeat c y v) P = actor_inv c R tid cores x v P" for x y v
    by (rule actor_inv_frame) (simp_all add: heartbeat_tables)
  then show ?thesis using assms resend_inv [OF assms(1) tinv_ready [OF assms(2)] assms(4)] by (simp add: start_def split_beta Let_def)
qed

lemma finalize_inv:
  assumes "tinv t" "actor_inv c R tid cores t w P"
  shows "actor_inv c R tid cores (fst (finalize c t w)) (snd (finalize c t w)) P"
proof (cases "ta_stage t = stageFinalized \<or> ta_stage t = stageIdle \<or> \<not> allDone t")
  case False
  let ?t = "stopTimer (t\<lparr>ta_stage := stageFinalized\<rparr>)"
  have st: "fst (finalize c t w) = ?t" using False by (simp add: finalize_def split_beta Let_def)
  have tab: "ledgers (snd (finalize c t w)) = ledgers w" using blind_handlers(4) [OF actor_blind_tables, of c t w] by simp
  from False assms(1) consider "ta_stage t = stageCrediting" "ready t" "\<not> anyFailed t" | "ta_stage t = stageReversing" "ready t"
    by (cases "ta_stage t") (auto simp: tinv_def)
  then have "leg_slots tid stageFinalized tr = leg_slots tid (ta_stage t) tr" if "tr \<in> set (ta_transfers t)" for tr
  proof cases
    case 1
    then have "tr_applied tr"
      using False that by (auto simp: ready_def debitsApplied_def allDone_def anyFailed_def list_all_iff list_ex_iff inStage_def leg_defs)
    then show ?thesis by (simp add: leg_slots_def fwd_state_def)
  next
    case 2
    then show ?thesis by (simp add: leg_slots_def fwd_state_def)
  qed
  then have "map (leg_slots tid stageFinalized) (ta_transfers t) = map (leg_slots tid (ta_stage t)) (ta_transfers t)" by simp
  then have "all_slots tid stageFinalized (ta_transfers t) = all_slots tid (ta_stage t) (ta_transfers t)"
    unfolding all_slots_def by (rule arg_cong)
  with assms(2) show ?thesis by (simp add: actor_inv_def st tab)
qed (use assms in \<open>simp add: finalize_def\<close>)

section \<open>Starting\<close>

definition plan_core :: "transfer_leg \<Rightarrow> uuid \<times> ledger_type \<times> int64 \<times> uuid" where
  "plan_core l = (tl_WalletID l, tl_Action l, tl_Amount l, tl_IdempotencyKey l)"

definition good_leg :: "transfer_leg \<Rightarrow> bool" where
  "good_leg l \<longleftrightarrow> amount_ok (tl_Amount l) \<and> (tl_Action l = LedgerTypeDebit \<or> tl_Action l = LedgerTypeCredit) \<and> tl_ReversalKey l = None"

text \<open>The keys of the plan, and the UUIDs its reversals will draw.\<close>

definition reserved :: "ctx \<Rightarrow> transfer_leg list \<Rightarrow> nat \<Rightarrow> uuid list" where
  "reserved c plan n = map tl_IdempotencyKey plan @ map (new_uuid c) [n..<n + length plan]"

text \<open>Nothing of the transaction is in the ledger or on its way.\<close>

definition untouched_txn :: "uuid set \<Rightarrow> uuid \<Rightarrow> world \<Rightarrow> bool" where
  "untouched_txn R tid w \<longleftrightarrow> outbox w = [] \<and> (\<forall>l \<in> set (ledgers w). l_TransactionID l \<noteq> tid \<and> l_IdempotencyKey l \<notin> Some ` R)"

lemma good_entries: "uuid_codec c \<Longrightarrow> list_all good_leg plan \<Longrightarrow> list_all (ok_entry c) (PlanToProto c plan)"
  by (auto simp: list_all_iff PlanToProto_def ok_entry_def good_leg_def amount_ok_def uuid_codecD)

lemma loaded_cores:
  assumes "uuid_codec c" "list_all good_leg plan"
  shows "map leg_core (snd (loadTransfers c (PlanToProto c plan))) = map plan_core plan"
proof -
  have "map plan_entry (snd (loadTransfers c (PlanToProto c plan))) = plan"
    using loadTransfers_PlanToProto [OF assms(1)] assms(2) by (auto simp: list_all_iff good_leg_def amount_ok_def)
  moreover have "plan_core (plan_entry tr) = leg_core tr" for tr by (simp add: plan_core_def plan_entry_def leg_core_def)
  then have "map plan_core (map plan_entry trs) = map leg_core trs" for trs by simp
  ultimately show ?thesis by metis
qed

lemma new_flows:
  assumes "list_all leg_new trs" "map leg_core trs = map plan_core plan" "list_all good_leg plan" "untouched_txn R tid w"
    and "distinct (map tl_IdempotencyKey plan)" "set (map tl_IdempotencyKey plan) \<subseteq> R"
  shows "flows c R tid (concat (map (fwd_pre tid s) trs)) (ledgers w) (outbox w) []"
proof -
  have keys: "map tr_key trs = map tl_IdempotencyKey plan"
    using arg_cong [OF assms(2), of "map (\<lambda>x. snd (snd (snd x)))"] by (simp add: leg_core_def plan_core_def comp_def)
  have amts: "map tr_amount trs = map tl_Amount plan"
    using arg_cong [OF assms(2), of "map (\<lambda>x. fst (snd (snd x)))"] by (simp add: leg_core_def plan_core_def comp_def)
  have pre: "fwd_pre tid s tr = [(fwd_slot tid tr, Unsent)]" if "tr \<in> set trs" for tr
    using assms(1) that by (auto simp: fwd_pre_def list_all_iff leg_new_def)
  then have eq: "concat (map (fwd_pre tid s) trs) = map (\<lambda>tr. (fwd_slot tid tr, Unsent)) trs" by (induction trs) simp_all
  have dk: "distinct (map tr_key trs)" "set (map tr_key trs) \<subseteq> R" using assms(5,6) keys by simp_all
  have amt: "amount_ok (tr_amount tr)" if "tr \<in> set trs" for tr
  proof -
    have "tr_amount tr \<in> set (map tl_Amount plan)" using that amts by (metis image_eqI set_map)
    then show ?thesis using assms(3) by (auto simp: list_all_iff good_leg_def)
  qed
  have slot: "slot_ok c (fwd_slot tid tr) Unsent (ledgers w) [] []" if "tr \<in> set trs" for tr
    using assms(4) dk(2) that
    by (fastforce simp: slot_ok_def untouched_txn_def in_flight_def recorded_def has_key_def slot_row_def fwd_slot_def)
  show ?thesis unfolding eq
    using assms(4) dk slot amt by (auto simp: flows_def untouched_txn_def comp_def fwd_slot_def)
qed

lemma start_inv:
  assumes "uuid_codec c" "ta_stage t = stageIdle" "ta_transactionID t = uuid_Nil \<or> ta_transactionID t = tid" "untouched_txn (set (reserved c plan (n_uuid w))) tid w"
    and "list_all good_leg plan" "distinct (reserved c plan (n_uuid w))"
    and "parse_uuid c (sm_TransactionId msg) = Some tid" "sm_Transfers msg = PlanToProto c plan" "\<not> sm_Resume msg"
  defines "s \<equiv> start c msg t w"
  shows "ta_stage (fst s) = stageIdle \<and> ta_transactionID (fst s) = tid \<and> ledgers (snd s) = ledgers w \<and> outbox (snd s) = outbox w \<and> n_uuid (snd s) = n_uuid w \<or>
    ta_stage (fst s) \<noteq> stageIdle \<and> actor_inv c (set (reserved c plan (n_uuid w))) tid (map plan_core plan) (fst s) (snd s) []"
proof -
  define R where "R = set (reserved c plan (n_uuid w))"
  define trs where "trs = snd (loadTransfers c (sm_Transfers msg))"
  have new: "fst (loadTransfers c (sm_Transfers msg))" "list_all leg_new trs"
    using loadTransfers_new [OF good_entries [OF assms(1,5)]] assms(8) by (simp_all add: trs_def)
  have cores: "map leg_core trs = map plan_core plan" using loaded_cores [OF assms(1,5)] assms(8) by (simp add: trs_def)
  define t1 where "t1 = t\<lparr>ta_transactionID := tid, ta_createdAt := sm_CreatedAtUnix msg * second, ta_transfers := trs\<rparr>"
  define w2 where "w2 = snd (update_txns (\<lambda>r. ownRow t1 r \<and> tx_Status r \<in> set (startable (sm_Resume msg)))
      (\<lambda>r. r\<lparr>tx_Status := TransactionStatusProcessing, tx_UpdatedAt := now c\<rparr>) (snd (db_call c w)))"
  define t2 where "t2 = t1\<lparr>ta_stage := stageProcessing\<rparr>"
  have w2: "ledgers w2 = ledgers w" "outbox w2 = outbox w" "n_uuid w2 = n_uuid w"
    by (simp_all add: w2_def update_txns_def db_call_def)
  have go: "actor_inv c R tid (map plan_core plan) (fst (advance c (armTimeout (fst (fireLegs c t2 w2))) (snd (fireLegs c t2 w2))))
      (snd (advance c (armTimeout (fst (fireLegs c t2 w2))) (snd (fireLegs c t2 w2)))) []"
  proof (rule advance_inv [OF assms(1)])
    have fwd: "list_all leg_fwd trs" using new(2) by (auto simp: list_all_iff leg_new_def leg_fwd_def)
    have "ready t2" using fwd by (simp add: ready_def t2_def t1_def)
    then show "ready (armTimeout (fst (fireLegs c t2 w2)))" by (simp add: ready_arm ready_fireLegs)
    have keys: "distinct (map tl_IdempotencyKey plan)" "set (map tl_IdempotencyKey plan) \<subseteq> R" using assms(6) by (simp_all add: reserved_def R_def)
    have "flows c R tid (concat (map (fwd_pre tid stageProcessing) trs)) (ledgers w) (outbox w) []"
      using new_flows [OF new(2) cores assms(5) assms(4) keys [unfolded R_def]] by (simp add: R_def)
    then have fl: "actor_flows c R tid (fst (fireLegs c t2 w2)) (snd (fireLegs c t2 w2)) []"
      by (intro fireLegs_flows [OF assms(1)]) (use fwd in \<open>simp_all add: t2_def t1_def w2\<close>)
    have tk: "map tr_key trs = map tl_IdempotencyKey plan"
      using arg_cong [OF cores, of "map (\<lambda>x. snd (snd (snd x)))"] by (simp add: leg_core_def plan_core_def comp_def)
    have "spare_keys c R (map tr_key trs) (n_uuid w)"
      using assms(6) unfolding tk by (auto simp: spare_keys_def reserved_def R_def distinct_map)
    with fl show "actor_inv c R tid (map plan_core plan) (armTimeout (fst (fireLegs c t2 w2))) (snd (fireLegs c t2 w2)) []"
      using core_keys [OF loops_core(1) [of c t2 w2]] cores by (simp add: actor_inv_def t2_def t1_def w2)
  qed
  have stg: "ta_stage (fst (advance c (armTimeout (fst (fireLegs c t2 w2))) w')) \<noteq> stageIdle" for w'
    using advance_rank [of "armTimeout (fst (fireLegs c t2 w2))" c w'] by (auto simp: t2_def)
  have "s = (case fst (db_call c w) of Failed m \<Rightarrow> (t1, snd (db_call c w)) | LostAck m \<Rightarrow> (t1, w2)
     | NoFault \<Rightarrow> if fst (update_txns (\<lambda>r. ownRow t1 r \<and> tx_Status r \<in> set (startable (sm_Resume msg)))
          (\<lambda>r. r\<lparr>tx_Status := TransactionStatusProcessing, tx_UpdatedAt := now c\<rparr>) (snd (db_call c w))) = 0 then (t1, Poison w2)
        else advance c (armTimeout (fst (fireLegs c t2 w2))) (snd (fireLegs c t2 w2)))"
    using assms(2,3,7,9) new(1) unfolding s_def start_def t2_def w2_def t1_def trs_def
    by (auto simp: split_beta Let_def split: fault.split)
  then consider (idle) w' where "s = (t1, w')" "ledgers w' = ledgers w" "outbox w' = outbox w" "n_uuid w' = n_uuid w"
    | (run) "s = advance c (armTimeout (fst (fireLegs c t2 w2))) (snd (fireLegs c t2 w2))"
    using w2 by (auto simp: Poison_def db_call_def split: fault.splits if_splits)
  then show ?thesis
  proof cases
    case idle
    then show ?thesis using assms(2) by (simp add: t1_def)
  next
    case run
    then show ?thesis using go stg by (simp add: R_def)
  qed
qed

section \<open>The system\<close>

record system =
  sy_ta :: tactor
  sy_wallets :: "uuid \<Rightarrow> wallet_actor"
  sy_world :: world
  sy_replies :: "WalletResultMsg list"

datatype sys_event =
    SysStart
  | SysRedrive StartTransactionMsg
  | SysDeliver nat
  | SysUndeliverable nat
  | SysLoseRequest nat
  | SysCollect nat
  | SysLoseReply nat
  | SysTick int
  | SysFinalize
  | SysPassivate uuid
  | SysForeign uuid wallet_msg

text \<open>A WalletActor just activated by the cluster for the identity \<open>i\<close>.\<close>

definition activated :: "ctx \<Rightarrow> uuid \<Rightarrow> world \<Rightarrow> wallet_actor" where
  "activated c i w = fst (snd (wa_Receive c (ClusterInit (str_uuid c i)) NewWalletActor w))"

definition without :: "nat \<Rightarrow> 'a list \<Rightarrow> 'a list" where "without n xs = take n xs @ drop (Suc n) xs"

definition sys_actor :: "ctx \<Rightarrow> ta_event \<Rightarrow> system \<Rightarrow> system" where
  "sys_actor c ev s = (let (t, w) = ta_Receive c ev (sy_ta s) (sy_world s) in s\<lparr>sy_ta := t, sy_world := w\<rparr>)"

definition sys_wallet :: "ctx \<Rightarrow> uuid \<Rightarrow> wallet_msg \<Rightarrow> system \<Rightarrow> WalletResultMsg option \<times> system" where
  "sys_wallet c i m s = (let (r, a, w) = wa_Receive c (WalletMessage True m) (sy_wallets s i) (sy_world s)
     in (r, s\<lparr>sy_wallets := (sy_wallets s)(i := a), sy_world := w\<rparr>))"

definition sys_answer :: "WalletResultMsg option \<times> system \<Rightarrow> system" where
  "sys_answer x = (snd x)\<lparr>sy_replies := sy_replies (snd x) @ (case fst x of Some r \<Rightarrow> [r] | None \<Rightarrow> [])\<rparr>"

definition drop_request :: "nat \<Rightarrow> system \<Rightarrow> system" where
  "drop_request n s = s\<lparr>sy_world := (sy_world s)\<lparr>outbox := without n (outbox (sy_world s))\<rparr>\<rparr>"

text \<open>One step. \<open>msg\<close> is the start message of the transaction; an event that refers to no message changes nothing.\<close>

fun sys_step :: "ctx \<Rightarrow> StartTransactionMsg \<Rightarrow> sys_event \<Rightarrow> system \<Rightarrow> system" where
  "sys_step c msg SysStart s = sys_actor c (StartTransaction msg) s"
| "sys_step c msg (SysRedrive m) s = (if ta_stage (sy_ta s) = stageIdle then s else sys_actor c (StartTransaction m) s)"
| "sys_step c msg (SysDeliver n) s =
     (if n < length (outbox (sy_world s))
      then sys_answer (sys_wallet c (fst (outbox (sy_world s) ! n)) (snd (outbox (sy_world s) ! n)) (drop_request n s)) else s)"
| "sys_step c msg (SysUndeliverable n) s =
     (if n < length (outbox (sy_world s))
      then sys_answer (case DeadLetterHandler c True True None (DeadOp (snd (outbox (sy_world s) ! n))) of Answer r \<Rightarrow> Some r | _ \<Rightarrow> None, drop_request n s) else s)"
| "sys_step c msg (SysLoseRequest n) s = (if n < length (outbox (sy_world s)) then drop_request n s else s)"
| "sys_step c msg (SysCollect n) s =
     (if n < length (sy_replies s)
      then sys_actor c (WalletResult (sy_replies s ! n)) (s\<lparr>sy_replies := without n (sy_replies s)\<rparr>) else s)"
| "sys_step c msg (SysLoseReply n) s = (if n < length (sy_replies s) then s\<lparr>sy_replies := without n (sy_replies s)\<rparr> else s)"
| "sys_step c msg (SysTick armed) s = sys_actor c (Timeout armed) s"
| "sys_step c msg SysFinalize s = sys_actor c Finalize s"
| "sys_step c msg (SysPassivate i) s = s\<lparr>sy_wallets := (sy_wallets s)(i := activated c i (sy_world s))\<rparr>"
| "sys_step c msg (SysForeign i m) s = snd (sys_wallet c i m s)"

fun sys_run :: "ctx \<Rightarrow> StartTransactionMsg \<Rightarrow> sys_event list \<Rightarrow> system \<Rightarrow> system" where
  "sys_run c msg [] s = s"
| "sys_run c msg (ev # evs) s = sys_run c msg evs (sys_step c msg ev s)"

text \<open>A request of another transaction: routed to its wallet, with another transaction id and a key that is none of ours.\<close>

definition foreign_ok :: "ctx \<Rightarrow> uuid list \<Rightarrow> uuid \<Rightarrow> sys_event \<Rightarrow> bool" where
  "foreign_ok c R tid ev = (case ev of
      SysForeign i m \<Rightarrow> parse_uuid c (wo_WalletId (wallet_msg_op m)) = Some i \<and> is_int64 (wo_Amount (wallet_msg_op m)) \<and>
        parse_uuid c (wo_TransactionId (wallet_msg_op m)) \<noteq> Some tid \<and>
        (case parse_uuid c (wo_IdempotencyKey (wallet_msg_op m)) of Some k \<Rightarrow> k \<notin> set R | None \<Rightarrow> True)
    | _ \<Rightarrow> True)"

section \<open>The invariant of the system\<close>

definition sys_inv :: "ctx \<Rightarrow> (uuid \<Rightarrow> int) \<Rightarrow> uuid \<Rightarrow> transfer_leg list \<Rightarrow> nat \<Rightarrow> system \<Rightarrow> bool" where
  "sys_inv c op tid plan n s \<longleftrightarrow> tinv (sy_ta s) \<and> books c op (sy_world s) \<and> (\<forall>i. own_copy i (sy_wallets s i) (sy_world s)) \<and>
     (if ta_stage (sy_ta s) = stageIdle
      then (ta_transactionID (sy_ta s) = uuid_Nil \<or> ta_transactionID (sy_ta s) = tid) \<and> untouched_txn (set (reserved c plan n)) tid (sy_world s) \<and>
        sy_replies s = [] \<and> n_uuid (sy_world s) = n
      else actor_inv c (set (reserved c plan n)) tid (map plan_core plan) (sy_ta s) (sy_world s) (sy_replies s))"

lemma split_at: "n < length xs \<Longrightarrow> xs = take n xs @ xs ! n # drop (Suc n) xs"
  by (rule id_take_nth_drop)

definition txn_part :: "ctx \<Rightarrow> uuid \<Rightarrow> transfer_leg list \<Rightarrow> nat \<Rightarrow> tactor \<Rightarrow> world \<Rightarrow> WalletResultMsg list \<Rightarrow> bool" where
  "txn_part c tid plan n t w P \<longleftrightarrow> (if ta_stage t = stageIdle
      then (ta_transactionID t = uuid_Nil \<or> ta_transactionID t = tid) \<and> untouched_txn (set (reserved c plan n)) tid w \<and> P = [] \<and> n_uuid w = n
      else actor_inv c (set (reserved c plan n)) tid (map plan_core plan) t w P)"

lemma sys_inv_parts:
  "sys_inv c op tid plan n s \<longleftrightarrow> tinv (sy_ta s) \<and> books c op (sy_world s) \<and> (\<forall>i. own_copy i (sy_wallets s i) (sy_world s)) \<and>
     txn_part c tid plan n (sy_ta s) (sy_world s) (sy_replies s)"
  by (simp add: sys_inv_def txn_part_def)

lemma actor_step:
  assumes "sys_inv c op tid plan n s" "sys_actor c ev (s\<lparr>sy_replies := P\<rparr>) = s'" "tinv (sy_ta s')" "txn_part c tid plan n (sy_ta s') (sy_world s') P"
  shows "sys_inv c op tid plan n s'"
proof -
  have tab: "wallets (snd (ta_Receive c ev t w)) = wallets w" "ledgers (snd (ta_Receive c ev t w)) = ledgers w" for t w
    using blind_Receive [OF actor_blind_tables, of c ev t w] by simp_all
  have s': "sy_wallets s' = sy_wallets s" "sy_replies s' = P" "wallets (sy_world s') = wallets (sy_world s)" "ledgers (sy_world s') = ledgers (sy_world s)"
    using assms(2) tab by (auto simp: sys_actor_def split_beta Let_def)
  have "books c op (sy_world s')" using assms(1) same_tables_books [of "sy_world s" "sy_world s'"] s' by (simp add: sys_inv_parts same_tables_def)
  moreover have "own_copy i (sy_wallets s' i) (sy_world s')" for i
    using assms(1) s' by (simp add: sys_inv_parts own_copy_def coherent_def)
  ultimately show ?thesis using assms(3,4) s' by (simp add: sys_inv_parts)
qed

lemma sys_actor_fields [simp]:
  "sy_ta (sys_actor c ev s) = fst (ta_Receive c ev (sy_ta s) (sy_world s))" "sy_world (sys_actor c ev s) = snd (ta_Receive c ev (sy_ta s) (sy_world s))"
  by (simp_all add: sys_actor_def split_beta Let_def)

text \<open>The steps of the TransactionActor.\<close>

lemma actor_steps_inv:
  assumes "uuid_codec c" "sys_inv c op tid plan n s"
  shows "m < length (sy_replies s) \<Longrightarrow> sys_inv c op tid plan n (sys_step c msg (SysCollect m) s)"
    "sys_inv c op tid plan n (sys_step c msg (SysTick armed) s)" "sys_inv c op tid plan n (sys_step c msg SysFinalize s)"
    "ta_stage (sy_ta s) \<noteq> stageIdle \<Longrightarrow> sys_inv c op tid plan n (sys_actor c (StartTransaction m') s)"
proof -
  let ?t = "sy_ta s" and ?w = "sy_world s" and ?P = "sy_replies s"
  have ti: "tinv ?t" and tp: "txn_part c tid plan n ?t ?w ?P" using assms(2) by (simp_all add: sys_inv_parts)
  have keep: "s\<lparr>sy_replies := sy_replies s\<rparr> = s" by simp
  show "sys_inv c op tid plan n (sys_step c msg (SysCollect m) s)" if m: "m < length ?P"
  proof -
    have ni: "ta_stage ?t \<noteq> stageIdle" using tp m by (auto simp: txn_part_def)
    have "actor_inv c (set (reserved c plan n)) tid (map plan_core plan) ?t ?w (take m ?P @ ?P ! m # drop (Suc m) ?P)"
      using tp ni split_at [OF m] by (simp add: txn_part_def)
    from collect_inv [OF assms(1) ti ni this] have ai: "actor_inv c (set (reserved c plan n)) tid (map plan_core plan) (fst (collect c (?P ! m) ?t ?w)) (snd (collect c (?P ! m) ?t ?w)) (without m ?P)"
      by (simp add: without_def)
    have "ta_stage (fst (collect c (?P ! m) ?t ?w)) \<noteq> stageIdle"
      using Receive_rank [of ?t c "WalletResult (?P ! m)" ?w] ni by (cases "ta_stage ?t") auto
    then show ?thesis
      using m ai collect_tinv [OF ti] by (intro actor_step [OF assms(2), where ev = "WalletResult (?P ! m)" and P = "without m ?P"]) (simp_all add: txn_part_def)
  qed
  have idle: "tick c armed ?t ?w = (?t, ?w)" "finalize c ?t ?w = (?t, ?w)" if "ta_stage ?t = stageIdle"
    using that by (simp_all add: tick_def finalize_def working_def)
  have tck: "tinv (fst (tick c armed ?t ?w))" using Receive_tinv [OF ti, of c "Timeout armed" ?w] by (simp add: ok_event_def)
  have fin: "tinv (fst (finalize c ?t ?w))" using finalize_tinv [OF ti] .
  show "sys_inv c op tid plan n (sys_step c msg (SysTick armed) s)"
  proof (rule actor_step [OF assms(2), where ev = "Timeout armed" and P = ?P])
    show "txn_part c tid plan n (sy_ta (sys_step c msg (SysTick armed) s)) (sy_world (sys_step c msg (SysTick armed) s)) ?P"
    proof (cases "ta_stage ?t = stageIdle")
      case True
      with tp idle show ?thesis by simp
    next
      case False
      then have "ta_stage (fst (tick c armed ?t ?w)) \<noteq> stageIdle"
        using Receive_rank [of ?t c "Timeout armed" ?w] by (cases "ta_stage ?t") auto
      with False tp tick_inv [OF assms(1) ti, where w = ?w and armed = armed] show ?thesis by (simp add: txn_part_def)
    qed
  qed (simp_all add: tck)
  show "sys_inv c op tid plan n (sys_step c msg SysFinalize s)"
  proof (rule actor_step [OF assms(2), where ev = Finalize and P = ?P])
    show "txn_part c tid plan n (sy_ta (sys_step c msg SysFinalize s)) (sy_world (sys_step c msg SysFinalize s)) ?P"
    proof (cases "ta_stage ?t = stageIdle")
      case True
      with tp idle show ?thesis by simp
    next
      case False
      then have "ta_stage (fst (finalize c ?t ?w)) \<noteq> stageIdle"
        using Receive_rank [of ?t c Finalize ?w] by (cases "ta_stage ?t") auto
      with False tp finalize_inv [OF ti, where w = ?w and c = c] show ?thesis by (simp add: txn_part_def)
    qed
  qed (simp_all add: fin)
  show "sys_inv c op tid plan n (sys_actor c (StartTransaction m') s)" if ni: "ta_stage ?t \<noteq> stageIdle"
  proof (rule actor_step [OF assms(2), where ev = "StartTransaction m'" and P = ?P])
    have st: "ta_stage (fst (start c m' ?t ?w)) \<noteq> stageIdle"
      using Receive_rank [of ?t c "StartTransaction m'" ?w] ni by (cases "ta_stage ?t") auto
    show "tinv (sy_ta (sys_actor c (StartTransaction m') s))"
      using ni ti resend_tinv [OF ti] by (simp add: start_def split_beta Let_def)
    show "txn_part c tid plan n (sy_ta (sys_actor c (StartTransaction m') s)) (sy_world (sys_actor c (StartTransaction m') s)) ?P"
      using ni st tp redrive_inv [OF assms(1) ti ni, where w = ?w and msg = m'] by (simp add: txn_part_def)
  qed simp
qed

lemma start_step_inv:
  assumes "uuid_codec c" "sys_inv c op tid plan n s" "list_all good_leg plan" "distinct (reserved c plan n)"
    and "parse_uuid c (sm_TransactionId msg) = Some tid" "sm_Transfers msg = PlanToProto c plan" "\<not> sm_Resume msg"
  shows "sys_inv c op tid plan n (sys_step c msg SysStart s)"
proof (cases "ta_stage (sy_ta s) = stageIdle")
  case False
  with actor_steps_inv(4) [OF assms(1,2)] show ?thesis by simp
next
  case True
  let ?t = "sy_ta s" and ?w = "sy_world s"
  have ti: "tinv ?t" and tp: "ta_transactionID ?t = uuid_Nil \<or> ta_transactionID ?t = tid" "untouched_txn (set (reserved c plan (n_uuid ?w))) tid ?w" "sy_replies s = []" "n_uuid ?w = n"
    using assms(2) True by (auto simp: sys_inv_def)
  note si = start_inv [OF assms(1) True tp(1,2) assms(3) _ assms(5-7)]
  have "txn_part c tid plan n (fst (start c msg ?t ?w)) (snd (start c msg ?t ?w)) []"
    using si assms(4) tp by (auto simp: txn_part_def untouched_txn_def)
  moreover have "tinv (fst (start c msg ?t ?w))" using start_tinv [OF ti] good_entries [OF assms(1,3)] assms(6) by simp
  moreover have "s\<lparr>sy_replies := []\<rparr> = s" using tp(3) by (metis system.surjective system.update_convs(4))
  ultimately show ?thesis by (intro actor_step [OF assms(2), where ev = "StartTransaction msg" and P = "[]"]) simp_all
qed

text \<open>
  The steps outside the TransactionActor. They keep what the wallets' side promises and any slots' flows, leave the actor, the
  transaction rows and the drawn UUIDs alone, and stamp the ledger rows they add with the time of the day.
\<close>

definition wallet_side :: "ctx \<Rightarrow> (uuid \<Rightarrow> int) \<Rightarrow> system \<Rightarrow> bool" where
  "wallet_side c op s \<longleftrightarrow> books c op (sy_world s) \<and> (\<forall>i. own_copy i (sy_wallets s i) (sy_world s))"

definition aside :: "ctx \<Rightarrow> system \<Rightarrow> system \<Rightarrow> bool" where
  "aside c s s' \<longleftrightarrow> sy_ta s' = sy_ta s \<and> txns (sy_world s') = txns (sy_world s) \<and> n_uuid (sy_world s') = n_uuid (sy_world s) \<and>
     (ledgers (sy_world s') = ledgers (sy_world s) \<or> (\<exists>l. ledgers (sy_world s') = ledgers (sy_world s) @ [l] \<and> l_CreatedAt l = now c))"

abbreviation sys_flows :: "ctx \<Rightarrow> uuid set \<Rightarrow> uuid \<Rightarrow> (slot \<times> slot_state) list \<Rightarrow> system \<Rightarrow> bool" where
  "sys_flows c R tid A s \<equiv> flows c R tid A (ledgers (sy_world s)) (outbox (sy_world s)) (sy_replies s)"

lemma aside_refl [simp]: "aside c s s"
  by (simp add: aside_def)

lemma lose_flows:
  "m < length (outbox (sy_world s)) \<Longrightarrow> sys_flows c R tid A s \<Longrightarrow> sys_flows c R tid A (drop_request m s)"
  "m < length (sy_replies s) \<Longrightarrow> sys_flows c R tid A s \<Longrightarrow> sys_flows c R tid A (s\<lparr>sy_replies := without m (sy_replies s)\<rparr>)"
  using flows_lose(1) [of c R tid A "ledgers (sy_world s)" "take m (outbox (sy_world s))" "outbox (sy_world s) ! m"]
    flows_lose(2) [of c R tid A "ledgers (sy_world s)" "outbox (sy_world s)" "take m (sy_replies s)" "sy_replies s ! m"]
    split_at [of m "outbox (sy_world s)"] split_at [of m "sy_replies s"]
  by (simp_all add: without_def drop_request_def)

lemma lose_side:
  "wallet_side c op (drop_request m s) = wallet_side c op s" "aside c s (drop_request m s)"
  "wallet_side c op (s\<lparr>sy_replies := P\<rparr>) = wallet_side c op s" "aside c s (s\<lparr>sy_replies := P\<rparr>)"
  by (simp_all add: wallet_side_def aside_def drop_request_def books_def own_copy_def coherent_def)

lemma undeliverable_shape:
  assumes "m < length (outbox (sy_world s))"
  shows "\<exists>r. sys_step c msg (SysUndeliverable m) s = (drop_request m s)\<lparr>sy_replies := sy_replies s @ [r]\<rparr> \<and>
    rm_ErrorCode r = CodeUndeliverable \<and> rm_IdempotencyKey r = req_key (outbox (sy_world s) ! m)"
proof -
  obtain r where r: "DeadLetterHandler c True True None (DeadOp (snd (outbox (sy_world s) ! m))) = Answer r" "rm_ErrorCode r = CodeUndeliverable"
    "rm_IdempotencyKey r = req_key (outbox (sy_world s) ! m)"
    by (simp add: answerUndeliverable_def req_key_def)
  have "sys_step c msg (SysUndeliverable m) s = (drop_request m s)\<lparr>sy_replies := sy_replies s @ [r]\<rparr>"
    unfolding sys_step.simps r(1) using assms by (simp add: sys_answer_def drop_request_def)
  with r(2,3) show ?thesis by blast
qed

lemma undeliverable_flows:
  assumes "m < length (outbox (sy_world s))"
  shows "sys_flows c R tid A s \<Longrightarrow> sys_flows c R tid A (sys_step c msg (SysUndeliverable m) s)"
    "wallet_side c op s \<Longrightarrow> wallet_side c op (sys_step c msg (SysUndeliverable m) s)" "aside c s (sys_step c msg (SysUndeliverable m) s)"
proof -
  let ?Q = "outbox (sy_world s)"
  obtain r where r: "sys_step c msg (SysUndeliverable m) s = (drop_request m s)\<lparr>sy_replies := sy_replies s @ [r]\<rparr>"
    "rm_ErrorCode r = CodeUndeliverable" "rm_IdempotencyKey r = req_key (?Q ! m)"
    using undeliverable_shape [OF assms] by blast
  show "sys_flows c R tid A (sys_step c msg (SysUndeliverable m) s)" if "sys_flows c R tid A s"
  proof -
    have "flows c R tid A (ledgers (sy_world s)) (without m ?Q) (sy_replies s @ [r])"
      using flows_undeliverable [of c R tid A _ "take m ?Q" "?Q ! m", OF _ r(3,2)] that split_at [OF assms(1)] by (simp add: without_def)
    then show ?thesis unfolding r(1) by (simp add: drop_request_def)
  qed
  show "wallet_side c op (sys_step c msg (SysUndeliverable m) s)" if "wallet_side c op s"
    using that unfolding r(1) by (simp add: lose_side)
  show "aside c s (sys_step c msg (SysUndeliverable m) s)"
    unfolding r(1) by (simp add: aside_def drop_request_def)
qed

lemma wallet_copies:
  assumes "\<forall>i. own_copy i (a i) w" "own_copy i x w'" "\<forall>j. j \<noteq> i \<longrightarrow> wallets w' j = wallets w j"
  shows "\<forall>j. own_copy j ((a(i := x)) j) w'"
  using assms own_copy_elsewhere by (metis fun_upd_apply)

lemma deliver_flows:
  assumes "uuid_codec c" "quiet c" "wallet_side c op s" "sys_flows c R tid A s" "m < length (outbox (sy_world s))"
  shows "wallet_side c op (sys_step c msg (SysDeliver m) s) \<and> sys_flows c R tid A (sys_step c msg (SysDeliver m) s) \<and>
    aside c s (sys_step c msg (SysDeliver m) s)"
proof -
  let ?w = "sy_world s"
  let ?Q = "outbox ?w"
  define q where "q = ?Q ! m"
  define w1 where "w1 = ?w\<lparr>outbox := without m ?Q\<rparr>"
  obtain r a w2 where h: "wa_handle c (wallet_msg_action (snd q)) (wallet_msg_op (snd q)) (sy_wallets s (fst q)) w1 = (r, a, w2)" by (metis prod_cases3)
  have inv: "books c op w1" "\<forall>i. own_copy i (sy_wallets s i) w1"
    using assms(3) by (simp_all add: wallet_side_def w1_def books_def own_copy_def coherent_def)
  have fl: "flows c R tid A (ledgers w1) (take m ?Q @ q # drop (Suc m) ?Q) (sy_replies s)"
    using assms(4) split_at [OF assms(5)] by (simp add: w1_def q_def)
  then obtain p where p: "p \<in> set A" "req_key q = str_uuid c (sl_key (fst p))" by (auto simp: flows_def)
  have amt: "amount_ok (sl_amount (fst p))" using fl p(1) by (auto simp: flows_def)
  have req: "slot_request c (fst p) q" using slot_waiting(1) [OF flows_slot [OF fl p(1)] p(2)] by simp
  have parse: "parse_uuid c (wo_WalletId (wallet_msg_op (snd q))) = Some (fst q)" "is_int64 (wo_Amount (wallet_msg_op (snd q)))" "0 < wo_Amount (wallet_msg_op (snd q))"
    "parse_uuid c (wo_TransactionId (wallet_msg_op (snd q))) = Some (sl_txn (fst p))" "parse_uuid c (wo_IdempotencyKey (wallet_msg_op (snd q))) = Some (sl_key (fst p))"
    "fst q = sl_wallet (fst p)"
    using req amt by (simp_all add: slot_request_def uuid_codecD [OF assms(1)] amount_ok_def)
  have own: "own_copy (fst q) (sy_wallets s (fst q)) w1" using inv(2) by simp
  note wh = wallet_handles [OF assms(2) inv(1) own parse(1,2) h]
  have known: "\<not> Definitive (rm_ErrorCode r)" if "recorded (fst p) (ledgers w1)"
    using handle_known [OF parse(1,4,5,3) own _ h] that parse(6) by (simp add: recorded_def)
  have "flows c R tid A (ledgers w2) (without m ?Q) (sy_replies s @ [r])"
    using flows_handled [OF assms(1) fl p _ known] wh by (simp add: without_def)
  moreover have "outbox w2 = without m ?Q" "n_uuid w2 = n_uuid ?w" "txns w2 = txns ?w" using wh by (simp_all add: w1_def)
  moreover have "ledgers w2 = ledgers ?w \<or> (\<exists>l. ledgers w2 = ledgers ?w @ [l] \<and> l_CreatedAt l = now c)"
    using wh by (auto simp: handled_def w1_def)
  moreover have "sys_step c msg (SysDeliver m) s = s\<lparr>sy_wallets := (sy_wallets s)(fst q := a), sy_world := w2, sy_replies := sy_replies s @ [r]\<rparr>"
    using assms(5) h by (simp add: sys_answer_def sys_wallet_def drop_request_def q_def [symmetric] w1_def [symmetric])
  ultimately show ?thesis using wh wallet_copies [OF inv(2)] by (simp add: wallet_side_def aside_def)
qed

lemma foreign_flows:
  assumes "quiet c" "wallet_side c op s" "foreign_ok c rs tid (SysForeign i m)"
  shows "wallet_side c op (sys_step c msg (SysForeign i m) s) \<and> aside c s (sys_step c msg (SysForeign i m) s) \<and>
    sy_replies (sys_step c msg (SysForeign i m) s) = sy_replies s \<and>
    (sys_flows c (set rs) tid A s \<longrightarrow> sys_flows c (set rs) tid A (sys_step c msg (SysForeign i m) s)) \<and>
    (untouched_txn (set rs) tid (sy_world s) \<longrightarrow> untouched_txn (set rs) tid (sy_world (sys_step c msg (SysForeign i m) s)))"
proof -
  let ?w = "sy_world s" and ?m = "wallet_msg_op m"
  obtain r a w2 where h: "wa_handle c (wallet_msg_action m) ?m (sy_wallets s i) ?w = (r, a, w2)" by (metis prod_cases3)
  have f: "parse_uuid c (wo_WalletId ?m) = Some i" "is_int64 (wo_Amount ?m)" "parse_uuid c (wo_TransactionId ?m) \<noteq> Some tid"
    "\<And>k. parse_uuid c (wo_IdempotencyKey ?m) = Some k \<Longrightarrow> k \<notin> set rs"
    using assms(3) by (auto simp: foreign_ok_def)
  have inv: "books c op ?w" "\<forall>i. own_copy i (sy_wallets s i) ?w" using assms(2) by (simp_all add: wallet_side_def)
  have own: "own_copy i (sy_wallets s i) ?w" using inv(2) by simp
  note wh = wallet_handles [OF assms(1) inv(1) own f(1,2) h]
  have grow: "ledgers w2 = ledgers ?w \<or> (\<exists>l k. ledgers w2 = ledgers ?w @ [l] \<and> l_IdempotencyKey l = Some k \<and> k \<notin> set rs \<and> l_TransactionID l \<noteq> tid)"
    using wh f(3,4) by (auto simp: handled_def)
  have "ledgers w2 = ledgers ?w \<or> (\<exists>l. ledgers w2 = ledgers ?w @ [l] \<and> l_CreatedAt l = now c)" using wh by (auto simp: handled_def)
  moreover have "untouched_txn (set rs) tid ?w \<Longrightarrow> untouched_txn (set rs) tid w2" using wh grow by (auto simp: untouched_txn_def)
  moreover have "sys_step c msg (SysForeign i m) s = s\<lparr>sy_wallets := (sy_wallets s)(i := a), sy_world := w2\<rparr>"
    using h by (simp add: sys_wallet_def)
  ultimately show ?thesis
    using wh wallet_copies [OF inv(2)] flows_foreign [OF _ grow] by (auto simp: wallet_side_def aside_def)
qed

lemma activated_copy: "uuid_codec c \<Longrightarrow> own_copy i (activated c i w) w'"
  by (simp add: activated_def own_copy_def coherent_def copy_ok_def uuid_codecD NewWalletActor_def)

lemma passivate_side:
  "uuid_codec c \<Longrightarrow> wallet_side c op s \<Longrightarrow> wallet_side c op (sys_step c msg (SysPassivate i) s)" "aside c s (sys_step c msg (SysPassivate i) s)"
  using activated_copy by (simp_all add: wallet_side_def aside_def)

text \<open>The same of the invariant.\<close>

lemma aside_inv:
  assumes "sys_inv c op tid plan n s" "ta_stage (sy_ta s) \<noteq> stageIdle" "wallet_side c op s'" "aside c s s'"
    and "\<And>A. sys_flows c (set (reserved c plan n)) tid A s \<Longrightarrow> sys_flows c (set (reserved c plan n)) tid A s'"
  shows "sys_inv c op tid plan n s'"
  using assms by (auto simp: sys_inv_def actor_inv_def aside_def wallet_side_def)

lemma sys_inv_side: "sys_inv c op tid plan n s \<Longrightarrow> wallet_side c op s"
  by (simp add: sys_inv_def wallet_side_def)

lemma pending_not_idle:
  "sys_inv c op tid plan n s \<Longrightarrow> m < length (outbox (sy_world s)) \<or> m < length (sy_replies s) \<Longrightarrow> ta_stage (sy_ta s) \<noteq> stageIdle"
  by (auto simp: sys_inv_def untouched_txn_def)

lemma lose_steps_inv:
  assumes "sys_inv c op tid plan n s"
  shows "m < length (outbox (sy_world s)) \<Longrightarrow> sys_inv c op tid plan n (drop_request m s)"
    "m < length (sy_replies s) \<Longrightarrow> sys_inv c op tid plan n (s\<lparr>sy_replies := without m (sy_replies s)\<rparr>)"
  using pending_not_idle [OF assms, of m] sys_inv_side [OF assms]
  by (auto intro!: aside_inv [OF assms] lose_flows simp: lose_side)

lemma undeliverable_inv:
  assumes "sys_inv c op tid plan n s" "m < length (outbox (sy_world s))"
  shows "sys_inv c op tid plan n (sys_step c msg (SysUndeliverable m) s)"
proof -
  have "ta_stage (sy_ta s) \<noteq> stageIdle" using pending_not_idle [OF assms(1)] assms(2) by blast
  then show ?thesis
    by (rule aside_inv [OF assms(1) _ undeliverable_flows(2,3,1) [OF assms(2)]]) (use sys_inv_side [OF assms(1)] in simp_all)
qed

lemma deliver_inv:
  assumes "uuid_codec c" "quiet c" "sys_inv c op tid plan n s" "m < length (outbox (sy_world s))"
  shows "sys_inv c op tid plan n (sys_step c msg (SysDeliver m) s)"
proof -
  have ni: "ta_stage (sy_ta s) \<noteq> stageIdle" using pending_not_idle [OF assms(3)] assms(4) by blast
  then have "sys_flows c (set (reserved c plan n)) tid (all_slots tid (ta_stage (sy_ta s)) (ta_transfers (sy_ta s))) s"
    using assms(3) by (simp add: sys_inv_def actor_inv_def)
  note d = deliver_flows [OF assms(1,2) sys_inv_side [OF assms(3)] _ assms(4)]
  show ?thesis using aside_inv [OF assms(3) ni] d [OF \<open>sys_flows _ _ _ _ _\<close>] d by blast
qed

lemma foreign_inv:
  assumes "quiet c" "sys_inv c op tid plan n s" "foreign_ok c (reserved c plan n) tid (SysForeign i m)"
  shows "sys_inv c op tid plan n (sys_step c msg (SysForeign i m) s)"
proof (cases "ta_stage (sy_ta s) = stageIdle")
  case False
  with aside_inv [OF assms(2)] foreign_flows [OF assms(1) sys_inv_side [OF assms(2)] assms(3)] show ?thesis by blast
next
  case True
  with assms(2) foreign_flows [OF assms(1) sys_inv_side [OF assms(2)] assms(3), of msg "[]"] show ?thesis
    by (simp add: sys_inv_def wallet_side_def aside_def)
qed

lemma sys_step_inv:
  assumes "uuid_codec c" "quiet c" "list_all good_leg plan" "distinct (reserved c plan n)"
    and "parse_uuid c (sm_TransactionId msg) = Some tid" "sm_Transfers msg = PlanToProto c plan" "\<not> sm_Resume msg"
    and "foreign_ok c (reserved c plan n) tid ev" "sys_inv c op tid plan n s"
  shows "sys_inv c op tid plan n (sys_step c msg ev s)"
proof (cases ev)
  case SysStart
  with start_step_inv [OF assms(1,9,3-7)] show ?thesis by simp
next
  case (SysRedrive m)
  with assms(9) actor_steps_inv(4) [OF assms(1,9)] show ?thesis by simp
next
  case (SysDeliver m)
  show ?thesis
  proof (cases "m < length (outbox (sy_world s))")
    case True
    with SysDeliver deliver_inv [OF assms(1,2,9)] show ?thesis by simp
  qed (use SysDeliver assms(9) in simp)
next
  case (SysUndeliverable m)
  show ?thesis
  proof (cases "m < length (outbox (sy_world s))")
    case True
    with SysUndeliverable undeliverable_inv [OF assms(9)] show ?thesis by simp
  qed (use SysUndeliverable assms(9) in simp)
next
  case (SysLoseRequest m)
  with assms(9) lose_steps_inv(1) [OF assms(9)] show ?thesis by simp
next
  case (SysCollect m)
  show ?thesis
  proof (cases "m < length (sy_replies s)")
    case True
    with SysCollect actor_steps_inv(1) [OF assms(1,9) True] show ?thesis by simp
  qed (use SysCollect assms(9) in simp)
next
  case (SysLoseReply m)
  with assms(9) lose_steps_inv(2) [OF assms(9)] show ?thesis by simp
next
  case (SysTick armed)
  with actor_steps_inv(2) [OF assms(1,9)] show ?thesis by simp
next
  case SysFinalize
  with actor_steps_inv(3) [OF assms(1,9)] show ?thesis by simp
next
  case (SysPassivate i)
  with assms(9) activated_copy [OF assms(1)] show ?thesis by (simp add: sys_inv_def)
next
  case (SysForeign i m)
  with foreign_inv [OF assms(2,9)] assms(8) show ?thesis by simp
qed

lemma sys_run_inv:
  assumes "uuid_codec c" "quiet c" "list_all good_leg plan" "distinct (reserved c plan n)"
    and "parse_uuid c (sm_TransactionId msg) = Some tid" "sm_Transfers msg = PlanToProto c plan" "\<not> sm_Resume msg"
    and "list_all (foreign_ok c (reserved c plan n) tid) evs" "sys_inv c op tid plan n s"
  shows "sys_inv c op tid plan n (sys_run c msg evs s)"
  using assms(8,9) by (induction evs arbitrary: s) (simp_all add: sys_step_inv [OF assms(1-7)])

section \<open>The outcome\<close>

definition txn_net :: "uuid \<Rightarrow> uuid \<Rightarrow> system \<Rightarrow> int" where
  "txn_net tid i s = net i (filter (\<lambda>l. l_TransactionID l = tid) (ledgers (sy_world s)))"

text \<open>The abstract transfer: applied to every wallet, or to none.\<close>

definition applied_whole :: "uuid \<Rightarrow> transfer_leg list \<Rightarrow> system \<Rightarrow> bool" where
  "applied_whole tid plan s \<longleftrightarrow> (\<forall>i. txn_net tid i s = leg_net i plan)"

definition applied_not :: "uuid \<Rightarrow> system \<Rightarrow> bool" where
  "applied_not tid s \<longleftrightarrow> (\<forall>i. txn_net tid i s = 0)"

lemma leg_slots_net:
  "sum_list (map (\<lambda>p. slot_net i L (fst p)) (all_slots tid s trs)) =
    sum_list (map (\<lambda>tr. sum_list (map (\<lambda>p. slot_net i L (fst p)) (leg_slots tid s tr))) trs)"
  by (induction trs) (simp_all add: all_slots_def)

lemma leg_slot_ok:
  assumes "flows c R tid (all_slots tid s trs) L Q P" "tr \<in> set trs" "(sl, st) \<in> set (leg_slots tid s tr)"
  shows "slot_ok c sl st L Q P"
proof -
  have "(sl, st) \<in> set (all_slots tid s trs)" using assms(2,3) by (auto simp: all_slots_def)
  from flows_slot [OF assms(1) this] show ?thesis by simp
qed

lemma slot_won: "slot_ok c sl Won L Q P \<Longrightarrow> recorded sl L"
  by (simp add: slot_ok_def)

lemma won_net:
  assumes "flows c R tid (all_slots tid stageFinalized trs) L Q P" "tr \<in> set trs" "tr_applied tr" "tr_reversalKey tr = None"
  shows "sum_list (map (\<lambda>p. slot_net i L (fst p)) (leg_slots tid stageFinalized tr)) =
    (if tr_walletID tr = i then signed_amount (tr_action tr) (tr_amount tr) else 0)"
proof -
  have sl: "leg_slots tid stageFinalized tr = [(fwd_slot tid tr, Won)]" using assms(3,4) by (simp add: leg_slots_def rev_part_def fwd_state_def)
  have "recorded (fwd_slot tid tr) L" using slot_won leg_slot_ok [OF assms(1,2)] sl by (metis list.set_intros(1))
  then show ?thesis by (simp add: sl slot_net_def fwd_slot_def)
qed

lemma undone_net:
  assumes "flows c R tid (all_slots tid stageFinalized trs) L Q P" "tr \<in> set trs" "leg_undone tr" "tr_applied tr \<Longrightarrow> tr_reversed tr"
  shows "sum_list (map (\<lambda>p. slot_net i L (fst p)) (leg_slots tid stageFinalized tr)) = 0"
proof -
  note ok = leg_slot_ok [OF assms(1,2)]
  show ?thesis
  proof (cases "tr_applied tr")
    case False
    then have "tr_reversalKey tr = None" using assms(3) by (auto simp: leg_undone_def leg_rev_def)
    moreover have "\<not> recorded (fwd_slot tid tr) L"
      using False ok [of "fwd_slot tid tr" "fwd_state stageFinalized tr"] by (auto simp: leg_slots_def fwd_state_def slot_ok_def split: if_splits)
    ultimately show ?thesis by (simp add: leg_slots_def rev_part_def slot_net_def)
  next
    case True
    then obtain k where k: "tr_reversalKey tr = Some k" using assms(3) by (auto simp: leg_undone_def leg_rev_def)
    have sl: "leg_slots tid stageFinalized tr = [(fwd_slot tid tr, Won), (rev_slot tid tr k, Won)]"
      using True k assms(3,4) by (simp add: leg_slots_def rev_part_def fwd_state_def rev_state_def leg_undone_def)
    have "recorded (fwd_slot tid tr) L" "recorded (rev_slot tid tr k) L" using slot_won ok sl by (metis list.set_intros)+
    then show ?thesis by (simp add: sl slot_net_def fwd_slot_def rev_slot_def signed_Opposite)
  qed
qed

lemma cores_net:
  assumes "map leg_core trs = map plan_core plan"
  shows "sum_list (map (\<lambda>tr. if tr_walletID tr = i then signed_amount (tr_action tr) (tr_amount tr) else 0) trs) = leg_net i plan"
proof -
  let ?g = "\<lambda>(w, a, n, k :: uuid). if w = i then signed_amount a n else 0"
  have "sum_list (map ?g (map leg_core trs)) = sum_list (map ?g (map plan_core plan))" by (simp only: assms)
  moreover have "sum_list (map ?g (map plan_core plan)) = leg_net i plan" by (induction plan) (simp_all add: plan_core_def)
  ultimately show ?thesis by (simp add: leg_core_def comp_def)
qed

lemma finalized_net:
  assumes "sys_inv c op tid plan n s" "ta_stage (sy_ta s) = stageFinalized"
  shows "\<not> anyFailed (sy_ta s) \<Longrightarrow> applied_whole tid plan s" "anyFailed (sy_ta s) \<Longrightarrow> \<not> unreconciled (sy_ta s) \<Longrightarrow> applied_not tid s"
proof -
  let ?t = "sy_ta s" and ?L = "ledgers (sy_world s)"
  have set: "settled ?t" and bk: "books c op (sy_world s)" and cores: "map leg_core (ta_transfers ?t) = map plan_core plan"
    and fl: "flows c (set (reserved c plan n)) tid (all_slots tid stageFinalized (ta_transfers ?t)) ?L (outbox (sy_world s)) (sy_replies s)"
    using assms by (auto simp: sys_inv_def tinv_def actor_inv_def)
  have net: "txn_net tid i s = sum_list (map (\<lambda>tr. sum_list (map (\<lambda>p. slot_net i ?L (fst p)) (leg_slots tid stageFinalized tr))) (ta_transfers ?t))" for i
    unfolding txn_net_def leg_slots_net [symmetric] by (rule flows_net [OF fl]) (use bk in \<open>simp add: books_def\<close>)
  show "applied_whole tid plan s" if "\<not> anyFailed ?t"
  proof -
    have won: "tr_applied tr \<and> tr_reversalKey tr = None" if "tr \<in> set (ta_transfers ?t)" for tr
      using set that \<open>\<not> anyFailed ?t\<close> by (auto simp: settled_def leg_won_def list_all_iff)
    have "txn_net tid i s = leg_net i plan" for i
      unfolding net cores_net [OF cores, symmetric] by (intro arg_cong [of _ _ sum_list] map_cong refl won_net [OF fl]) (use won in auto)
    then show ?thesis by (simp add: applied_whole_def)
  qed
  show "applied_not tid s" if "anyFailed ?t" "\<not> unreconciled ?t"
  proof -
    have und: "leg_undone tr \<and> (tr_applied tr \<longrightarrow> tr_reversed tr)" if "tr \<in> set (ta_transfers ?t)" for tr
      using set that \<open>anyFailed ?t\<close> \<open>\<not> unreconciled ?t\<close> by (auto simp: settled_def list_all_iff unreconciled_def list_ex_iff final_status_anyFailed)
    have "txn_net tid i s = sum_list (map (\<lambda>tr. 0) (ta_transfers ?t))" for i
      unfolding net by (intro arg_cong [of _ _ sum_list] map_cong refl undone_net [OF fl]) (use und in auto)
    then show ?thesis by (simp add: applied_not_def)
  qed
qed

text \<open>
  The beginning of a transaction: a new TransactionActor, freshly activated WalletActors, right books, and nothing of the transaction
  anywhere. The UUIDs of the plan and those drawn for its reversals are pairwise different and not in use.
\<close>

definition sys_fresh :: "ctx \<Rightarrow> (uuid \<Rightarrow> int) \<Rightarrow> uuid \<Rightarrow> transfer_leg list \<Rightarrow> system \<Rightarrow> bool" where
  "sys_fresh c op tid plan s \<longleftrightarrow> sy_ta s = NewTransactionActor \<and> sy_wallets s = (\<lambda>i. activated c i (sy_world s)) \<and> sy_replies s = [] \<and>
     books c op (sy_world s) \<and> list_all good_leg plan \<and> distinct (reserved c plan (n_uuid (sy_world s))) \<and>
     untouched_txn (set (reserved c plan (n_uuid (sy_world s)))) tid (sy_world s)"

definition start_of :: "ctx \<Rightarrow> uuid \<Rightarrow> transfer_leg list \<Rightarrow> StartTransactionMsg \<Rightarrow> bool" where
  "start_of c tid plan msg \<longleftrightarrow> parse_uuid c (sm_TransactionId msg) = Some tid \<and> sm_Transfers msg = PlanToProto c plan \<and> \<not> sm_Resume msg"

lemma fresh_inv:
  assumes "uuid_codec c" "sys_fresh c op tid plan s"
  shows "sys_inv c op tid plan (n_uuid (sy_world s)) s"
proof -
  have "own_copy i (sy_wallets s i) (sy_world s)" for i using assms activated_copy [OF assms(1)] by (simp add: sys_fresh_def)
  then show ?thesis using assms(2) tinv_new by (auto simp: sys_inv_def sys_fresh_def) (simp_all add: NewTransactionActor_def)
qed

text \<open>
  Claim C1. A transaction is all or nothing, as far as the money is concerned. The TransactionActor, the WalletActors and the
  database together implement the abstract transfer: for every order in which requests and replies arrive, with lost messages, dead
  letters, ticks, re-drives of the running actor, stopped and reactivated wallets, requests of other transactions in between and database
  failures anywhere, the books stay right, and once the transaction is finalized its ledger rows amount to the whole plan on every wallet
  if it is recorded as successful; if it is recorded as failed they amount to nothing on every wallet, unless it is flagged for
  reconciliation.
\<close>

theorem all_or_nothing:
  assumes "uuid_codec c" "quiet c" "sys_fresh c op0 tid plan s0" "start_of c tid plan msg"
    and "list_all (foreign_ok c (reserved c plan (n_uuid (sy_world s0))) tid) evs"
  shows "let s = sys_run c msg evs s0 in books c op0 (sy_world s) \<and>
    (ta_stage (sy_ta s) = stageFinalized \<longrightarrow>
      fst (final_status (sy_ta s)) = TransactionStatusSuccess \<and> applied_whole tid plan s \<or>
      fst (final_status (sy_ta s)) = TransactionStatusFailed \<and> (applied_not tid s \<or> unreconciled (sy_ta s)))"
proof -
  let ?s = "sys_run c msg evs s0" and ?n = "n_uuid (sy_world s0)"
  have inv: "sys_inv c op0 tid plan ?n ?s"
    using sys_run_inv [OF assms(1,2) _ _ _ _ _ assms(5)] fresh_inv [OF assms(1,3)] assms(3,4) by (simp add: sys_fresh_def start_of_def)
  have "books c op0 (sy_world ?s)" using inv by (simp add: sys_inv_def)
  then show ?thesis using finalized_net [OF inv] by (auto simp: Let_def final_status_anyFailed)
qed

text \<open>Two wallets and a pending transaction; a transfer of 200 from wallet 1 to wallet \<open>j\<close>.\<close>

definition demo_pair_world :: world where
  "demo_pair_world = empty_world\<lparr>wallets := [1 \<mapsto> demo_wallet, 2 \<mapsto> demo_wallet\<lparr>w_ID := 2, w_Checksum := []\<rparr>], txns := [demo_tx]\<rparr>"

definition demo_transfer :: "uuid \<Rightarrow> transfer_leg list" where
  "demo_transfer j =
    [\<lparr>tl_WalletID = 1, tl_Action = LedgerTypeDebit, tl_Amount = 200, tl_Purpose = ''pay'', tl_IsFee = False, tl_IsInitial = True,
      tl_IdempotencyKey = 42, tl_ReversalKey = None\<rparr>,
     \<lparr>tl_WalletID = j, tl_Action = LedgerTypeCredit, tl_Amount = 200, tl_Purpose = ''receive'', tl_IsFee = False, tl_IsInitial = True,
      tl_IdempotencyKey = 43, tl_ReversalKey = None\<rparr>]"

definition demo_transfer_start :: "uuid \<Rightarrow> StartTransactionMsg" where
  "demo_transfer_start j = \<lparr>sm_TransactionId = ''7'', sm_CreatedAtUnix = 0, sm_Transfers = PlanToProto demo_ctx (demo_transfer j), sm_Resume = False\<rparr>"

definition demo_system :: system where
  "demo_system = \<lparr>sy_ta = NewTransactionActor, sy_wallets = (\<lambda>i. activated demo_ctx i demo_pair_world), sy_world = demo_pair_world, sy_replies = []\<rparr>"

text \<open>The first delivery of the debit becomes a dead letter and is repeated; for wallet 3, which does not exist, the debit is undone.\<close>

definition demo_steps :: "sys_event list" where
  "demo_steps = [SysStart, SysUndeliverable 0, SysCollect 0, SysTick 1, SysDeliver 0, SysCollect 0, SysPassivate 1, SysDeliver 0, SysCollect 0]"

definition demo_reversal_steps :: "sys_event list" where
  "demo_reversal_steps = demo_steps @ [SysDeliver 0, SysCollect 0]"

lemma demo_pair_books: "books demo_ctx demo_opening demo_pair_world"
  by (simp add: books_def demo_pair_world_def empty_world_def demo_opening_def wallet_ok_def net_def unique_keys_def MaxInt64_def)

lemma demo_fresh: "sys_fresh demo_ctx demo_opening 7 (demo_transfer j) demo_system"
  using demo_pair_books
  by (simp add: sys_fresh_def demo_system_def demo_transfer_def good_leg_def amount_ok_def reserved_def untouched_txn_def
      is_int64_def MinInt64_def MaxInt64_def) (simp add: demo_pair_world_def empty_world_def demo_ctx_def)

lemma demo_start_of: "start_of demo_ctx 7 (demo_transfer j) (demo_transfer_start j)"
  by (simp add: start_of_def demo_transfer_start_def)

lemma demo_success: "ta_stage (sy_ta (sys_run demo_ctx (demo_transfer_start 2) (demo_steps @ [SysFinalize]) demo_system)) = stageFinalized \<and>
    \<not> anyFailed (sy_ta (sys_run demo_ctx (demo_transfer_start 2) (demo_steps @ [SysFinalize]) demo_system))"
  by code_simp

lemma demo_failure: "ta_stage (sy_ta (sys_run demo_ctx (demo_transfer_start 3) (demo_reversal_steps @ [SysFinalize]) demo_system)) = stageFinalized \<and>
    anyFailed (sy_ta (sys_run demo_ctx (demo_transfer_start 3) (demo_reversal_steps @ [SysFinalize]) demo_system)) \<and>
    \<not> unreconciled (sy_ta (sys_run demo_ctx (demo_transfer_start 3) (demo_reversal_steps @ [SysFinalize]) demo_system))"
  by code_simp

theorem all_or_nothing_witness:
  "applied_whole 7 (demo_transfer 2) (sys_run demo_ctx (demo_transfer_start 2) (demo_steps @ [SysFinalize]) demo_system) \<and>
   applied_not 7 (sys_run demo_ctx (demo_transfer_start 3) (demo_reversal_steps @ [SysFinalize]) demo_system)"
proof -
  have ev: "list_all (foreign_ok demo_ctx (reserved demo_ctx (demo_transfer j) n) 7) (demo_steps @ [SysFinalize])"
    "list_all (foreign_ok demo_ctx (reserved demo_ctx (demo_transfer j) n) 7) (demo_reversal_steps @ [SysFinalize])" for j n
    by (simp_all add: demo_reversal_steps_def demo_steps_def foreign_ok_def)
  note aon = all_or_nothing [OF demo_codec demo_quiet demo_fresh demo_start_of]
  show ?thesis using aon [OF ev(1), of 2] aon [OF ev(2), of 3] demo_success demo_failure
    by (simp add: Let_def final_status_anyFailed)
qed

end
