(* ===== verification/Resumption.thy ===== *)
theory Resumption
  imports Settlement Recovery
begin

text \<open>
  A TransactionActor that dies and is replaced. \<open>life_step\<close> extends the system of \<open>Settlement\<close> by two events: \<open>Crash\<close> loses the actor with
  everything it knows and the replies on their way to it; \<open>Resume\<close> hands the re-drive message that the recovery
  makes of the stored row to the new, idle actor, which reads its progress from the ledger. Between the two, wallets go on
  handling the requests of the dead actor; \<open>Resume\<close> finds them handled or lost. Both may happen any number of times.

  The plan in the row is what connects the two lives. \<open>crash_safe\<close>: if at every crash the row holds the plan the actor had, with
  its reversal keys, the transaction is all or nothing whatever happens in between. \<open>lost_plan_write_moves_money\<close>: a run in which
  the one write of the reversal keys failed, and that ends as a success with money created.
\<close>

section \<open>The system with crashes\<close>

datatype life_event = Act sys_event | Crash | Resume

text \<open>The re-drive message for the stored transaction: that of an incomplete row with a readable plan.\<close>

definition redrive_of :: "ctx \<Rightarrow> uuid \<Rightarrow> world \<Rightarrow> StartTransactionMsg option" where
  "redrive_of c tid w =
     (case find (\<lambda>r. tx_ID r = tid) (txns w) of
        None \<Rightarrow> None
      | Some tx \<Rightarrow>
          if tx_IsCompleted tx \<or> tx_CreatedAt tx > now c then None
          else map_option (resume_message c tx) (DecodePlan c (tx_Transfers tx)))"

text \<open>What still happens while no actor is there: the answers to its requests are lost, and the start message is not repeated.\<close>

definition orphan_step :: "ctx \<Rightarrow> StartTransactionMsg \<Rightarrow> sys_event \<Rightarrow> system \<Rightarrow> system" where
  "orphan_step c msg ev s = (if ev = SysStart then s else (sys_step c msg ev s)\<lparr>sy_replies := []\<rparr>)"

text \<open>The flag says that an actor of the transaction has died.\<close>

fun life_step :: "ctx \<Rightarrow> uuid \<Rightarrow> StartTransactionMsg \<Rightarrow> life_event \<Rightarrow> bool \<times> system \<Rightarrow> bool \<times> system" where
  "life_step c tid msg (Act ev) (crashed, s) =
     (crashed, if crashed \<and> ta_stage (sy_ta s) = stageIdle then orphan_step c msg ev s else sys_step c msg ev s)"
| "life_step c tid msg Crash (crashed, s) =
     (if ta_stage (sy_ta s) = stageIdle then (crashed, s)
      else (True, s\<lparr>sy_ta := NewTransactionActor, sy_replies := []\<rparr>))"
| "life_step c tid msg Resume (crashed, s) =
     (if crashed \<and> ta_stage (sy_ta s) = stageIdle \<and> outbox (sy_world s) = []
      then (case redrive_of c tid (sy_world s) of
              None \<Rightarrow> (crashed, s)
            | Some m \<Rightarrow> (crashed, sys_actor c (StartTransaction m) s))
      else (crashed, s))"

fun life_run :: "ctx \<Rightarrow> uuid \<Rightarrow> StartTransactionMsg \<Rightarrow> life_event list \<Rightarrow> bool \<times> system \<Rightarrow> bool \<times> system" where
  "life_run c tid msg [] x = x"
| "life_run c tid msg (ev # evs) x = life_run c tid msg evs (life_step c tid msg ev x)"

text \<open>The stored plan, where there is one, is \<open>p\<close>.\<close>

definition stores :: "ctx \<Rightarrow> uuid \<Rightarrow> transfer_leg list \<Rightarrow> world \<Rightarrow> bool" where
  "stores c tid p w =
     (case find (\<lambda>r. tx_ID r = tid) (txns w) of
        None \<Rightarrow> True
      | Some tx \<Rightarrow> (case DecodePlan c (tx_Transfers tx) of None \<Rightarrow> True | Some q \<Rightarrow> q = p))"

fun crashes_covered :: "ctx \<Rightarrow> uuid \<Rightarrow> StartTransactionMsg \<Rightarrow> life_event list \<Rightarrow> bool \<times> system \<Rightarrow> bool" where
  "crashes_covered c tid msg [] x = True"
| "crashes_covered c tid msg (ev # evs) x \<longleftrightarrow>
     (ev = Crash \<and> ta_stage (sy_ta (snd x)) \<noteq> stageIdle \<longrightarrow> stores c tid (map plan_entry (ta_transfers (sy_ta (snd x)))) (sy_world (snd x))) \<and>
     crashes_covered c tid msg evs (life_step c tid msg ev x)"

section \<open>What a crash must not find\<close>

text \<open>
  A leg that failed has not applied, so that a transaction in its reversals has a leg without a reversal key; and as long as no leg has a
  reversal key, no UUID has been drawn for one.
\<close>

definition unmixed :: "transfer \<Rightarrow> bool" where "unmixed tr \<longleftrightarrow> (tr_failCode tr \<noteq> [] \<longrightarrow> \<not> tr_applied tr)"

definition keyless :: "transfer list \<Rightarrow> bool" where "keyless trs \<longleftrightarrow> list_all (\<lambda>tr. tr_reversalKey tr = None) trs"

definition tidy :: "nat \<Rightarrow> tactor \<Rightarrow> world \<Rightarrow> bool" where
  "tidy n t w \<longleftrightarrow> list_all unmixed (ta_transfers t) \<and> (keyless (ta_transfers t) \<longrightarrow> n_uuid w = n)"

definition same_marks :: "transfer \<Rightarrow> transfer \<Rightarrow> bool" where
  "same_marks tr tr' \<longleftrightarrow> tr_failCode tr' = tr_failCode tr \<and> tr_applied tr' = tr_applied tr \<and> tr_reversalKey tr' = tr_reversalKey tr"

lemma same_marks_basic [simp]:
  "same_marks tr tr" "same_marks tr (fst (try_send c t a k tr w))" "same_marks tr (fst (send_reversal c t tr w))"
  "same_marks tr (tr\<lparr>tr_done := d, tr_retry := b\<rparr>)" "same_marks tr (tr\<lparr>tr_done := d\<rparr>)"
  by (simp_all add: same_marks_def try_send_leg send_reversal_def split: option.split)

lemma same_marks_tidy:
  assumes "list_all2 same_marks trs trs'"
  shows "list_all unmixed trs' = list_all unmixed trs" "keyless trs' = keyless trs"
  using assms by (induction rule: list_all2_induct) (simp_all add: same_marks_def unmixed_def keyless_def)

lemma tidy_frame:
  "list_all2 same_marks (ta_transfers t) (ta_transfers t') \<Longrightarrow> n_uuid w' = n_uuid w \<Longrightarrow> tidy n t w \<Longrightarrow> tidy n t' w'"
  using same_marks_tidy by (simp add: tidy_def)

lemma marks_refl [simp]: "list_all2 same_marks trs trs"
  by (simp add: list_all2_same)

lemma marks_loops:
  "list_all2 same_marks (ta_transfers t) (ta_transfers (fst (fireLegs c t w)))"
  "list_all2 same_marks (ta_transfers t) (ta_transfers (fst (snd (resendPending c t w))))"
  unfolding fireLegs_def resendPending_def fst_conv snd_conv for_legs_frame
  by (rule each_leg_rel; simp split: option.split)+

lemma persistPlan_uuid: "n_uuid (persistPlan c t w) = n_uuid w"
  by (simp add: persistPlan_def db_call_def update_txns_def Let_def split: fault.split)

lemma give_key_tidy:
  "keyless (fst (each_leg (give_key c) trs w)) \<Longrightarrow> snd (each_leg (give_key c) trs w) = w \<and> keyless trs"
  "list_all unmixed trs \<Longrightarrow> list_all unmixed (fst (each_leg (give_key c) trs w))"
  by (induction trs arbitrary: w) (auto simp: keyless_def unmixed_def fresh_reversal_key_def split_beta Let_def split: if_splits)

lemma fireReversals_tidy:
  assumes "tidy n t w"
  shows "tidy n (fst (fireReversals c t w)) (snd (fireReversals c t w))"
proof -
  let ?g = "each_leg (give_key c) (ta_transfers t) w"
  define t1 where "t1 = fst (for_legs (give_key c) (t\<lparr>ta_stage := stageReversing, ta_ticks := 0\<rparr>) w)"
  let ?f = "\<lambda>tr w. if \<not> tr_applied tr then (tr\<lparr>tr_done := True, tr_retry := False\<rparr>, w) else send_reversal c t1 tr w"
  have fr: "ta_transfers (fst (fireReversals c t w)) = fst (each_leg ?f (fst ?g) (persistPlan c t1 (snd ?g)))"
    "snd (fireReversals c t w) = snd (each_leg ?f (fst ?g) (persistPlan c t1 (snd ?g)))"
    unfolding fireReversals_def t1_def by (simp_all add: split_beta Let_def)
  have m: "list_all2 same_marks (fst ?g) (ta_transfers (fst (fireReversals c t w)))" unfolding fr by (rule each_leg_rel) simp
  have "n_uuid (snd (send_reversal c t1 tr v)) = n_uuid v" for tr v by (simp add: send_reversal_def split: option.split)
  then have nu: "n_uuid (snd (fireReversals c t w)) = n_uuid (snd ?g)" unfolding fr by (subst each_leg_world) (simp_all add: persistPlan_uuid)
  show ?thesis unfolding tidy_def nu same_marks_tidy [OF m]
  proof (intro conjI impI)
    show "list_all unmixed (fst ?g)" by (rule give_key_tidy(2)) (use assms in \<open>simp add: tidy_def\<close>)
    show "n_uuid (snd ?g) = n" if "keyless (fst ?g)" using give_key_tidy(1) [OF that] assms by (simp add: tidy_def)
  qed
qed

lemma advance_tidy:
  assumes "tidy n t w"
  shows "tidy n (fst (advance c t w)) (snd (advance c t w))"
proof -
  have fin: "tidy n t (send_finalize c t' w) = tidy n t w" for t t' w by (simp add: tidy_def)
  have "tidy n (fst (fireCredits c t w)) (snd (fireCredits c t w))"
    by (rule tidy_frame [OF _ _ assms])
      (use marks_loops(1) [of "t\<lparr>ta_stage := stageCrediting, ta_ticks := 0\<rparr>" c w] in \<open>simp_all add: fireCredits_def split_beta Let_def\<close>)
  then show ?thesis using assms fireReversals_tidy [OF assms, of c] by (auto simp: advance_def split_beta Let_def fin)
qed

lemma collect_tidy:
  assumes "uuid_codec c" "tinv t" "actor_inv c R tid cores t w (P1 @ r # P2)" "tidy n t w"
  shows "tidy n (fst (collect c r t w)) (snd (collect c r t w))"
proof (cases "working t")
  case False
  with assms(4) show ?thesis by (simp add: collect_def)
next
  case True
  have rd: "ready t" using tinv_ready [OF assms(2) True] .
  show ?thesis
  proof (cases "match_leg (\<lambda>tr. inFlightKey c (ta_stage t) tr = rm_IdempotencyKey r) (ta_transfers t)")
    case None
    with True advance_tidy [OF assms(4)] show ?thesis by (simp add: collect_def)
  next
    case (Some i)
    note i = match_leg_bound [OF Some]
    let ?tr = "ta_transfers t ! i"
    have "actor_flows c R tid t w (P1 @ r # P2)" using assms(3) by (simp add: actor_inv_def)
    note fl = collect_leg_flows [OF rd conjunct1 [OF i] conjunct2 [OF i] this]
    have nd: "\<not> tr_done ?tr" and sw: "snd (collect_leg c r i t w) = w" using fl by blast+
    have leg: "ta_stage t \<noteq> stageReversing \<Longrightarrow> leg_fwd ?tr"
      using rd i by (auto simp: ready_def list_all_length split: stage.splits)
    have un: "unmixed ?tr" using assms(4) i by (simp add: tidy_def list_all_length)
    define x where "x = ta_transfers (fst (collect_leg c r i t w)) ! i"
    have x: "ta_transfers (fst (collect_leg c r i t w)) = (ta_transfers t)[i := x]" "unmixed x" "tr_reversalKey x = tr_reversalKey ?tr"
      using nd i un leg by (auto simp: x_def collect_leg_def Let_def unmixed_def leg_fwd_def)
    have "keyless ((ta_transfers t)[i := x]) = keyless (ta_transfers t)"
    proof -
      have "map tr_reversalKey ((ta_transfers t)[i := x]) = map tr_reversalKey (ta_transfers t)"
        using x(3) i by (simp add: map_update list_update_same_conv)
      then have "list_all (\<lambda>k. k = None) (map tr_reversalKey ((ta_transfers t)[i := x])) = list_all (\<lambda>k. k = None) (map tr_reversalKey (ta_transfers t))" by simp
      then show ?thesis by (simp add: keyless_def list.pred_map comp_def)
    qed
    moreover have "list_all unmixed ((ta_transfers t)[i := x])"
      using assms(4) x(2) set_update_subset_insert [of "ta_transfers t" i x] by (auto simp: tidy_def list_all_iff)
    ultimately have "tidy n (fst (collect_leg c r i t w)) w" using assms(4) by (simp add: tidy_def x(1))
    from advance_tidy [OF this] True Some show ?thesis by (simp add: collect_def split_beta Let_def sw)
  qed
qed

lemma finalize_uuid: "n_uuid (snd (finalize c t w)) = n_uuid w"
proof -
  have fw: "n_uuid (snd (final_write c t s x w)) = n_uuid w" for t s x w
    by (simp add: final_write_def db_call_def update_txns_def markReversed_def split_beta Let_def split: fault.split option.split)
  have fa: "n_uuid (snd (final_attempts c t s x a k w)) = n_uuid w" for t s x a k w
  proof (induction k arbitrary: a w)
    case (Suc k)
    obtain r w1 where "final_write c t s x w = (r, w1)" by fastforce
    with Suc fw [of t s x w] show ?case by (cases r) simp_all
  qed simp
  have al: "n_uuid (alreadyFinal c t s b w) = n_uuid w" for t s b w
    by (simp add: alreadyFinal_def db_call_def Notify_def cache_Delete_def Let_def split: fault.split option.split)
  show ?thesis
    by (simp add: finalize_def split_beta Let_def Poison_def Notify_def cache_Delete_def fa al split: option.split)
qed

lemma actor_tidy:
  assumes "tidy n t w"
  shows "tidy n (fst (tick c armed t w)) (snd (tick c armed t w))" "tidy n (fst (finalize c t w)) (snd (finalize c t w))"
    "ta_stage t \<noteq> stageIdle \<Longrightarrow> tidy n (fst (start c m t w)) (snd (start c m t w))"
proof -
  have re: "tidy n (fst (snd (resendPending c x w))) (snd (snd (resendPending c x w)))" if "ta_transfers x = ta_transfers t" for x
    by (rule tidy_frame [OF _ _ assms]) (use marks_loops(2) [of x c w] that in simp_all)
  have frame: "tidy n (armTimeout x) (heartbeat c y v) = tidy n x v" "tidy n x (heartbeat c y v) = tidy n x v" "tidy n (armTimeout x) v = tidy n x v" for x y v
    by (simp_all add: tidy_def)
  show "tidy n (fst (tick c armed t w)) (snd (tick c armed t w))"
    using assms re [of "t\<lparr>ta_ticks := ta_ticks t + 1\<rparr>"] by (simp add: tick_def split_beta Let_def frame)
  show "tidy n (fst (start c m t w)) (snd (start c m t w))" if "ta_stage t \<noteq> stageIdle"
    using assms re [of t] that by (simp add: start_def split_beta Let_def frame)
  have "ta_transfers (fst (finalize c t w)) = ta_transfers t" by (simp add: finalize_def split_beta Let_def)
  then show "tidy n (fst (finalize c t w)) (snd (finalize c t w))" using assms by (simp add: tidy_def finalize_uuid)
qed

lemma new_tidy: "list_all leg_new trs \<Longrightarrow> list_all unmixed trs"
  by (auto simp: list_all_iff leg_new_def unmixed_def)

lemma start_tidy:
  assumes "list_all (ok_entry c) (sm_Transfers msg)" "ta_stage t = stageIdle" "\<not> sm_Resume msg" "n_uuid w = n"
    and "ta_stage (fst (start c msg t w)) \<noteq> stageIdle"
  shows "tidy n (fst (start c msg t w)) (snd (start c msg t w))"
proof -
  obtain trs where trs: "loadTransfers c (sm_Transfers msg) = (True, trs)" "list_all leg_new trs"
    using loadTransfers_new [OF assms(1)] by (cases "loadTransfers c (sm_Transfers msg)") auto
  have base: "tidy n x v" if "ta_transfers x = trs" "n_uuid v = n" for x v using that new_tidy [OF trs(2)] by (simp add: tidy_def)
  have go: "tidy n (fst (advance c (armTimeout (fst (fireLegs c x v))) (snd (fireLegs c x v)))) (snd (advance c (armTimeout (fst (fireLegs c x v))) (snd (fireLegs c x v))))"
    if "ta_transfers x = trs" "n_uuid v = n" for x v
    by (rule advance_tidy, rule tidy_frame [OF _ _ base [OF that]]) (use marks_loops(1) [of x c v] that in simp_all)
  have nu: "n_uuid (snd (update_txns P f (snd (db_call c w)))) = n" for P f using assms(4) by (simp add: update_txns_def db_call_def)
  show ?thesis using assms(2,3,5)
    by (auto simp: start_def trs(1) split_beta Let_def nu intro!: go split: option.splits if_splits fault.splits)
qed

section \<open>While the actor lives\<close>

definition stamped :: "ctx \<Rightarrow> uuid \<Rightarrow> world \<Rightarrow> bool" where
  "stamped c tid w \<longleftrightarrow> (\<forall>l \<in> set (ledgers w). l_TransactionID l = tid \<longrightarrow> l_CreatedAt l = now c)"

definition live_inv :: "ctx \<Rightarrow> (uuid \<Rightarrow> int) \<Rightarrow> uuid \<Rightarrow> transfer_leg list \<Rightarrow> nat \<Rightarrow> system \<Rightarrow> bool" where
  "live_inv c op tid plan n s \<longleftrightarrow> sys_inv c op tid plan n s \<and> stamped c tid (sy_world s) \<and>
     (ta_stage (sy_ta s) \<noteq> stageIdle \<longrightarrow> tidy n (sy_ta s) (sy_world s))"

definition outside :: "sys_event \<Rightarrow> bool" where
  "outside ev = (case ev of SysDeliver _ \<Rightarrow> True | SysUndeliverable _ \<Rightarrow> True | SysLoseRequest _ \<Rightarrow> True | SysLoseReply _ \<Rightarrow> True
     | SysPassivate _ \<Rightarrow> True | SysForeign _ _ \<Rightarrow> True | _ \<Rightarrow> False)"

lemma outside_step:
  assumes "uuid_codec c" "quiet c" "wallet_side c op s" "foreign_ok c rs tid ev" "outside ev" "sys_flows c (set rs) tid A s"
  shows "wallet_side c op (sys_step c msg ev s) \<and> aside c s (sys_step c msg ev s) \<and> sys_flows c (set rs) tid A (sys_step c msg ev s)"
proof (cases ev)
  case (SysDeliver m)
  then show ?thesis using assms(3,6) deliver_flows [OF assms(1-3,6)] by (cases "m < length (outbox (sy_world s))") auto
next
  case (SysUndeliverable m)
  show ?thesis
  proof (cases "m < length (outbox (sy_world s))")
    case True
    then show ?thesis unfolding SysUndeliverable using undeliverable_flows [OF True] assms(3,6) by blast
  next
    case False
    then show ?thesis using SysUndeliverable assms(3,6) by simp
  qed
next
  case (SysLoseRequest m)
  then show ?thesis using assms(3,6) lose_flows(1) [of m s c "set rs" tid A]
    by (cases "m < length (outbox (sy_world s))") (simp_all add: lose_side)
next
  case (SysLoseReply m)
  then show ?thesis using assms(3,6) lose_flows(2) [of m s c "set rs" tid A]
    by (cases "m < length (sy_replies s)") (simp_all add: lose_side)
next
  case (SysPassivate i)
  then show ?thesis using passivate_side(1) [OF assms(1,3), of msg i] assms(6) by (simp add: aside_def)
next
  case (SysForeign i m)
  then show ?thesis using foreign_flows [OF assms(2,3), of rs tid i m msg A] assms(4,6) by blast
qed (use assms(5) in \<open>simp_all add: outside_def\<close>)

lemma stamped_aside: "stamped c tid (sy_world s) \<Longrightarrow> aside c s s' \<Longrightarrow> stamped c tid (sy_world s')"
  by (auto simp: stamped_def aside_def)

lemma untouched_flows: "untouched_txn R tid w \<Longrightarrow> flows c R tid [] (ledgers w) (outbox w) []"
  by (auto simp: untouched_txn_def flows_def)

lemma sys_inv_flows: "sys_inv c op tid plan n s \<Longrightarrow> \<exists>A. sys_flows c (set (reserved c plan n)) tid A s"
  by (cases "ta_stage (sy_ta s) = stageIdle") (auto simp: sys_inv_def actor_inv_def dest: untouched_flows)

lemma live_step:
  assumes "uuid_codec c" "quiet c" "list_all good_leg plan" "distinct (reserved c plan n)" "start_of c tid plan msg"
    and "foreign_ok c (reserved c plan n) tid ev" "live_inv c op tid plan n s"
  shows "live_inv c op tid plan n (sys_step c msg ev s)"
proof -
  let ?s = "sys_step c msg ev s"
  have inv: "sys_inv c op tid plan n s" and st: "stamped c tid (sy_world s)"
    and td: "ta_stage (sy_ta s) \<noteq> stageIdle \<Longrightarrow> tidy n (sy_ta s) (sy_world s)" using assms(7) by (simp_all add: live_inv_def)
  have msg: "parse_uuid c (sm_TransactionId msg) = Some tid" "sm_Transfers msg = PlanToProto c plan" "\<not> sm_Resume msg"
    using assms(5) by (simp_all add: start_of_def)
  note inv' = sys_step_inv [OF assms(1-4) msg assms(6) inv]
  have "stamped c tid (sy_world ?s) \<and> (ta_stage (sy_ta ?s) \<noteq> stageIdle \<longrightarrow> tidy n (sy_ta ?s) (sy_world ?s))"
  proof (cases "outside ev")
    case True
    obtain A where "sys_flows c (set (reserved c plan n)) tid A s" using sys_inv_flows [OF inv] by blast
    from outside_step [OF assms(1,2) sys_inv_side [OF inv] assms(6) True this, of msg]
    have "aside c s ?s" by blast
    then show ?thesis using stamped_aside [OF st] td by (auto simp: aside_def tidy_def)
  next
    case False
    have tab: "ledgers (snd (ta_Receive c e t w)) = ledgers w" for e t w
      using blind_Receive [OF actor_blind_tables, of c e t w] by simp
    have idle: "ta_stage (fst (tick c a x w)) = stageIdle" "ta_stage (fst (finalize c x w)) = stageIdle" if "ta_stage x = stageIdle" for a x w
      using that by (simp_all add: tick_def finalize_def working_def)
    have "ledgers (sy_world ?s) = ledgers (sy_world s)"
      using False tab by (cases ev) (auto simp: outside_def simp del: ta_Receive.simps)
    moreover have "tidy n (sy_ta ?s) (sy_world ?s)" if ni': "ta_stage (sy_ta ?s) \<noteq> stageIdle"
    proof (cases "ta_stage (sy_ta s) = stageIdle")
      case True
      have "ev = SysStart" using False ni' True idle inv by (cases ev) (auto simp: outside_def sys_inv_def)
      then show ?thesis using start_tidy [OF _ True msg(3), of c "sy_world s" n] good_entries [OF assms(1,3)] msg(2) ni' True inv
        by (simp add: sys_inv_def)
    next
      case ni: False
      note at = actor_tidy [OF td [OF ni]]
      show ?thesis
      proof (cases ev)
        case (SysCollect m)
        show ?thesis
        proof (cases "m < length (sy_replies s)")
          case True
          have "actor_inv c (set (reserved c plan n)) tid (map plan_core plan) (sy_ta s) (sy_world s) (take m (sy_replies s) @ sy_replies s ! m # drop (Suc m) (sy_replies s))"
            using inv ni split_at [OF True] by (simp add: sys_inv_def)
          with collect_tidy [OF assms(1) _ this td [OF ni]] inv SysCollect True show ?thesis by (simp add: sys_inv_def)
        qed (use SysCollect td [OF ni] in simp)
      qed (use False ni at td [OF ni] in \<open>simp_all add: outside_def\<close>)
    qed
    ultimately show ?thesis using st by (simp add: stamped_def)
  qed
  with inv' show ?thesis by (simp add: live_inv_def)
qed

section \<open>Without an actor\<close>

text \<open>
  What is known of the keys of a plan when its actor has died. No leg has a reversal key: every leg may have been sent. Otherwise a leg with
  a reversal key has applied and its reversal may have been sent, a leg without one has not applied and never will.
\<close>

definition plan_slot :: "uuid \<Rightarrow> transfer_leg \<Rightarrow> slot" where
  "plan_slot tid l = \<lparr>sl_wallet = tl_WalletID l, sl_key = tl_IdempotencyKey l, sl_txn = tid, sl_action = tl_Action l, sl_amount = tl_Amount l\<rparr>"

definition undo_slot :: "uuid \<Rightarrow> transfer_leg \<Rightarrow> uuid \<Rightarrow> slot" where
  "undo_slot tid l k = \<lparr>sl_wallet = tl_WalletID l, sl_key = k, sl_txn = tid, sl_action = Opposite (tl_Action l), sl_amount = tl_Amount l\<rparr>"

lemma entry_slots: "plan_slot tid (plan_entry tr) = fwd_slot tid tr" "undo_slot tid (plan_entry tr) k = rev_slot tid tr k"
  by (simp_all add: plan_slot_def undo_slot_def plan_entry_def fwd_slot_def rev_slot_def)

lemma entry_key [simp]: "tl_ReversalKey (plan_entry tr) = tr_reversalKey tr"
  by (simp add: plan_entry_def)

definition unkeyed :: "transfer_leg list \<Rightarrow> bool" where "unkeyed p \<longleftrightarrow> list_all (\<lambda>l. tl_ReversalKey l = None) p"

lemma unkeyed_entries [simp]: "unkeyed (map plan_entry trs) = keyless trs"
  by (simp add: unkeyed_def keyless_def list.pred_map comp_def plan_entry_def)

definition orphan_leg :: "uuid \<Rightarrow> bool \<Rightarrow> transfer_leg \<Rightarrow> (slot \<times> slot_state) list" where
  "orphan_leg tid fwd l = (case tl_ReversalKey l of
      None \<Rightarrow> [(plan_slot tid l, if fwd then Waiting else Lost)]
    | Some k \<Rightarrow> [(plan_slot tid l, Won), (undo_slot tid l k, Waiting)])"

definition orphan_slots :: "uuid \<Rightarrow> transfer_leg list \<Rightarrow> (slot \<times> slot_state) list" where
  "orphan_slots tid p = concat (map (orphan_leg tid (unkeyed p)) p)"

definition leg_base :: "uuid \<Rightarrow> transfer_leg \<Rightarrow> slot list" where
  "leg_base tid l = plan_slot tid l # (case tl_ReversalKey l of None \<Rightarrow> [] | Some k \<Rightarrow> [undo_slot tid l k])"

lemma orphan_base: "map fst (orphan_slots tid p) = concat (map (leg_base tid) p)"
proof -
  have "map fst (orphan_leg tid b l) = leg_base tid l" for b l by (simp add: orphan_leg_def leg_base_def split: option.split)
  then show ?thesis by (simp add: orphan_slots_def map_concat comp_def)
qed

lemma entry_base: "leg_base tid (plan_entry tr) = fwd_slot tid tr # (case tr_reversalKey tr of None \<Rightarrow> [] | Some k \<Rightarrow> [rev_slot tid tr k])"
  by (cases "tr_reversalKey tr") (simp_all add: leg_base_def entry_slots)

lemma legs_base: "map fst (all_slots tid s trs) = concat (map (leg_base tid) (map plan_entry trs))"
proof -
  have "map fst (leg_slots tid s tr) = leg_base tid (plan_entry tr)" for tr
    by (simp add: leg_slots_def rev_part_def entry_base split: option.split)
  then show ?thesis by (simp add: all_slots_def map_concat comp_def)
qed

text \<open>Knowing less, and losing the replies.\<close>

definition weaker :: "slot_state \<Rightarrow> slot_state \<Rightarrow> bool" where
  "weaker st st' \<longleftrightarrow> st' = Waiting \<or> st' = st \<or> st = Unsent \<and> st' = Lost"

lemma weaker_slot: "slot_ok c sl st L Q P \<Longrightarrow> weaker st st' \<Longrightarrow> slot_ok c sl st' L Q []"
  by (auto simp: slot_ok_def weaker_def in_flight_def split: slot_state.splits)

lemma flows_weaker:
  assumes "flows c R tid A L Q P" "map fst A' = map fst A" "\<And>sl st'. (sl, st') \<in> set A' \<Longrightarrow> \<exists>st. (sl, st) \<in> set A \<and> weaker st st'"
  shows "flows c R tid A' L Q []"
proof (rule flows_states [OF assms(1,2)])
  show "slot_ok c (fst p) (snd p) L Q []" if mem: "p \<in> set A'" for p
  proof -
    obtain st where "(fst p, st) \<in> set A" "weaker st (snd p)" using assms(3) [of "fst p" "snd p"] mem by auto
    then show ?thesis using weaker_slot flows_slot [OF assms(1)] by fastforce
  qed
qed auto

definition adrift :: "ctx \<Rightarrow> (uuid \<Rightarrow> int) \<Rightarrow> uuid \<Rightarrow> transfer_leg list \<Rightarrow> nat \<Rightarrow> transfer_leg list \<Rightarrow> system \<Rightarrow> bool" where
  "adrift c op tid plan n p s \<longleftrightarrow> ta_stage (sy_ta s) = stageIdle \<and> (ta_transactionID (sy_ta s) = uuid_Nil \<or> ta_transactionID (sy_ta s) = tid) \<and>
     wallet_side c op s \<and> stamped c tid (sy_world s) \<and> sy_replies s = [] \<and> map plan_core p = map plan_core plan \<and>
     sys_flows c (set (reserved c plan n)) tid (orphan_slots tid p) s \<and> stores c tid p (sy_world s) \<and>
     (unkeyed p \<longrightarrow> n_uuid (sy_world s) = n) \<and> list_ex (\<lambda>l. tl_ReversalKey l = None) p"

lemma crash_legs:
  assumes "tinv t" "ta_stage t \<noteq> stageIdle" "\<not> keyless (ta_transfers t)" "list_all unmixed (ta_transfers t)"
  shows "(ta_stage t = stageReversing \<or> ta_stage t = stageFinalized) \<and> list_all leg_rev (ta_transfers t) \<and>
    list_ex (\<lambda>tr. tr_reversalKey tr = None) (ta_transfers t)"
proof -
  have fwd: "\<not> list_all leg_fwd (ta_transfers t)" "\<not> list_all leg_won (ta_transfers t)"
    using assms(3) by (auto simp: keyless_def list_all_iff leg_fwd_def leg_won_def)
  have st: "(ta_stage t = stageReversing \<or> ta_stage t = stageFinalized) \<and> list_all leg_rev (ta_transfers t) \<and> anyFailed t"
    using assms(1,2) fwd by (cases "ta_stage t") (auto simp: tinv_def ready_def settled_def list_all_iff leg_undone_def split: if_splits)
  moreover have "list_ex (\<lambda>tr. tr_reversalKey tr = None) (ta_transfers t)"
    using st assms(4) by (auto simp: anyFailed_def list_ex_iff list_all_iff unmixed_def leg_rev_def)
  ultimately show ?thesis by blast
qed

lemma crash_states:
  assumes "tr \<in> set trs" "(sl, st') \<in> set (orphan_leg tid (keyless trs) (plan_entry tr))"
    and "\<not> keyless trs \<Longrightarrow> (s = stageReversing \<or> s = stageFinalized) \<and> leg_rev tr"
  shows "\<exists>st. (sl, st) \<in> set (leg_slots tid s tr) \<and> weaker st st'"
proof (cases "tr_reversalKey tr")
  case None
  then have k: "tl_ReversalKey (plan_entry tr) = None" by (simp add: plan_entry_def)
  show ?thesis
  proof (cases "keyless trs")
    case True
    with assms(2) k show ?thesis by (auto simp: orphan_leg_def entry_slots leg_slots_def weaker_def)
  next
    case False
    then have "fwd_state s tr = Lost \<or> fwd_state s tr = Unsent" using assms(3) None by (auto simp: fwd_state_def leg_rev_def)
    with assms(2) k False show ?thesis by (auto simp: orphan_leg_def entry_slots leg_slots_def weaker_def)
  qed
next
  case (Some k)
  then have k: "tl_ReversalKey (plan_entry tr) = Some k" by (simp add: plan_entry_def)
  have "\<not> keyless trs" using Some assms(1) by (auto simp: keyless_def list_all_iff)
  then have "tr_applied tr" using assms(3) Some by (simp add: leg_rev_def)
  with assms(2) k Some show ?thesis by (auto simp: orphan_leg_def entry_slots leg_slots_def rev_part_def fwd_state_def weaker_def)
qed

lemma crash_adrift:
  assumes "live_inv c op tid plan n s" "ta_stage (sy_ta s) \<noteq> stageIdle" "plan \<noteq> []"
    and "stores c tid (map plan_entry (ta_transfers (sy_ta s))) (sy_world s)"
  shows "adrift c op tid plan n (map plan_entry (ta_transfers (sy_ta s))) (s\<lparr>sy_ta := NewTransactionActor, sy_replies := []\<rparr>)"
proof -
  let ?t = "sy_ta s" and ?trs = "ta_transfers (sy_ta s)"
  have inv: "sys_inv c op tid plan n s" and td: "tidy n ?t (sy_world s)" and st: "stamped c tid (sy_world s)"
    using assms(1,2) by (simp_all add: live_inv_def)
  have ti: "tinv ?t" and fl: "sys_flows c (set (reserved c plan n)) tid (all_slots tid (ta_stage ?t) ?trs) s" and co: "map leg_core ?trs = map plan_core plan"
    using inv assms(2) by (auto simp: sys_inv_def actor_inv_def)
  have legs: "\<not> keyless ?trs \<Longrightarrow> (ta_stage ?t = stageReversing \<or> ta_stage ?t = stageFinalized) \<and> list_all leg_rev ?trs \<and> list_ex (\<lambda>tr. tr_reversalKey tr = None) ?trs"
    using crash_legs [OF ti assms(2)] td by (simp add: tidy_def)
  have "flows c (set (reserved c plan n)) tid (orphan_slots tid (map plan_entry ?trs)) (ledgers (sy_world s)) (outbox (sy_world s)) []"
  proof (rule flows_weaker [OF fl])
    show "map fst (orphan_slots tid (map plan_entry ?trs)) = map fst (all_slots tid (ta_stage ?t) ?trs)" by (simp only: orphan_base legs_base)
    fix sl st' assume "(sl, st') \<in> set (orphan_slots tid (map plan_entry ?trs))"
    then obtain tr where tr: "tr \<in> set ?trs" "(sl, st') \<in> set (orphan_leg tid (keyless ?trs) (plan_entry tr))"
      by (auto simp: orphan_slots_def)
    have "\<exists>st. (sl, st) \<in> set (leg_slots tid (ta_stage ?t) tr) \<and> weaker st st'"
      using crash_states [OF tr] legs tr(1) by (auto simp: list_all_iff)
    then show "\<exists>st. (sl, st) \<in> set (all_slots tid (ta_stage ?t) ?trs) \<and> weaker st st'" using tr(1) by (auto simp: all_slots_def)
  qed
  moreover have "map plan_core (map plan_entry ?trs) = map plan_core plan"
    unfolding co [symmetric] by (simp add: plan_core_def plan_entry_def leg_core_def)
  moreover have "list_ex (\<lambda>l. tl_ReversalKey l = None) (map plan_entry ?trs)"
  proof (cases "keyless ?trs")
    case True
    have "?trs \<noteq> []" using co assms(3) by (metis Nil_is_map_conv)
    with True show ?thesis by (cases ?trs) (simp_all add: keyless_def plan_entry_def)
  next
    case False
    with legs show ?thesis by (auto simp: list_ex_iff plan_entry_def)
  qed
  moreover have "wallet_side c op (s\<lparr>sy_ta := NewTransactionActor, sy_replies := []\<rparr>)" using sys_inv_side [OF inv] by (simp add: wallet_side_def)
  ultimately show ?thesis using assms(4) st td by (simp add: adrift_def) (simp add: NewTransactionActor_def tidy_def)
qed

lemma flows_silent: "flows c R tid A L Q P \<Longrightarrow> flows c R tid A L Q []"
  by (rule flows_weaker) (auto simp: weaker_def)

lemma stores_cong: "txns w' = txns w \<Longrightarrow> stores c tid p w' = stores c tid p w"
  by (simp add: stores_def)

lemma orphan_adrift:
  assumes "uuid_codec c" "quiet c" "foreign_ok c (reserved c plan n) tid ev" "adrift c op tid plan n p s"
  shows "adrift c op tid plan n p (orphan_step c msg ev s)"
proof (cases "outside ev")
  case True
  let ?s = "sys_step c msg ev s"
  from outside_step [OF assms(1,2) _ assms(3) True] assms(4)
  have o: "wallet_side c op ?s" "aside c s ?s" "sys_flows c (set (reserved c plan n)) tid (orphan_slots tid p) ?s"
    by (auto simp: adrift_def)
  have "orphan_step c msg ev s = ?s\<lparr>sy_replies := []\<rparr>" using True by (auto simp: orphan_step_def outside_def)
  moreover have "wallet_side c op (?s\<lparr>sy_replies := []\<rparr>)" using o(1) by (simp add: wallet_side_def)
  moreover have "stamped c tid (sy_world ?s)" using stamped_aside [OF _ o(2)] assms(4) by (simp add: adrift_def)
  ultimately show ?thesis using assms(4) o(2) flows_silent [OF o(3)] stores_cong [of "sy_world ?s" "sy_world s"]
    by (simp add: adrift_def aside_def)
next
  case False
  have "sy_replies s = []" "ta_stage (sy_ta s) = stageIdle" using assms(4) by (simp_all add: adrift_def)
  then have "orphan_step c msg ev s = s \<or> (\<exists>e. orphan_step c msg ev s = (sys_actor c e s)\<lparr>sy_replies := []\<rparr> \<and> ta_Receive c e (sy_ta s) (sy_world s) = (sy_ta s, sy_world s))"
    using False by (cases ev) (auto simp: orphan_step_def outside_def tick_def finalize_def working_def)
  moreover have "s\<lparr>sy_replies := []\<rparr> = s" using \<open>sy_replies s = []\<close> by (metis system.surjective system.update_convs(4))
  ultimately have "orphan_step c msg ev s = s" by (auto simp: sys_actor_def)
  with assms(4) show ?thesis by simp
qed

section \<open>Resuming\<close>

text \<open>With no message on its way, the ledger says everything about a key.\<close>

lemma flows_calm:
  assumes "flows c R tid A L [] []" "map fst A' = map fst A"
    and "\<And>sl st. (sl, st) \<in> set A' \<Longrightarrow> if recorded sl L then st = Won else st = Unsent \<or> st = Lost"
  shows "flows c R tid A' L [] []"
proof (rule flows_states [OF assms(1,2)])
  have sets: "fst ` set A' = fst ` set A" using arg_cong [OF assms(2), of set] by simp
  show "slot_ok c (fst p) (snd p) L [] []" if mem: "p \<in> set A'" for p
  proof -
    obtain q where "q \<in> set A" "fst q = fst p" using sets mem by (metis imageE imageI)
    then have "slot_ok c (fst p) (snd q) L [] []" using flows_slot [OF assms(1)] by metis
    moreover have "if recorded (fst p) L then snd p = Won else snd p = Unsent \<or> snd p = Lost" using assms(3) [of "fst p" "snd p"] mem by simp
    ultimately show ?thesis by (auto simp: slot_ok_def in_flight_def split: if_splits)
  qed
qed auto

lemma seen_iff:
  assumes "flows c R tid A (ledgers w) Q P" "p \<in> set A" "stamped c tid w" "ta_transactionID t = tid" "ta_createdAt t \<le> now c"
  shows "sl_key (fst p) \<in> set (ledger_keys c t w) \<longleftrightarrow> recorded (fst p) (ledgers w)"
proof
  assume "sl_key (fst p) \<in> set (ledger_keys c t w)"
  then obtain l where l: "l \<in> set (ledgers w)" "l_TransactionID l = tid" "sl_key (fst p) = (case l_IdempotencyKey l of Some k \<Rightarrow> k | None \<Rightarrow> uuid_Nil)"
    using assms(4) by (auto simp: ledger_keys_def)
  then obtain q where q: "q \<in> set A" "slot_row (fst q) l" using assms(1) by (auto simp: flows_def owner_def)
  then have "q = p" using flows_distinct [OF assms(1) q(1) assms(2)] l(3) by (simp add: slot_row_def)
  with q l(1) show "recorded (fst p) (ledgers w)" by (auto simp: recorded_def has_key_def slot_row_def)
next
  assume "recorded (fst p) (ledgers w)"
  then obtain l where l: "l \<in> set (ledgers w)" "slot_row (fst p) l" by (auto simp: recorded_def has_key_def slot_row_def)
  have "l_TransactionID l = tid" using flows_slot [OF assms(1,2)] l assms(1,2) by (auto simp: slot_ok_def flows_def)
  moreover from this have "l_CreatedAt l = now c" using assms(3) l(1) by (simp add: stamped_def)
  moreover have "now c < now c + 24 * hour" by (simp add: hour_def minute_def second_def)
  ultimately show "sl_key (fst p) \<in> set (ledger_keys c t w)"
    using l assms(4,5) by (force simp: ledger_keys_def slot_row_def)
qed

definition blank :: "transfer \<Rightarrow> bool" where
  "blank tr \<longleftrightarrow> leg_static tr \<and> \<not> tr_reversed tr \<and> \<not> tr_done tr \<and> \<not> tr_applied tr \<and> tr_failCode tr = []"

lemma loaded_blank:
  assumes "uuid_codec c" "map plan_core p = map plan_core plan" "list_all good_leg plan"
  shows "fst (loadTransfers c (PlanToProto c p)) \<and> map plan_entry (snd (loadTransfers c (PlanToProto c p))) = p \<and>
    list_all blank (snd (loadTransfers c (PlanToProto c p)))"
proof -
  have good: "amount_ok (tl_Amount l) \<and> (tl_Action l = LedgerTypeDebit \<or> tl_Action l = LedgerTypeCredit)" if "l \<in> set p" for l
  proof -
    have "plan_core l \<in> set (map plan_core plan)" using that assms(2) by (metis image_eqI set_map)
    then show ?thesis using assms(3) by (auto simp: list_all_iff good_leg_def plan_core_def)
  qed
  have load: "fst (loadTransfers c (PlanToProto c p)) \<and> map plan_entry (snd (loadTransfers c (PlanToProto c p))) = p"
    by (rule loadTransfers_PlanToProto [OF assms(1)]) (use good in \<open>auto simp: amount_ok_def\<close>)
  have new: "\<exists>e i k. tr = new_transfer c e i k" if "tr \<in> set (snd (loadTransfers c es))" for tr es
    using that by (induction es) (auto simp: split_beta Let_def split: option.splits if_splits)
  have "blank tr" if "tr \<in> set (snd (loadTransfers c (PlanToProto c p)))" for tr
  proof -
    have "plan_entry tr \<in> set p" using that load by (metis image_eqI set_map)
    from good [OF this] new [OF that] show ?thesis by (auto simp: blank_def leg_static_def plan_entry_def new_transfer_def)
  qed
  with load show ?thesis by (simp add: list_all_iff)
qed

lemma entries_cores: "map plan_entry trs = p \<Longrightarrow> map leg_core trs = map plan_core p"
  by (auto simp: plan_core_def plan_entry_def leg_core_def)

lemma spare_reserved:
  assumes "distinct (reserved c plan n)" "map leg_core trs = map plan_core plan"
  shows "spare_keys c (set (reserved c plan n)) (map tr_key trs) n"
proof -
  have "map tr_key trs = map tl_IdempotencyKey plan"
    using arg_cong [OF assms(2), of "map (\<lambda>x. snd (snd (snd x)))"] by (simp add: leg_core_def plan_core_def comp_def)
  then show ?thesis using assms(1) by (auto simp: spare_keys_def reserved_def distinct_map)
qed

text \<open>An actor that has loaded the stored plan and is about to read the ledger, and what it reads.\<close>

definition resuming :: "ctx \<Rightarrow> uuid \<Rightarrow> transfer_leg list \<Rightarrow> nat \<Rightarrow> tactor \<Rightarrow> world \<Rightarrow> bool" where
  "resuming c tid plan n t w \<longleftrightarrow> uuid_codec c \<and> distinct (reserved c plan n) \<and> list_all blank (ta_transfers t) \<and> ta_transactionID t = tid \<and>
     ta_createdAt t \<le> now c \<and> map leg_core (ta_transfers t) = map plan_core plan \<and> outbox w = [] \<and> stamped c tid w \<and>
     flows c (set (reserved c plan n)) tid (orphan_slots tid (map plan_entry (ta_transfers t))) (ledgers w) [] []"

lemma resumingD:
  assumes "resuming c tid plan n t w"
  shows "uuid_codec c" "distinct (reserved c plan n)" "list_all blank (ta_transfers t)" "ta_transactionID t = tid" "ta_createdAt t \<le> now c"
    "map leg_core (ta_transfers t) = map plan_core plan" "outbox w = []" "stamped c tid w"
    "flows c (set (reserved c plan n)) tid (orphan_slots tid (map plan_entry (ta_transfers t))) (ledgers w) [] []"
  using assms by (simp_all add: resuming_def)

definition seen :: "ctx \<Rightarrow> tactor \<Rightarrow> world \<Rightarrow> tactor" where
  "seen c t w = t\<lparr>ta_transfers := map (leg_progress (ledger_keys c t w)) (ta_transfers t)\<rparr>"

lemma progress:
  assumes "resuming c tid plan n t w" "tr \<in> set (ta_transfers t)"
  shows "tr_applied (leg_progress (ledger_keys c t w) tr) = recorded (fwd_slot tid tr) (ledgers w)"
    "tr_reversalKey tr = Some k \<Longrightarrow> tr_reversed (leg_progress (ledger_keys c t w) tr) = recorded (rev_slot tid tr k) (ledgers w)"
    "tr_reversalKey tr = Some k \<Longrightarrow> recorded (fwd_slot tid tr) (ledgers w)"
    "tr_reversalKey tr = None \<Longrightarrow> \<not> keyless (ta_transfers t) \<Longrightarrow> \<not> recorded (fwd_slot tid tr) (ledgers w)"
proof -
  note r = resumingD [OF assms(1)]
  have mem: "pr \<in> set (orphan_slots tid (map plan_entry (ta_transfers t)))"
    if "pr \<in> set (orphan_leg tid (keyless (ta_transfers t)) (plan_entry tr))" for pr
    using that assms(2) by (auto simp: orphan_slots_def)
  note see = seen_iff [OF r(9) _ r(8,4,5)]
  have "\<exists>st. (fwd_slot tid tr, st) \<in> set (orphan_leg tid (keyless (ta_transfers t)) (plan_entry tr))"
    by (cases "tr_reversalKey tr") (auto simp: orphan_leg_def entry_slots)
  then have "tr_key tr \<in> set (ledger_keys c t w) \<longleftrightarrow> recorded (fwd_slot tid tr) (ledgers w)"
    using see [OF mem] by (force simp: fwd_slot_def)
  then show "tr_applied (leg_progress (ledger_keys c t w) tr) = recorded (fwd_slot tid tr) (ledgers w)"
    by (simp add: leg_progress_def Let_def split: option.split)
  show "tr_reversed (leg_progress (ledger_keys c t w) tr) = recorded (rev_slot tid tr k) (ledgers w)"
    "recorded (fwd_slot tid tr) (ledgers w)" if k: "tr_reversalKey tr = Some k"
  proof -
    have in_leg: "(fwd_slot tid tr, Won) \<in> set (orphan_leg tid (keyless (ta_transfers t)) (plan_entry tr))"
      "(rev_slot tid tr k, Waiting) \<in> set (orphan_leg tid (keyless (ta_transfers t)) (plan_entry tr))"
      using k by (simp_all add: orphan_leg_def entry_slots)
    show "tr_reversed (leg_progress (ledger_keys c t w) tr) = recorded (rev_slot tid tr k) (ledgers w)"
      using see [OF mem [OF in_leg(2)]] k by (simp add: leg_progress_def Let_def rev_slot_def)
    show "recorded (fwd_slot tid tr) (ledgers w)" using flows_slot [OF r(9) mem [OF in_leg(1)]] by (simp add: slot_ok_def)
  qed
  show "\<not> recorded (fwd_slot tid tr) (ledgers w)" if "tr_reversalKey tr = None" "\<not> keyless (ta_transfers t)"
  proof -
    have "(fwd_slot tid tr, Lost) \<in> set (orphan_leg tid (keyless (ta_transfers t)) (plan_entry tr))"
      using that by (simp add: orphan_leg_def entry_slots)
    from flows_slot [OF r(9) mem [OF this]] show ?thesis by (simp add: slot_ok_def)
  qed
qed

lemma progress_frame:
  "leg_core (leg_progress ks tr) = leg_core tr" "tr_reversalKey (leg_progress ks tr) = tr_reversalKey tr"
  "fwd_slot tid (leg_progress ks tr) = fwd_slot tid tr" "rev_slot tid (leg_progress ks tr) k = rev_slot tid tr k"
  "plan_entry (leg_progress ks tr) = plan_entry tr" "leg_static (leg_progress ks tr) = leg_static tr"
  "tr_failCode (leg_progress ks tr) = tr_failCode tr" "tr_done (leg_progress ks tr) = tr_done tr"
  "tr_reversalKey tr = None \<Longrightarrow> tr_reversed (leg_progress ks tr) = tr_reversed tr"
  by (simp_all add: leg_progress_def Let_def leg_core_def fwd_slot_def rev_slot_def plan_entry_def leg_static_def split: option.split)

lemma forward_inv:
  assumes rs: "resuming c tid plan n t w" and "keyless (ta_transfers t)" "n_uuid w = n"
  shows "ready (fst (resume_forward c (seen c t w) w))" "tidy n (fst (resume_forward c (seen c t w) w)) (snd (resume_forward c (seen c t w) w))"
    "actor_inv c (set (reserved c plan n)) tid (map plan_core plan) (fst (resume_forward c (seen c t w) w)) (snd (resume_forward c (seen c t w) w)) []"
proof -
  note r = resumingD [OF rs]
  let ?p = "leg_progress (ledger_keys c t w)"
  define x where "x = (seen c t w)\<lparr>ta_stage := (if debitsApplied (seen c t w) then stageCrediting else stageProcessing),
       ta_transfers := map (\<lambda>tr. if tr_applied tr then tr\<lparr>tr_done := True\<rparr> else tr) (ta_transfers (seen c t w))\<rparr>"
  have rf: "resume_forward c (seen c t w) w = fireLegs c x w" by (simp add: resume_forward_def x_def)
  define g where "g = (\<lambda>tr. if tr_applied (?p tr) then (?p tr)\<lparr>tr_done := True\<rparr> else ?p tr)"
  have xt: "ta_transfers x = map g (ta_transfers t)" by (simp add: x_def seen_def g_def)
  have new: "list_all leg_new (ta_transfers t)" using r(3) assms(2) by (auto simp: list_all_iff blank_def leg_new_def keyless_def)
  show rd: "ready (fst (resume_forward c (seen c t w) w))" by (rule resume_forward_ready [OF new]) (simp add: seen_def)
  have g: "fwd_slot tid (g tr) = fwd_slot tid tr" "tr_applied (g tr) = recorded (fwd_slot tid tr) (ledgers w)" "tr_failCode (g tr) = []" "leg_fwd (g tr)"
    "leg_core (g tr) = leg_core tr" "tr_reversalKey (g tr) = None"
    if tr: "tr \<in> set (ta_transfers t)" for tr
  proof -
    have n: "leg_new tr" using new tr by (simp add: list_all_iff)
    show "fwd_slot tid (g tr) = fwd_slot tid tr" "tr_failCode (g tr) = []" "leg_fwd (g tr)" "leg_core (g tr) = leg_core tr" "tr_reversalKey (g tr) = None"
      using n by (auto simp: g_def progress_frame leg_new_def leg_fwd_def leg_static_def leg_core_def leg_progress_def Let_def fwd_slot_def)
    show "tr_applied (g tr) = recorded (fwd_slot tid tr) (ledgers w)" using progress(1) [OF rs tr] by (simp add: g_def)
  qed
  have "flows c (set (reserved c plan n)) tid (concat (map (fwd_pre tid (ta_stage x)) (ta_transfers x))) (ledgers w) [] []"
  proof (rule flows_calm [OF r(9)])
    have "map fst (fwd_pre tid s (g tr)) = leg_base tid (plan_entry tr)" if "tr \<in> set (ta_transfers t)" for tr s
      using g [OF that] assms(2) that by (auto simp: fwd_pre_def entry_base keyless_def list_all_iff)
    then have "concat (map (\<lambda>tr. map fst (fwd_pre tid (ta_stage x) (g tr))) (ta_transfers t)) = concat (map (\<lambda>tr. leg_base tid (plan_entry tr)) (ta_transfers t))"
      by (intro arg_cong [of _ _ concat] map_cong refl)
    then show "map fst (concat (map (fwd_pre tid (ta_stage x)) (ta_transfers x))) = map fst (orphan_slots tid (map plan_entry (ta_transfers t)))"
      unfolding orphan_base by (simp add: xt map_concat comp_def)
    fix sl st assume "(sl, st) \<in> set (concat (map (fwd_pre tid (ta_stage x)) (ta_transfers x)))"
    then obtain tr where "tr \<in> set (ta_transfers t)" "(sl, st) \<in> set (fwd_pre tid (ta_stage x) (g tr))" by (auto simp: xt)
    with g show "if recorded sl (ledgers w) then st = Won else st = Unsent \<or> st = Lost"
      by (auto simp: fwd_pre_def fwd_state_def split: if_splits)
  qed
  moreover have "ta_stage x = stageProcessing \<or> ta_stage x = stageCrediting" "debitsApplied x \<or> ta_stage x = stageProcessing" "ta_transactionID x = tid"
    by (auto simp: x_def seen_def debitsApplied_def list_all_iff r(4))
  moreover have "list_all leg_fwd (ta_transfers x)" using g(4) by (auto simp: xt list_all_iff)
  ultimately have fl: "actor_flows c (set (reserved c plan n)) tid (fst (fireLegs c x w)) (snd (fireLegs c x w)) []"
    using fireLegs_flows [OF r(1)] r(7) by simp
  have "map leg_core (ta_transfers x) = map plan_core plan" using g(5) r(6) by (simp add: xt comp_def cong: map_cong)
  then have co: "map leg_core (ta_transfers (fst (fireLegs c x w))) = map plan_core plan" by simp
  have "ta_transactionID (fst (fireLegs c x w)) = tid" by (simp add: fireLegs_def x_def seen_def r(4))
  then show "actor_inv c (set (reserved c plan n)) tid (map plan_core plan) (fst (resume_forward c (seen c t w) w)) (snd (resume_forward c (seen c t w) w)) []"
    using fl co spare_reserved [OF r(2) co] assms(3) by (simp add: actor_inv_def rf)
  have "tidy n x w" using g(3) assms(3) by (auto simp: tidy_def xt list_all_iff unmixed_def)
  then show "tidy n (fst (resume_forward c (seen c t w) w)) (snd (resume_forward c (seen c t w) w))"
    unfolding rf by (rule tidy_frame [OF marks_loops(1), rotated]) simp
qed

lemma each_leg_pure: "(\<And>tr w. tr \<in> set trs \<Longrightarrow> f tr w = (g tr, w)) \<Longrightarrow> each_leg f trs w = (map g trs, w)"
  by (induction trs arbitrary: w) (simp_all add: split_beta Let_def)

text \<open>A leg as the first loop of \<open>resume_reversing\<close> leaves it: applied with a reversal key, or failed without one.\<close>

definition resumed_leg :: "transfer \<Rightarrow> bool" where
  "resumed_leg tr \<longleftrightarrow> leg_static tr \<and> \<not> tr_done tr \<and> (tr_applied tr \<longleftrightarrow> tr_reversalKey tr \<noteq> None) \<and> (tr_reversed tr \<longrightarrow> tr_applied tr) \<and>
     (tr_failCode tr \<noteq> [] \<longleftrightarrow> \<not> tr_applied tr)"

definition resumed_slots :: "uuid \<Rightarrow> transfer \<Rightarrow> (slot \<times> slot_state) list" where
  "resumed_slots tid tr = (fwd_slot tid tr, if tr_applied tr then Won else Lost) # rev_part tid (if tr_reversed tr then Won else Unsent) tr"

lemma resumed_step:
  assumes "uuid_codec c" "resumed_leg tr" "ta_transactionID x = tid" "flows c R tid (A @ resumed_slots tid tr @ C) (ledgers w) (outbox w) P"
    and "f = (\<lambda>tr w. if \<not> tr_applied tr \<or> tr_reversed tr then (tr\<lparr>tr_done := True\<rparr>, w) else send_reversal c x tr w)"
  shows "flows c R tid (A @ leg_slots tid stageReversing (fst (f tr w)) @ C) (ledgers (snd (f tr w))) (outbox (snd (f tr w))) P"
proof (cases "\<not> tr_applied tr \<or> tr_reversed tr")
  case True
  then have "leg_slots tid stageReversing (fst (f tr w)) = resumed_slots tid tr" "snd (f tr w) = w"
    using assms(2,5) by (auto simp: resumed_leg_def resumed_slots_def leg_slots_def rev_part_def fwd_state_def rev_state_def split: option.split)
  with assms(4) show ?thesis by simp
next
  case False
  then obtain k where k: "tr_reversalKey tr = Some k" using assms(2) by (auto simp: resumed_leg_def)
  let ?tr = "tr\<lparr>tr_done := False\<rparr>"
  let ?y = "try_send c x (Opposite (tr_action tr)) k ?tr w"
  have y: "f tr w = ?y" using False k assms(5) by (simp add: send_reversal_def)
  have sl: "resumed_slots tid tr = [(fwd_slot tid tr, Won), (rev_slot tid tr k, Unsent)]"
    "leg_slots tid stageReversing (fst ?y) = [(fwd_slot tid tr, Won), (rev_slot tid tr k, if tr_retry (fst ?y) then Retrying else Waiting)]"
    using False k by (simp_all add: resumed_slots_def leg_slots_def rev_part_def fwd_state_def rev_state_def try_send_leg)
  have st: "leg_static ?tr" using assms(2) by (simp add: resumed_leg_def leg_static_def)
  have rq: "slot_request c (rev_slot tid tr k) (tr_walletID ?tr, op_message c (ta_transactionID x) ?tr (Opposite (tr_action tr)) k)"
    using fwd_request(2) [OF st, of c tid k] assms(3) by simp
  have "flows c R tid ((A @ [(fwd_slot tid tr, Won)]) @ (rev_slot tid tr k, Unsent) # C) (ledgers w) (outbox w) P"
    using assms(4) sl(1) by simp
  from flows_try_send [OF assms(1) this _ rq] show ?thesis by (simp add: y sl(2))
qed

lemma resumed_loop:
  assumes "uuid_codec c" "list_all resumed_leg (ta_transfers x)" "ta_transactionID x = tid" "ta_stage x = stageReversing"
    and "list_ex (\<lambda>tr. tr_reversalKey tr = None) (ta_transfers x)" "\<not> keyless (ta_transfers x)"
    and "flows c R tid (concat (map (resumed_slots tid) (ta_transfers x))) (ledgers w) (outbox w) []"
    and "y = for_legs (\<lambda>tr w. if \<not> tr_applied tr \<or> tr_reversed tr then (tr\<lparr>tr_done := True\<rparr>, w) else send_reversal c x tr w) x w"
  shows "ready (fst y)" "tidy n (fst y) (snd y)" "actor_inv c R tid (map leg_core (ta_transfers x)) (fst y) (snd y) []"
proof -
  let ?f = "\<lambda>tr w. if \<not> tr_applied tr \<or> tr_reversed tr then (tr\<lparr>tr_done := True\<rparr>, w) else send_reversal c x tr w"
  have yt: "ta_transfers (fst y) = fst (each_leg ?f (ta_transfers x) w)" "snd y = snd (each_leg ?f (ta_transfers x) w)" "ta_stage (fst y) = stageReversing"
    "ta_transactionID (fst y) = tid" by (simp_all add: assms(3,4,8))
  have fl: "actor_flows c R tid (fst y) (snd y) []"
    using each_leg_flows [where A = "[]" and C = "[]" and f = ?f and pre = "resumed_slots tid" and post = "leg_slots tid stageReversing" and trs = "ta_transfers x" and w = w]
      resumed_step [OF assms(1) _ assms(3)] assms(2,7) by (simp add: yt all_slots_def list_all_iff)
  let ?r = "\<lambda>tr tr'. resumed_leg tr \<longrightarrow> leg_rev tr' \<and> same_marks tr tr'"
  have rel: "list_all2 ?r (ta_transfers x) (ta_transfers (fst y))"
    unfolding yt by (rule each_leg_rel) (auto simp: resumed_leg_def leg_rev_def leg_static_def same_marks_def send_reversal_def try_send_leg split: option.split)
  have legs: "list_all leg_rev (ta_transfers (fst y))" and marks: "list_all2 same_marks (ta_transfers x) (ta_transfers (fst y))"
    using rel assms(2) by (auto simp: list_all2_conv_all_nth list_all_length)
  have "map tr_failCode (ta_transfers (fst y)) = map tr_failCode (ta_transfers x)"
    using marks by (induction rule: list_all2_induct) (simp_all add: same_marks_def)
  then have codes: "tr_failCode ` set (ta_transfers (fst y)) = tr_failCode ` set (ta_transfers x)" by (metis set_map)
  obtain tr where "tr \<in> set (ta_transfers x)" "tr_failCode tr \<noteq> []" using assms(2,5) by (auto simp: list_ex_iff list_all_iff resumed_leg_def)
  then have "\<exists>code \<in> tr_failCode ` set (ta_transfers (fst y)). code \<noteq> []" unfolding codes by blast
  then have "anyFailed (fst y)" by (simp add: anyFailed_def list_ex_iff)
  with legs show "ready (fst y)" by (simp add: ready_def yt)
  show "tidy n (fst y) (snd y)"
    using same_marks_tidy [OF marks] assms(2,6) by (auto simp: tidy_def list_all_iff unmixed_def resumed_leg_def)
  show "actor_inv c R tid (map leg_core (ta_transfers x)) (fst y) (snd y) []"
    using fl each_leg_core [of ?f] by (simp add: actor_inv_def yt leg_core_def send_reversal_def try_send_leg split: option.split)
qed

lemma reversing_inv:
  assumes rs: "resuming c tid plan n t w" and "\<not> keyless (ta_transfers t)" "list_ex (\<lambda>tr. tr_reversalKey tr = None) (ta_transfers t)"
  shows "ready (fst (resume_reversing c (seen c t w) w))" "tidy n (fst (resume_reversing c (seen c t w) w)) (snd (resume_reversing c (seen c t w) w))"
    "actor_inv c (set (reserved c plan n)) tid (map plan_core plan) (fst (resume_reversing c (seen c t w) w)) (snd (resume_reversing c (seen c t w) w)) []"
proof -
  note r = resumingD [OF rs]
  let ?p = "leg_progress (ledger_keys c t w)"
  define h where "h = (\<lambda>tr :: transfer. if tr_failCode tr = [] \<and> \<not> tr_applied tr
      then tr\<lparr>tr_failCode := CodeUndeliverable, tr_failMsg := ''leg did not apply before recovery''\<rparr> else tr)"
  define g where "g = (\<lambda>tr :: transfer. h (?p tr))"
  note g_defs = g_def h_def
  have g: "resumed_leg (g tr)" "fwd_slot tid (g tr) = fwd_slot tid tr" "\<And>k. rev_slot tid (g tr) k = rev_slot tid tr k" "tr_reversalKey (g tr) = tr_reversalKey tr"
    "tr_applied (g tr) = recorded (fwd_slot tid tr) (ledgers w)" "\<And>k. tr_reversalKey tr = Some k \<Longrightarrow> tr_reversed (g tr) = recorded (rev_slot tid tr k) (ledgers w)"
    "leg_core (g tr) = leg_core tr"
    if tr: "tr \<in> set (ta_transfers t)" for tr
  proof -
    have b: "blank tr" using r(3) tr by (simp add: list_all_iff)
    note pr = progress [OF rs tr]
    show "fwd_slot tid (g tr) = fwd_slot tid tr" "\<And>k. rev_slot tid (g tr) k = rev_slot tid tr k" "tr_reversalKey (g tr) = tr_reversalKey tr" "leg_core (g tr) = leg_core tr"
      by (simp_all add: g_defs leg_progress_def Let_def fwd_slot_def rev_slot_def leg_core_def split: option.split)
    show ap: "tr_applied (g tr) = recorded (fwd_slot tid tr) (ledgers w)" using pr(1) by (simp add: g_defs)
    show "\<And>k. tr_reversalKey tr = Some k \<Longrightarrow> tr_reversed (g tr) = recorded (rev_slot tid tr k) (ledgers w)" using pr(2) by (simp add: g_defs)
    have iff: "recorded (fwd_slot tid tr) (ledgers w) \<longleftrightarrow> tr_reversalKey tr \<noteq> None" using pr(3,4) assms(2) by auto
    show "resumed_leg (g tr)"
      using b ap iff pr(1) by (auto simp: resumed_leg_def g_defs blank_def progress_frame leg_static_def error_code_defs) (simp_all add: leg_progress_def Let_def)
  qed
  define x where "x = (seen c t w)\<lparr>ta_stage := stageReversing, ta_transfers := map g (ta_transfers t)\<rparr>"
  have nk: "\<not> needs_key (g tr)" "\<not> needs_key (?p tr)" if "tr \<in> set (ta_transfers t)" for tr
    using g(1,4) [OF that] progress(1,3,4) [OF rs that] assms(2) by (auto simp: needs_key_def resumed_leg_def progress_frame)
  let ?f = "\<lambda>tr w. let tr1 = (if tr_failCode tr = [] \<and> \<not> tr_applied tr
            then tr\<lparr>tr_failCode := CodeUndeliverable, tr_failMsg := ''leg did not apply before recovery''\<rparr> else tr)
          in if needs_key tr1 then fresh_reversal_key c tr1 w else (tr1, w)"
  have step: "?f tr v = (h tr, v)" if mem: "tr \<in> set (map ?p (ta_transfers t))" for tr v
  proof -
    have "\<not> needs_key (h tr)" using mem nk(1) by (auto simp: g_def)
    then show ?thesis unfolding h_def Let_def by (rule if_not_P)
  qed
  have loop: "each_leg ?f (map ?p (ta_transfers t)) w = (map g (ta_transfers t), w)"
    using each_leg_pure [where f = ?f and g = h and trs = "map ?p (ta_transfers t)" and w = w, OF step] unfolding g_def map_map comp_def .
  have nx: "\<not> list_ex needs_key (ta_transfers (seen c t w))" using nk(2) by (auto simp: list_ex_iff seen_def)
  have eq: "resume_reversing c (seen c t w) w =
      for_legs (\<lambda>tr w. if \<not> tr_applied tr \<or> tr_reversed tr then (tr\<lparr>tr_done := True\<rparr>, w) else send_reversal c x tr w) x w"
  proof -
    have "for_legs ?f ((seen c t w)\<lparr>ta_stage := stageReversing\<rparr>) w = (x, w)"
      using loop by (simp add: for_legs_def x_def seen_def)
    then show ?thesis unfolding resume_reversing_def by (simp only: Let_def prod.case nx if_False)
  qed
  have fl: "flows c (set (reserved c plan n)) tid (concat (map (resumed_slots tid) (ta_transfers x))) (ledgers w) [] []"
  proof (rule flows_calm [OF r(9)])
    have "map fst (resumed_slots tid (g tr)) = leg_base tid (plan_entry tr)" if "tr \<in> set (ta_transfers t)" for tr
      using g [OF that] by (simp add: resumed_slots_def rev_part_def entry_base split: option.split)
    then have "concat (map (\<lambda>tr. map fst (resumed_slots tid (g tr))) (ta_transfers t)) = concat (map (\<lambda>tr. leg_base tid (plan_entry tr)) (ta_transfers t))"
      by (intro arg_cong [of _ _ concat] map_cong refl)
    then show "map fst (concat (map (resumed_slots tid) (ta_transfers x))) = map fst (orphan_slots tid (map plan_entry (ta_transfers t)))"
      unfolding orphan_base by (simp add: x_def map_concat comp_def)
    fix sl st assume "(sl, st) \<in> set (concat (map (resumed_slots tid) (ta_transfers x)))"
    then obtain tr where tr: "tr \<in> set (ta_transfers t)" "(sl, st) \<in> set (resumed_slots tid (g tr))" by (auto simp: x_def)
    from tr(2) g [OF tr(1)] show "if recorded sl (ledgers w) then st = Won else st = Unsent \<or> st = Lost"
      by (cases "tr_reversalKey tr") (auto simp: resumed_slots_def rev_part_def split: if_splits)
  qed
  have x: "list_all resumed_leg (ta_transfers x)" "ta_transactionID x = tid" "ta_stage x = stageReversing"
    using g(1) by (auto simp: x_def seen_def list_all_iff r(4))
  have keys: "list_ex (\<lambda>tr. tr_reversalKey tr = None) (ta_transfers x)" "\<not> keyless (ta_transfers x)"
    using assms(2,3) g(4) by (auto simp: x_def list_ex_iff keyless_def list_all_iff)
  have co: "map leg_core (ta_transfers x) = map plan_core plan" using g(7) r(6) by (simp add: x_def comp_def cong: map_cong)
  note loop2 = resumed_loop [OF r(1) x keys _ eq, unfolded co, OF fl [folded r(7)]]
  show "ready (fst (resume_reversing c (seen c t w) w))" by (rule loop2(1))
  show "tidy n (fst (resume_reversing c (seen c t w) w)) (snd (resume_reversing c (seen c t w) w))" by (rule loop2(2))
  show "actor_inv c (set (reserved c plan n)) tid (map plan_core plan) (fst (resume_reversing c (seen c t w) w)) (snd (resume_reversing c (seen c t w) w)) []"
    by (rule loop2(3))
qed

lemma stores_update:
  assumes "\<And>r. tx_ID (f r) = tx_ID r" "\<And>r. tx_Transfers (f r) = tx_Transfers r"
  shows "stores c tid p (snd (update_txns P f w)) = stores c tid p w"
proof -
  let ?g = "\<lambda>r. if P r then f r else r"
  have "find (\<lambda>r. tx_ID r = tid) (map ?g rs) = map_option ?g (find (\<lambda>r. tx_ID r = tid) rs)" for rs
    by (induction rs) (simp_all add: assms)
  then show ?thesis by (simp add: stores_def update_txns_def assms split: option.split)
qed

text \<open>The actor leaves everything but its own notes alone, or carries on.\<close>

lemma resumed_live:
  assumes "resuming c tid plan n t w" "list_ex (\<lambda>tr. tr_reversalKey tr = None) (ta_transfers t)" "keyless (ta_transfers t) \<Longrightarrow> n_uuid w = n"
    and "y = (if list_ex (\<lambda>tr. tr_reversalKey tr \<noteq> None) (ta_transfers (seen c t w)) then resume_reversing c (seen c t w) w else resume_forward c (seen c t w) w)"
    and "z = advance c (armTimeout (fst y)) (snd y)"
  shows "tinv (fst z) \<and> ta_stage (fst z) \<noteq> stageIdle \<and> tidy n (fst z) (snd z) \<and>
    actor_inv c (set (reserved c plan n)) tid (map plan_core plan) (fst z) (snd z) []"
proof -
  have key: "list_ex (\<lambda>tr. tr_reversalKey tr \<noteq> None) (ta_transfers (seen c t w)) \<longleftrightarrow> \<not> keyless (ta_transfers t)"
    by (auto simp: seen_def list_ex_iff keyless_def list_all_iff progress_frame)
  have y: "ready (fst y)" "tidy n (fst y) (snd y)" "actor_inv c (set (reserved c plan n)) tid (map plan_core plan) (fst y) (snd y) []"
    unfolding assms(4) key using forward_inv [OF assms(1)] reversing_inv [OF assms(1) _ assms(2)] assms(3) by (cases "keyless (ta_transfers t)"; simp)+
  have arm: "ready (armTimeout (fst y))" "tidy n (armTimeout (fst y)) (snd y)"
    "actor_inv c (set (reserved c plan n)) tid (map plan_core plan) (armTimeout (fst y)) (snd y) []"
    using y by (simp_all add: ready_arm tidy_def actor_inv_def)
  have "ta_stage (fst z) \<noteq> stageIdle"
    using advance_rank [of "armTimeout (fst y)" c "snd y"] ready_working [OF y(1)] by (cases "ta_stage (fst y)") (auto simp: assms(5) working_def)
  then show ?thesis
    using ready_advance [OF arm(1)] advance_tidy [OF arm(2)] advance_inv [OF resumingD(1) [OF assms(1)] arm(1,3)] by (simp add: assms(5))
qed

lemma idle_adrift:
  assumes "adrift c op tid plan n p s" "ta_stage x = stageIdle" "ta_transactionID x = tid"
    and "wallets v = wallets (sy_world s)" "ledgers v = ledgers (sy_world s)" "outbox v = outbox (sy_world s)" "n_uuid v = n_uuid (sy_world s)"
    and "stores c tid p v"
  shows "adrift c op tid plan n p (s\<lparr>sy_ta := x, sy_world := v\<rparr>)"
proof -
  have r: "sy_replies s = []" using assms(1) by (simp add: adrift_def)
  show ?thesis using assms r by (simp add: adrift_def wallet_side_def stamped_def books_def own_copy_def coherent_def)
qed

lemma resume_step:
  assumes "uuid_codec c" "distinct (reserved c plan n)" "list_all good_leg plan" "adrift c op tid plan n p s" "outbox (sy_world s) = []"
    and "redrive_of c tid (sy_world s) = Some m"
  shows "adrift c op tid plan n p (sys_actor c (StartTransaction m) s) \<or>
    live_inv c op tid plan n (sys_actor c (StartTransaction m) s) \<and> ta_stage (sy_ta (sys_actor c (StartTransaction m) s)) \<noteq> stageIdle"
proof -
  let ?t = "sy_ta s" and ?w = "sy_world s"
  have ad: "ta_stage ?t = stageIdle" "ta_transactionID ?t = uuid_Nil \<or> ta_transactionID ?t = tid" "wallet_side c op s" "stamped c tid ?w"
    "map plan_core p = map plan_core plan" "flows c (set (reserved c plan n)) tid (orphan_slots tid p) (ledgers ?w) [] []" "stores c tid p ?w"
    "unkeyed p \<Longrightarrow> n_uuid ?w = n" "list_ex (\<lambda>l. tl_ReversalKey l = None) p"
    using assms(4,5) unfolding adrift_def by auto
  obtain tx q where tx: "find (\<lambda>r. tx_ID r = tid) (txns ?w) = Some tx" "tx_CreatedAt tx \<le> now c" "DecodePlan c (tx_Transfers tx) = Some q" "m = resume_message c tx q"
    using assms(6) by (auto simp: redrive_of_def split: option.splits if_splits)
  have q: "q = p" using ad(7) tx(1,3) by (simp add: stores_def)
  have id: "tx_ID tx = tid" using tx(1) by (auto simp: find_Some_iff)
  define trs where "trs = snd (loadTransfers c (PlanToProto c p))"
  have load: "fst (loadTransfers c (sm_Transfers m))" "snd (loadTransfers c (sm_Transfers m)) = trs" "map plan_entry trs = p" "list_all blank trs"
    using loaded_blank [OF assms(1) ad(5) assms(3)] by (simp_all add: trs_def tx(4) q resume_message_def)
  define x where "x = ?t\<lparr>ta_transactionID := tid, ta_createdAt := sm_CreatedAtUnix m * second, ta_transfers := trs\<rparr>"
  define w1 where "w1 = snd (db_call c ?w)"
  define u where "u = update_txns (\<lambda>r. ownRow x r \<and> tx_Status r \<in> set (startable (sm_Resume m)))
      (\<lambda>r. r\<lparr>tx_Status := TransactionStatusProcessing, tx_UpdatedAt := now c\<rparr>) w1"
  define w3 where "w3 = snd (db_call c (snd u))"
  define y where "y = (if list_ex (\<lambda>tr. tr_reversalKey tr \<noteq> None) (ta_transfers (seen c x w3)) then resume_reversing c (seen c x w3) w3 else resume_forward c (seen c x w3) w3)"
  have msg: "parse_uuid c (sm_TransactionId m) = Some tid" "sm_Resume m" "ta_createdAt x \<le> now c" "ta_transfers x = trs" "ta_transactionID x = tid" "ta_stage x = stageIdle"
    using uuid_codecD(1) [OF assms(1)] id unix_window(1) [of "tx_CreatedAt tx"] tx(2) ad(1) by (simp_all add: tx(4) resume_message_def x_def)
  have st: "start c m ?t ?w = (case fst (db_call c ?w) of Failed e \<Rightarrow> (x, w1) | LostAck e \<Rightarrow> (x, snd u)
      | NoFault \<Rightarrow> if fst u = 0 then (x, Poison (snd u)) else
          (case fst (db_call c (snd u)) of NoFault \<Rightarrow> advance c (armTimeout (fst y)) (snd y) | _ \<Rightarrow> (x, w3)))"
    using ad(1,2) msg(1,2) load(1,2) unfolding start_def resume_def x_def w1_def u_def w3_def y_def seen_def
    by (auto simp: split_beta Let_def split: fault.split)
  have world: "wallets v = wallets ?w" "ledgers v = ledgers ?w" "outbox v = outbox ?w" "n_uuid v = n_uuid ?w" "stores c tid p v"
    if "v = w1 \<or> v = snd u \<or> v = Poison (snd u) \<or> v = w3" for v
  proof -
    have s1: "stores c tid p (snd u)" unfolding u_def by (subst stores_update) (use ad(7) in \<open>simp_all add: w1_def db_call_def stores_def\<close>)
    have s2: "stores c tid p w1" using ad(7) by (simp add: w1_def db_call_def stores_def)
    show "wallets v = wallets ?w" "ledgers v = ledgers ?w" "outbox v = outbox ?w" "n_uuid v = n_uuid ?w"
      using that by (auto simp: w1_def w3_def u_def update_txns_def db_call_def Poison_def)
    show "stores c tid p v" using that s1 s2 stores_cong [of v "snd u"] by (auto simp: w3_def db_call_def Poison_def)
  qed
  have act: "sys_actor c (StartTransaction m) s = s\<lparr>sy_ta := fst (start c m ?t ?w), sy_world := snd (start c m ?t ?w)\<rparr>"
    by (simp add: sys_actor_def split_beta Let_def)
  from st consider (idle) v where "start c m ?t ?w = (x, v)" "v = w1 \<or> v = snd u \<or> v = Poison (snd u) \<or> v = w3"
    | (live) "start c m ?t ?w = advance c (armTimeout (fst y)) (snd y)"
    by (auto split: fault.splits if_splits)
  then show ?thesis
  proof cases
    case idle
    then show ?thesis unfolding act using idle_adrift [OF assms(4) msg(6,5) world [OF idle(2)]] by simp
  next
    case live
    have w3: "wallets w3 = wallets ?w" "ledgers w3 = ledgers ?w" "outbox w3 = []" "n_uuid w3 = n_uuid ?w" using world [of w3] assms(5) by simp_all
    have rs: "resuming c tid plan n x w3"
      using assms(1,2) load(3,4) msg(3,4,5) w3 ad(4,5,6) entries_cores [OF load(3)] by (simp add: resuming_def stamped_def)
    have ex: "list_ex (\<lambda>tr. tr_reversalKey tr = None) (ta_transfers x)" using ad(9) load(3) msg(4) by (fastforce simp: list_ex_iff)
    have n: "n_uuid w3 = n" if "keyless (ta_transfers x)" using that ad(8) load(3) msg(4) w3(4) unkeyed_entries [of trs] by simp
    note z = resumed_live [OF rs ex n y_def live]
    have tab: "wallets (snd (start c m ?t ?w)) = wallets ?w" "ledgers (snd (start c m ?t ?w)) = ledgers ?w"
      using blind_Receive [OF actor_blind_tables, of c "StartTransaction m" ?t ?w] by simp_all
    have "wallet_side c op (sys_actor c (StartTransaction m) s)"
      using ad(3) tab by (simp add: act wallet_side_def books_def own_copy_def coherent_def)
    moreover have "sy_replies (sys_actor c (StartTransaction m) s) = []" using assms(4) by (simp add: act adrift_def)
    ultimately have "live_inv c op tid plan n (sys_actor c (StartTransaction m) s)"
      using z ad(4) tab(2) unfolding live_inv_def sys_inv_def act wallet_side_def by (simp add: stamped_def)
    then show ?thesis using z by (simp add: act)
  qed
qed

section \<open>All or nothing across crashes\<close>

definition life_inv :: "ctx \<Rightarrow> (uuid \<Rightarrow> int) \<Rightarrow> uuid \<Rightarrow> transfer_leg list \<Rightarrow> nat \<Rightarrow> bool \<times> system \<Rightarrow> bool" where
  "life_inv c op tid plan n x \<longleftrightarrow>
     (if fst x \<and> ta_stage (sy_ta (snd x)) = stageIdle then \<exists>p. adrift c op tid plan n p (snd x) else live_inv c op tid plan n (snd x))"

definition life_event_ok :: "ctx \<Rightarrow> uuid list \<Rightarrow> uuid \<Rightarrow> life_event \<Rightarrow> bool" where
  "life_event_ok c R tid ev = (case ev of Act e \<Rightarrow> foreign_ok c R tid e | _ \<Rightarrow> True)"

lemma live_stays:
  assumes "ta_stage (sy_ta s) \<noteq> stageIdle"
  shows "ta_stage (sy_ta (sys_step c msg ev s)) \<noteq> stageIdle"
proof -
  have r: "ta_stage (fst (ta_Receive c e (sy_ta s) w)) \<noteq> stageIdle" for e w
    using Receive_rank [of "sy_ta s" c e w] assms by (cases "ta_stage (sy_ta s)") auto
  show ?thesis using assms r
    by (cases ev) (simp_all add: sys_answer_def sys_wallet_def drop_request_def split_beta Let_def del: ta_Receive.simps)
qed

lemma life_step_inv:
  assumes "uuid_codec c" "quiet c" "list_all good_leg plan" "plan \<noteq> []" "distinct (reserved c plan n)" "start_of c tid plan msg"
    and "life_event_ok c (reserved c plan n) tid ev" "life_inv c op tid plan n (crashed, s)"
    and "ev = Crash \<and> ta_stage (sy_ta s) \<noteq> stageIdle \<Longrightarrow> stores c tid (map plan_entry (ta_transfers (sy_ta s))) (sy_world s)"
  shows "life_inv c op tid plan n (life_step c tid msg ev (crashed, s))"
proof (cases ev)
  case (Act e)
  then have f: "foreign_ok c (reserved c plan n) tid e" using assms(7) by (simp add: life_event_ok_def)
  show ?thesis
  proof (cases "crashed \<and> ta_stage (sy_ta s) = stageIdle")
    case True
    then obtain p where p: "adrift c op tid plan n p s" using assms(8) by (auto simp: life_inv_def)
    have "adrift c op tid plan n p (orphan_step c msg e s)" by (rule orphan_adrift [OF assms(1,2) f p])
    then show ?thesis using True Act by (auto simp: life_inv_def adrift_def)
  next
    case False
    then have "live_inv c op tid plan n s" using assms(8) by (auto simp: life_inv_def)
    from live_step [OF assms(1-3,5,6) f this] show ?thesis using False Act live_stays [of s c msg e] by (auto simp: life_inv_def)
  qed
next
  case Crash
  show ?thesis
  proof (cases "ta_stage (sy_ta s) = stageIdle")
    case False
    then have "live_inv c op tid plan n s" using assms(8) by (simp add: life_inv_def)
    from crash_adrift [OF this False assms(4)] assms(9) Crash False show ?thesis
      by (auto simp: life_inv_def) (simp add: NewTransactionActor_def)
  qed (use assms(8) Crash in simp)
next
  case Resume
  show ?thesis
  proof (cases "crashed \<and> ta_stage (sy_ta s) = stageIdle \<and> outbox (sy_world s) = []")
    case True
    then obtain p where p: "adrift c op tid plan n p s" using assms(8) by (auto simp: life_inv_def)
    show ?thesis
    proof (cases "redrive_of c tid (sy_world s)")
      case None
      with True Resume assms(8) show ?thesis by simp
    next
      case (Some m)
      from resume_step [OF assms(1,5,3) p _ Some] True Resume Some show ?thesis
        by (auto simp: life_inv_def adrift_def simp del: sys_actor_fields)
    qed
  next
    case False
    with Resume assms(8) show ?thesis by auto
  qed
qed

lemma life_run_inv:
  assumes "uuid_codec c" "quiet c" "list_all good_leg plan" "plan \<noteq> []" "distinct (reserved c plan n)" "start_of c tid plan msg"
    and "list_all (life_event_ok c (reserved c plan n) tid) evs" "crashes_covered c tid msg evs x" "life_inv c op tid plan n x"
  shows "life_inv c op tid plan n (life_run c tid msg evs x)"
  using assms(7-9)
proof (induction evs arbitrary: x)
  case (Cons ev evs)
  obtain crashed s where x: "x = (crashed, s)" by fastforce
  have "life_inv c op tid plan n (life_step c tid msg ev (crashed, s))"
    by (rule life_step_inv [OF assms(1-6)]) (use Cons.prems x in auto)
  with Cons x show ?case by simp
qed simp

lemma life_settles:
  assumes "uuid_codec c" "quiet c" "sys_fresh c op0 tid plan s0" "plan \<noteq> []" "start_of c tid plan msg"
    and "list_all (life_event_ok c (reserved c plan (n_uuid (sy_world s0))) tid) evs" "crashes_covered c tid msg evs (False, s0)"
  shows "let s = snd (life_run c tid msg evs (False, s0)) in books c op0 (sy_world s) \<and>
    (ta_stage (sy_ta s) = stageFinalized \<longrightarrow>
      fst (final_status (sy_ta s)) = TransactionStatusSuccess \<and> applied_whole tid plan s \<or>
      fst (final_status (sy_ta s)) = TransactionStatusFailed \<and> (applied_not tid s \<or> unreconciled (sy_ta s)))"
proof -
  let ?n = "n_uuid (sy_world s0)" and ?x = "life_run c tid msg evs (False, s0)"
  have idle: "ta_stage (sy_ta s0) = stageIdle" using assms(3) by (simp add: sys_fresh_def NewTransactionActor_def)
  have "stamped c tid (sy_world s0)" using assms(3) by (auto simp: sys_fresh_def untouched_txn_def stamped_def)
  then have "life_inv c op0 tid plan ?n (False, s0)" using fresh_inv [OF assms(1,3)] idle by (simp add: life_inv_def live_inv_def)
  then have inv: "life_inv c op0 tid plan ?n ?x"
    using life_run_inv [OF assms(1,2) _ assms(4) _ assms(5-7)] assms(3) by (simp add: sys_fresh_def)
  then have "books c op0 (sy_world (snd ?x))"
    by (auto simp: life_inv_def adrift_def live_inv_def sys_inv_def wallet_side_def split: if_splits)
  moreover have "sys_inv c op0 tid plan ?n (snd ?x)" if "ta_stage (sy_ta (snd ?x)) = stageFinalized"
    using inv that by (simp add: life_inv_def live_inv_def)
  ultimately show ?thesis using finalized_net [of c op0 tid plan ?n "snd ?x"] by (auto simp: Let_def final_status_anyFailed)
qed


text \<open>
  Debits of two wallets and a credit of a third. Wallet 2 cannot pay at first, so that the first debit is undone; then someone tops it up.
\<close>

definition gap_leg :: "uuid \<Rightarrow> ledger_type \<Rightarrow> int64 \<Rightarrow> uuid \<Rightarrow> transfer_leg" where
  "gap_leg i action amount k = \<lparr>tl_WalletID = i, tl_Action = action, tl_Amount = amount, tl_Purpose = [], tl_IsFee = False, tl_IsInitial = True,
      tl_IdempotencyKey = k, tl_ReversalKey = None\<rparr>"

definition gap_plan :: "transfer_leg list" where
  "gap_plan = [gap_leg 1 LedgerTypeDebit 2 4, gap_leg 2 LedgerTypeDebit 6 5, gap_leg 3 LedgerTypeCredit 8 6]"

definition gap_ctx :: "(nat \<Rightarrow> fault) \<Rightarrow> ctx" where
  "gap_ctx n = demo_ctx\<lparr>new_uuid := (\<lambda>m. of_nat (8 + m)), fault := n\<rparr>"

definition calm :: "nat \<Rightarrow> fault" where "calm = (\<lambda>m. NoFault)"

definition faulty_at :: "nat \<Rightarrow> fault \<Rightarrow> nat \<Rightarrow> fault" where
  "faulty_at n e = (\<lambda>m. if m = n then e else NoFault)"

definition gap_wallet :: "uuid \<Rightarrow> wallet" where
  "gap_wallet i = demo_wallet\<lparr>w_ID := i, w_AvailableBalance := 5, w_ActualBalance := 5, w_Checksum := []\<rparr>"

definition gap_world :: world where
  "gap_world = empty_world\<lparr>wallets := [1 \<mapsto> gap_wallet 1, 2 \<mapsto> gap_wallet 2, 3 \<mapsto> gap_wallet 3],
     txns := [demo_tx\<lparr>tx_Transfers := Some (EncodePlan demo_ctx gap_plan)\<rparr>]\<rparr>"

definition gap_system :: "(nat \<Rightarrow> fault) \<Rightarrow> system" where
  "gap_system n = \<lparr>sy_ta = NewTransactionActor, sy_wallets = (\<lambda>i. activated (gap_ctx n) i gap_world), sy_world = gap_world, sy_replies = []\<rparr>"

definition gap_start :: StartTransactionMsg where
  "gap_start = \<lparr>sm_TransactionId = ''7'', sm_CreatedAtUnix = 0, sm_Transfers = PlanToProto demo_ctx gap_plan, sm_Resume = False\<rparr>"

definition gap_funds :: wallet_msg where
  "gap_funds = CreditWalletMsg \<lparr>wo_WalletId = ''2'', wo_Amount = 1, wo_Purpose = [], wo_TransactionId = ''0'', wo_IdempotencyKey = ''3''\<rparr>"

definition gap_steps :: "life_event list" where
  "gap_steps = [Act SysStart, Act (SysDeliver 0), Act (SysDeliver 0), Act (SysCollect 0), Act (SysCollect 0),
     Act (SysDeliver 0), Crash, Act (SysForeign 2 gap_funds), Resume,
     Act (SysDeliver 0), Act (SysCollect 0), Act (SysDeliver 0), Act (SysCollect 0), Act SysFinalize]"

definition gap_opening :: "uuid \<Rightarrow> int" where "gap_opening = (\<lambda>i. 5)"

lemma gap_codec: "uuid_codec (gap_ctx n)" and gap_quiet: "quiet (gap_ctx n)"
  using demo_codec demo_quiet by (simp_all add: gap_ctx_def uuid_codec_def quiet_def)

lemma gap_legs: "list_all good_leg gap_plan" "distinct (reserved (gap_ctx n) gap_plan 0)" "gap_plan \<noteq> []"
  by (simp_all add: gap_plan_def gap_leg_def good_leg_def amount_ok_def is_int64_def MinInt64_def MaxInt64_def reserved_def gap_ctx_def upt_rec)

lemma gap_fresh: "sys_fresh (gap_ctx n) gap_opening 7 gap_plan (gap_system n)"
proof -
  have "books (gap_ctx n) gap_opening gap_world"
    by (simp add: books_def gap_world_def gap_wallet_def empty_world_def gap_opening_def wallet_ok_def net_def unique_keys_def MaxInt64_def)
  then show ?thesis using gap_legs
    by (simp add: sys_fresh_def gap_system_def untouched_txn_def) (simp add: gap_world_def empty_world_def)
qed

lemma gap_start_of: "start_of (gap_ctx n) 7 gap_plan gap_start"
proof -
  have "parse_uuid demo_ctx ''7'' = Some 7" by code_simp
  moreover have "PlanToProto (gap_ctx n) gap_plan = PlanToProto demo_ctx gap_plan"
    by (simp add: PlanToProto_def gap_ctx_def gap_plan_def gap_leg_def)
  ultimately show ?thesis by (simp add: start_of_def gap_start_def) (simp add: gap_ctx_def)
qed

definition topped_up_steps :: "life_event list" where
  "topped_up_steps = [Act (SysForeign 2 gap_funds), Act SysStart, Act (SysDeliver 0), Crash, Act (SysLoseRequest 0), Resume,
     Act (SysDeliver 0), Act (SysCollect 0), Crash, Act (SysDeliver 0), Resume, Act SysFinalize]"

definition outcome :: "system \<Rightarrow> stage \<times> bool \<times> bool" where
  "outcome s = (ta_stage (sy_ta s), anyFailed (sy_ta s), unreconciled (sy_ta s))"

lemma gap_undone:
  "crashes_covered (gap_ctx calm) 7 gap_start gap_steps (False, gap_system calm) \<and>
   outcome (snd (life_run (gap_ctx calm) 7 gap_start gap_steps (False, gap_system calm))) = (stageFinalized, True, False)"
  by code_simp

lemma gap_done:
  "crashes_covered (gap_ctx calm) 7 gap_start topped_up_steps (False, gap_system calm) \<and>
   outcome (snd (life_run (gap_ctx calm) 7 gap_start topped_up_steps (False, gap_system calm))) = (stageFinalized, False, False)"
  by code_simp

lemma gap_events:
  "list_all (life_event_ok (gap_ctx n) (reserved (gap_ctx n) gap_plan (n_uuid (sy_world (gap_system n)))) 7) gap_steps"
  "list_all (life_event_ok (gap_ctx n) (reserved (gap_ctx n) gap_plan (n_uuid (sy_world (gap_system n)))) 7) topped_up_steps"
proof -
  have "parse_uuid (gap_ctx n) s = parse_uuid demo_ctx s" for s by (simp add: gap_ctx_def)
  moreover have "parse_uuid demo_ctx ''2'' = Some 2" "parse_uuid demo_ctx ''0'' = Some 0" "parse_uuid demo_ctx ''3'' = Some 3" by code_simp+
  moreover have "(3 :: uuid) \<notin> set (reserved (gap_ctx n) gap_plan (n_uuid (sy_world (gap_system n))))"
    by (simp add: reserved_def gap_plan_def gap_leg_def gap_ctx_def gap_system_def gap_world_def empty_world_def upt_rec)
  ultimately have "foreign_ok (gap_ctx n) (reserved (gap_ctx n) gap_plan (n_uuid (sy_world (gap_system n)))) 7 (SysForeign 2 gap_funds)"
    by (simp add: foreign_ok_def gap_funds_def is_int64_def MinInt64_def MaxInt64_def)
  then show "list_all (life_event_ok (gap_ctx n) (reserved (gap_ctx n) gap_plan (n_uuid (sy_world (gap_system n)))) 7) gap_steps"
    "list_all (life_event_ok (gap_ctx n) (reserved (gap_ctx n) gap_plan (n_uuid (sy_world (gap_system n)))) 7) topped_up_steps"
    by (simp_all add: gap_steps_def topped_up_steps_def life_event_ok_def) (simp_all add: foreign_ok_def)
qed


section \<open>A plan that was not written\<close>


end
