(* ===== verification/Plan_Storage.thy ===== *)
theory Plan_Storage
  imports Resumption
begin

text \<open>
  Where the plan of \<open>Resumption\<close> comes from. As long as no write is lost, the row of a transaction holds the plan of its actor at
  any time: the start message carries the plan of the row, \<open>persistPlan\<close> is the only place where legs get reversal keys that are used,
  and nothing else changes the plan in a row. So every crash is covered, and \<open>crash_safe\<close> applies to every run.
\<close>

section \<open>Rows\<close>

definition no_lost_writes :: "ctx \<Rightarrow> bool" where
  "no_lost_writes c \<longleftrightarrow> (\<forall>n. case fault c n of Failed m \<Rightarrow> False | _ \<Rightarrow> True)"

definition keeps_rows :: "world \<Rightarrow> world \<Rightarrow> bool" where
  "keeps_rows w w' \<longleftrightarrow> (\<exists>g. txns w' = map g (txns w) \<and>
     (\<forall>r. tx_ID (g r) = tx_ID r \<and> tx_Transfers (g r) = tx_Transfers r \<and> tx_CreatedAt (g r) = tx_CreatedAt r))"

lemma keeps_same: "txns w' = txns w \<Longrightarrow> keeps_rows w w'"
  unfolding keeps_rows_def by (rule exI [of _ id]) simp

lemma keeps_trans:
  assumes "keeps_rows w w'" "keeps_rows w' w''"
  shows "keeps_rows w w''"
proof -
  obtain g h where "txns w' = map g (txns w)" "\<And>r. tx_ID (g r) = tx_ID r \<and> tx_Transfers (g r) = tx_Transfers r \<and> tx_CreatedAt (g r) = tx_CreatedAt r"
    "txns w'' = map h (txns w')" "\<And>r. tx_ID (h r) = tx_ID r \<and> tx_Transfers (h r) = tx_Transfers r \<and> tx_CreatedAt (h r) = tx_CreatedAt r"
    using assms unfolding keeps_rows_def by blast
  then show ?thesis unfolding keeps_rows_def by (intro exI [of _ "h \<circ> g"]) simp
qed

lemma keeps_update:
  "(\<And>r. tx_ID (f r) = tx_ID r \<and> tx_Transfers (f r) = tx_Transfers r \<and> tx_CreatedAt (f r) = tx_CreatedAt r) \<Longrightarrow>
   keeps_rows w (snd (update_txns P f w))"
  unfolding keeps_rows_def update_txns_def by (rule exI [of _ "\<lambda>r. if P r then f r else r"]) simp

lemma find_keeps:
  assumes "keeps_rows w w'"
  shows "(case find (\<lambda>r. tx_ID r = tid) (txns w') of None \<Rightarrow> True | Some tx \<Rightarrow> P (tx_ID tx) (tx_Transfers tx) (tx_CreatedAt tx)) =
    (case find (\<lambda>r. tx_ID r = tid) (txns w) of None \<Rightarrow> True | Some tx \<Rightarrow> P (tx_ID tx) (tx_Transfers tx) (tx_CreatedAt tx))"
proof -
  obtain g where g: "txns w' = map g (txns w)" "\<And>r. tx_ID (g r) = tx_ID r \<and> tx_Transfers (g r) = tx_Transfers r \<and> tx_CreatedAt (g r) = tx_CreatedAt r"
    using assms unfolding keeps_rows_def by blast
  have "find (\<lambda>r. tx_ID r = tid) (map g rs) = map_option g (find (\<lambda>r. tx_ID r = tid) rs)" for rs
    by (induction rs) (simp_all add: g(2))
  then show ?thesis by (simp add: g split: option.split)
qed

text \<open>The row of the transaction is the actor's own and holds its plan.\<close>

definition in_row :: "ctx \<Rightarrow> uuid \<Rightarrow> tactor \<Rightarrow> world \<Rightarrow> bool" where
  "in_row c tid t w \<longleftrightarrow> (\<forall>x \<in> set (map tl_Amount (map plan_entry (ta_transfers t))). is_int64 x) \<and>
     (case find (\<lambda>r. tx_ID r = tid) (txns w) of
        None \<Rightarrow> True
      | Some tx \<Rightarrow> (tx_ID tx = ta_transactionID t \<and> ta_createdAt t \<le> tx_CreatedAt tx \<and> tx_CreatedAt tx < ta_createdAt t + 2 * minute) \<and>
          (case DecodePlan c (tx_Transfers tx) of None \<Rightarrow> True | Some q \<Rightarrow> q = map plan_entry (ta_transfers t)))"

definition same_plan :: "tactor \<Rightarrow> tactor \<Rightarrow> bool" where
  "same_plan t t' \<longleftrightarrow> ta_transactionID t' = ta_transactionID t \<and> ta_createdAt t' = ta_createdAt t \<and>
     map plan_entry (ta_transfers t') = map plan_entry (ta_transfers t)"

lemma in_row_keeps:
  assumes "in_row c tid t w" "keeps_rows w w'" "same_plan t t'"
  shows "in_row c tid t' w'"
proof -
  have e: "ta_transactionID t' = ta_transactionID t" "ta_createdAt t' = ta_createdAt t" "map plan_entry (ta_transfers t') = map plan_entry (ta_transfers t)"
    using assms(3) by (simp_all add: same_plan_def)
  show ?thesis using assms(1) unfolding in_row_def e
    find_keeps [OF assms(2), where P = "\<lambda>i tr at. (i = ta_transactionID t \<and> ta_createdAt t \<le> at \<and> at < ta_createdAt t + 2 * minute) \<and>
      (case DecodePlan c tr of None \<Rightarrow> True | Some q \<Rightarrow> q = map plan_entry (ta_transfers t))"] .
qed

lemma in_row_stores: "in_row c tid t w \<Longrightarrow> stores c tid (map plan_entry (ta_transfers t)) w"
  by (auto simp: in_row_def stores_def split: option.splits)

lemma same_plan_refl [simp]: "same_plan t t"
  by (simp add: same_plan_def)

lemma same_plan_trans: "same_plan t t' \<Longrightarrow> same_plan t' t'' \<Longrightarrow> same_plan t t''"
  by (simp add: same_plan_def)

lemma in_row_arm [simp]: "in_row c tid (armTimeout t) w = in_row c tid t w"
proof
  show "in_row c tid (armTimeout t) w" if "in_row c tid t w"
    by (rule in_row_keeps [OF that keeps_same]) (simp_all add: same_plan_def)
  show "in_row c tid t w" if "in_row c tid (armTimeout t) w"
    by (rule in_row_keeps [OF that keeps_same]) (simp_all add: same_plan_def)
qed

section \<open>The loops\<close>

lemma entry_frame [simp]:
  "plan_entry (fst (try_send c t a k tr w)) = plan_entry tr" "plan_entry (fst (send_reversal c t tr w)) = plan_entry tr"
  "plan_entry (tr\<lparr>tr_done := d, tr_retry := b\<rparr>) = plan_entry tr" "plan_entry (tr\<lparr>tr_done := d\<rparr>) = plan_entry tr"
  by (simp_all add: plan_entry_def try_send_leg send_reversal_def split: option.split)

lemma txns_frame [simp]:
  "txns (snd (try_send c t a k tr w)) = txns w" "txns (snd (send_reversal c t tr w)) = txns w" "txns (snd (db_call c w)) = txns w"
  "txns (send_finalize c t w) = txns w" "txns (Poison w) = txns w"
  by (simp_all add: try_send_def ta_send_def send_reversal_def db_call_def send_finalize_def Poison_def split_beta Let_def split: option.split)

lemma each_leg_plan:
  assumes "\<And>tr w. plan_entry (fst (f tr w)) = plan_entry tr"
  shows "map plan_entry (fst (each_leg f trs w)) = map plan_entry trs"
  by (induction trs arbitrary: w) (simp_all add: assms split_beta Let_def)

lemma for_legs_plan:
  assumes "\<And>tr w. plan_entry (fst (f tr w)) = plan_entry tr" "\<And>tr w. txns (snd (f tr w)) = txns w"
  shows "same_plan t (fst (for_legs f t w))" "txns (snd (for_legs f t w)) = txns w"
  using each_leg_plan [OF assms(1)] each_leg_world [of txns f, OF assms(2)] by (simp_all add: same_plan_def)

lemma loops_plan:
  "same_plan t (fst (fireLegs c t w))" "txns (snd (fireLegs c t w)) = txns w"
  "same_plan t (fst (snd (resendPending c t w)))" "txns (snd (snd (resendPending c t w))) = txns w"
  unfolding fireLegs_def resendPending_def fst_conv snd_conv by (rule for_legs_plan; simp split: option.split)+

lemma heartbeat_keeps: "keeps_rows w (heartbeat c t w)"
proof -
  let ?w = "snd (db_call c w)"
  have "keeps_rows w ?w" by (rule keeps_same) simp
  moreover have "keeps_rows ?w (snd (update_txns (\<lambda>r. ownRow t r \<and> \<not> tx_IsCompleted r) (\<lambda>r. r\<lparr>tx_UpdatedAt := now c\<rparr>) ?w))" by (rule keeps_update) simp
  ultimately show ?thesis using keeps_trans by (auto simp: heartbeat_def split_beta Let_def split: fault.split)
qed

text \<open>Writing the plan makes the row hold it.\<close>

lemma persistPlan_row:
  assumes "uuid_codec c" "no_lost_writes c" "in_row c tid t w" "ta_transactionID t' = ta_transactionID t" "ta_createdAt t' = ta_createdAt t" "txns w' = txns w"
    and "map tr_amount (ta_transfers t') = map tr_amount (ta_transfers t)"
  shows "in_row c tid t' (persistPlan c t' w')"
proof -
  let ?raw = "EncodePlan c (map plan_entry (ta_transfers t'))"
  let ?g = "\<lambda>r. if ownRow t' r then r\<lparr>tx_Transfers := Some ?raw, tx_UpdatedAt := now c\<rparr> else r"
  have "map tl_Amount (map plan_entry trs) = map tr_amount trs" for trs by (simp add: plan_entry_def)
  then have ok: "\<forall>x \<in> set (map tl_Amount (map plan_entry (ta_transfers t'))). is_int64 x"
    using assms(3,7) by (auto simp only: in_row_def)
  have dec: "DecodePlan c (Some ?raw) = Some (map plan_entry (ta_transfers t'))"
    unfolding DecodePlan_def EncodePlan_def by (rule DecodeTransferLegs_Encode) (use uuid_codecD [OF assms(1)] ok in auto)
  have nf: "\<not> (\<exists>m. fst (db_call c w') = Failed m)"
    using assms(2) unfolding no_lost_writes_def db_call_def by (auto split: fault.splits)
  have "txns (persistPlan c t' w') = map ?g (txns w')"
    using nf by (cases "fst (db_call c w')") (auto simp: persistPlan_def update_txns_def split_beta Let_def)
  moreover have "find (\<lambda>r. tx_ID r = tid) (map ?g rs) = map_option ?g (find (\<lambda>r. tx_ID r = tid) rs)" for rs
    by (induction rs) simp_all
  ultimately show ?thesis using assms(3-6) dec ok by (auto simp: in_row_def ownRow_def split: option.splits)
qed

lemma give_key_txns: "txns (snd (each_leg (give_key c) trs w)) = txns w"
  by (rule each_leg_world) (simp add: fresh_reversal_key_def)

lemma give_key_amounts: "map tr_amount (fst (each_leg (give_key c) trs w)) = map tr_amount trs"
  by (induction trs arbitrary: w) (simp_all add: fresh_reversal_key_def split_beta Let_def)

lemma fireReversals_row:
  assumes "uuid_codec c" "no_lost_writes c" "in_row c tid t w"
  shows "in_row c tid (fst (fireReversals c t w)) (snd (fireReversals c t w))"
proof -
  define t1 where "t1 = fst (for_legs (give_key c) (t\<lparr>ta_stage := stageReversing, ta_ticks := 0\<rparr>) w)"
  define w2 where "w2 = persistPlan c t1 (snd (each_leg (give_key c) (ta_transfers t) w))"
  let ?f = "\<lambda>tr w. if \<not> tr_applied tr then (tr\<lparr>tr_done := True, tr_retry := False\<rparr>, w) else send_reversal c t1 tr w"
  have fr: "fireReversals c t w = (armTimeout (fst (for_legs ?f t1 w2)), snd (for_legs ?f t1 w2))"
    unfolding fireReversals_def w2_def t1_def by (simp add: split_beta Let_def)
  have row: "in_row c tid t1 w2" unfolding w2_def
    by (rule persistPlan_row [OF assms]) (simp_all add: t1_def give_key_txns give_key_amounts)
  have "same_plan t1 (fst (for_legs ?f t1 w2))" "txns (snd (for_legs ?f t1 w2)) = txns w2" by (rule for_legs_plan; simp)+
  then show ?thesis unfolding fr using in_row_keeps [OF row keeps_same] by (simp add: same_plan_def)
qed

lemma advance_row:
  assumes "uuid_codec c" "no_lost_writes c" "in_row c tid t w"
  shows "in_row c tid (fst (advance c t w)) (snd (advance c t w))"
proof -
  have fin: "in_row c tid x (send_finalize c y v) = in_row c tid x v" for x y v by (simp add: in_row_def)
  have "in_row c tid (fst (fireCredits c t w)) (snd (fireCredits c t w))"
    using in_row_keeps [OF assms(3) keeps_same, of "snd (fireCredits c t w)" "fst (fireCredits c t w)"]
      loops_plan(1,2) [where t = "t\<lparr>ta_stage := stageCrediting, ta_ticks := 0\<rparr>" and c = c and w = w]
    by (simp add: fireCredits_def split_beta Let_def same_plan_def)
  then show ?thesis using assms(3) fireReversals_row [OF assms] by (auto simp: advance_def split_beta Let_def fin)
qed

section \<open>The handlers\<close>

lemma collect_row:
  assumes "uuid_codec c" "no_lost_writes c" "tinv t" "actor_inv c R tid cores t w (P1 @ r # P2)" "in_row c tid t w"
  shows "in_row c tid (fst (collect c r t w)) (snd (collect c r t w))"
proof (cases "working t")
  case False
  with assms(5) show ?thesis by (simp add: collect_def)
next
  case True
  show ?thesis
  proof (cases "match_leg (\<lambda>tr. inFlightKey c (ta_stage t) tr = rm_IdempotencyKey r) (ta_transfers t)")
    case None
    with True advance_row [OF assms(1,2,5)] show ?thesis by (simp add: collect_def)
  next
    case (Some i)
    note i = match_leg_bound [OF Some]
    have "actor_flows c R tid t w (P1 @ r # P2)" using assms(4) by (simp add: actor_inv_def)
    note fl = collect_leg_flows [OF tinv_ready [OF assms(3) True] conjunct1 [OF i] conjunct2 [OF i] this]
    have nd: "\<not> tr_done (ta_transfers t ! i)" and sw: "snd (collect_leg c r i t w) = w" using fl by blast+
    have upd: "map plan_entry (xs[i := x]) = map plan_entry xs" if "i < length xs" "plan_entry x = plan_entry (xs ! i)" for xs x
      using that by (simp add: map_update list_update_same_conv)
    have "same_plan t (fst (collect_leg c r i t w))"
      using nd i by (simp add: same_plan_def collect_leg_def Let_def) (intro conjI impI upd; simp add: plan_entry_def)
    then have "in_row c tid (fst (collect_leg c r i t w)) w" using in_row_keeps [OF assms(5) keeps_same] by simp
    from advance_row [OF assms(1,2) this] True Some show ?thesis by (simp add: collect_def split_beta Let_def sw)
  qed
qed

lemma tick_row: "in_row c tid t w \<Longrightarrow> in_row c tid (fst (tick c armed t w)) (snd (tick c armed t w))"
proof -
  assume r: "in_row c tid t w"
  let ?t = "t\<lparr>ta_ticks := ta_ticks t + 1\<rparr>"
  let ?x = "fst (snd (resendPending c ?t w))" and ?v = "snd (snd (resendPending c ?t w))"
  have p: "same_plan t ?x" "same_plan t (armTimeout ?x)" "keeps_rows w ?v"
    using loops_plan(3,4) [where t = ?t and c = c and w = w] by (simp_all add: same_plan_def keeps_same)
  have "keeps_rows w (heartbeat c ?x ?v)" using keeps_trans [OF p(3) heartbeat_keeps] .
  then show ?thesis using r in_row_keeps [OF r _ p(2)] in_row_keeps [OF r p(3,1)] by (simp add: tick_def split_beta Let_def)
qed

lemma redrive_row: "ta_stage t \<noteq> stageIdle \<Longrightarrow> in_row c tid t w \<Longrightarrow> in_row c tid (fst (start c m t w)) (snd (start c m t w))"
proof -
  assume ni: "ta_stage t \<noteq> stageIdle" and r: "in_row c tid t w"
  let ?x = "fst (snd (resendPending c t w))" and ?v = "snd (snd (resendPending c t w))"
  have p: "same_plan t ?x" "keeps_rows w ?v"
    using loops_plan(3,4) [where t = t and c = c and w = w] by (simp_all add: keeps_same)
  have "keeps_rows w (heartbeat c ?x ?v)" using keeps_trans [OF p(2) heartbeat_keeps] .
  then show ?thesis using ni r in_row_keeps [OF r _ p(1)] by (simp add: start_def split_beta Let_def)
qed

lemma finalize_keeps: "keeps_rows w (snd (finalize c t w))"
proof -
  have db: "keeps_rows w (snd (db_call c w))" for w by (rule keeps_same) simp
  have mr: "keeps_rows w (snd (markReversed c t x w))" for t x w
    unfolding markReversed_def Let_def snd_conv by (rule keeps_update) simp
  have fw: "keeps_rows w (snd (final_write c t s x w))" for t s x w
  proof -
    define w1 where "w1 = snd (update_txns (\<lambda>r. ownRow t r \<and> \<not> tx_IsCompleted r)
      (\<lambda>r. r\<lparr>tx_Status := s, tx_Narration := x, tx_DateCompleted := Some (now c), tx_IsCompleted := True, tx_UpdatedAt := now c\<rparr>) (snd (db_call c w)))"
    have k1: "keeps_rows w w1" unfolding w1_def by (rule keeps_trans [OF db keeps_update]) simp
    have "keeps_rows w (snd (markReversed c t rrn w1))" for rrn using keeps_trans [OF k1 mr] .
    then show ?thesis using k1 db
      by (auto simp: final_write_def split_beta Let_def w1_def split: fault.split option.split)
  qed
  have fa: "keeps_rows w (snd (final_attempts c t s x a k w))" for t s x a k w
  proof (induction k arbitrary: a w)
    case 0
    show ?case by (rule keeps_same) simp
  next
    case (Suc k)
    obtain r w1 where e: "final_write c t s x w = (r, w1)" by fastforce
    then have "keeps_rows w w1" using fw [of w t s x] by simp
    with keeps_trans [OF this Suc] e show ?case by (cases r) simp_all
  qed
  have al: "txns (alreadyFinal c t s b w) = txns w" for t s b w
    by (simp add: alreadyFinal_def db_call_def Notify_def cache_Delete_def Let_def split: fault.split option.split)
  let ?t = "stopTimer (t\<lparr>ta_stage := stageFinalized\<rparr>)"
  have "keeps_rows w (snd (finalize c t w)) \<or> (\<exists>s x. txns (snd (finalize c t w)) = txns (snd (final_attempts c ?t s x 1 finalizeAttempts w)))"
    by (auto simp: finalize_def split_beta Let_def Poison_def Notify_def cache_Delete_def al keeps_same split: option.split)
  then show ?thesis using keeps_trans [OF fa keeps_same] by blast
qed

lemma finalize_row:
  assumes "in_row c tid t w"
  shows "in_row c tid (fst (finalize c t w)) (snd (finalize c t w))"
  by (rule in_row_keeps [OF assms finalize_keeps]) (auto simp: same_plan_def finalize_def split_beta Let_def)

lemma resume_reversing_row:
  assumes "uuid_codec c" "no_lost_writes c" "in_row c tid t w"
  shows "in_row c tid (fst (resume_reversing c t w)) (snd (resume_reversing c t w))"
proof -
  define f where "f = (\<lambda>tr w. let tr1 = (if tr_failCode tr = [] \<and> \<not> tr_applied tr
            then tr\<lparr>tr_failCode := CodeUndeliverable, tr_failMsg := ''leg did not apply before recovery''\<rparr> else tr)
          in if needs_key tr1 then fresh_reversal_key c tr1 w else (tr1, w))"
  define t1 where "t1 = fst (for_legs f (t\<lparr>ta_stage := stageReversing\<rparr>) w)"
  define w1 where "w1 = snd (each_leg f (ta_transfers t) w)"
  define w2 where "w2 = (if list_ex needs_key (ta_transfers t) then persistPlan c t1 w1 else w1)"
  let ?g = "\<lambda>tr w. if \<not> tr_applied tr \<or> tr_reversed tr then (tr\<lparr>tr_done := True\<rparr>, w) else send_reversal c t1 tr w"
  have eq: "resume_reversing c t w = for_legs ?g t1 w2"
  proof -
    have "for_legs f (t\<lparr>ta_stage := stageReversing\<rparr>) w = (t1, w1)" by (simp add: t1_def w1_def prod_eq_iff)
    then show ?thesis unfolding resume_reversing_def f_def [symmetric] by (simp only: Let_def prod.case w2_def)
  qed
  have amt: "map tr_amount (fst (each_leg f trs v)) = map tr_amount trs" for trs v
    by (induction trs arbitrary: v) (simp_all add: f_def fresh_reversal_key_def split_beta Let_def)
  have tx: "txns w1 = txns w" unfolding w1_def by (rule each_leg_world) (simp add: f_def fresh_reversal_key_def Let_def)
  have keep: "map plan_entry (fst (each_leg f trs v)) = map plan_entry trs" if "\<not> list_ex needs_key trs" for trs v
    using that by (induction trs arbitrary: v) (auto simp: f_def split_beta Let_def needs_key_def plan_entry_def)
  have "in_row c tid t1 w2"
  proof (cases "list_ex needs_key (ta_transfers t)")
    case True
    then show ?thesis unfolding w2_def using persistPlan_row [OF assms _ _ tx, of t1] by (simp add: t1_def amt)
  next
    case False
    then show ?thesis unfolding w2_def using in_row_keeps [OF assms(3) keeps_same [OF tx], of t1] keep [OF False] by (simp add: t1_def same_plan_def)
  qed
  moreover have "same_plan t1 (fst (for_legs ?g t1 w2))" "txns (snd (for_legs ?g t1 w2)) = txns w2" by (rule for_legs_plan; simp)+
  ultimately show ?thesis unfolding eq using in_row_keeps keeps_same by blast
qed

lemma resume_row:
  assumes "uuid_codec c" "no_lost_writes c" "in_row c tid t w"
  shows "in_row c tid (fst (resume c t w)) (snd (resume c t w))"
proof -
  let ?w = "snd (db_call c w)"
  let ?t = "t\<lparr>ta_transfers := map (leg_progress (ledger_keys c t ?w)) (ta_transfers t)\<rparr>"
  have r: "in_row c tid t ?w" using assms(3) by (simp add: in_row_def)
  then have r1: "in_row c tid ?t ?w" using in_row_keeps [OF r keeps_same, of ?w ?t] by (simp add: same_plan_def progress_frame)
  have fwd: "in_row c tid (fst (resume_forward c ?t ?w)) (snd (resume_forward c ?t ?w))"
  proof -
    let ?x = "?t\<lparr>ta_stage := (if debitsApplied ?t then stageCrediting else stageProcessing),
       ta_transfers := map (\<lambda>tr. if tr_applied tr then tr\<lparr>tr_done := True\<rparr> else tr) (ta_transfers ?t)\<rparr>"
    have "same_plan ?t ?x" by (auto simp: same_plan_def)
    then have "same_plan ?t (fst (fireLegs c ?x ?w))" using loops_plan(1) same_plan_trans by blast
    then show ?thesis unfolding resume_forward_def using in_row_keeps [OF r1 keeps_same [OF loops_plan(2)]] by blast
  qed
  show ?thesis
    using r advance_row [OF assms(1,2), of tid "armTimeout _"] fwd resume_reversing_row [OF assms(1,2) r1]
    by (simp add: resume_def split_beta Let_def split: fault.split)
qed

lemma start_row:
  assumes "uuid_codec c" "no_lost_writes c" "ta_stage t = stageIdle" "parse_uuid c (sm_TransactionId m) = Some tid"
    and "ta_transactionID t = uuid_Nil \<or> ta_transactionID t = tid" "loadTransfers c (sm_Transfers m) = (True, trs)"
    and "in_row c tid (t\<lparr>ta_transactionID := tid, ta_createdAt := sm_CreatedAtUnix m * second, ta_transfers := trs\<rparr>) w"
  shows "in_row c tid (fst (start c m t w)) (snd (start c m t w)) \<and> (ta_stage (fst (start c m t w)) = stageIdle \<longrightarrow> keeps_rows w (snd (start c m t w)))"
proof -
  define x where "x = t\<lparr>ta_transactionID := tid, ta_createdAt := sm_CreatedAtUnix m * second, ta_transfers := trs\<rparr>"
  define w1 where "w1 = snd (db_call c w)"
  define u where "u = update_txns (\<lambda>r. ownRow x r \<and> tx_Status r \<in> set (startable (sm_Resume m)))
      (\<lambda>r. r\<lparr>tx_Status := TransactionStatusProcessing, tx_UpdatedAt := now c\<rparr>) w1"
  have k1: "keeps_rows w w1" unfolding w1_def by (rule keeps_same) simp
  have k2: "keeps_rows w (snd u)" unfolding u_def by (rule keeps_trans [OF k1 keeps_update]) simp
  have kp: "keeps_rows w (Poison (snd u))" using keeps_trans [OF k2 keeps_same] by simp
  note row = in_row_keeps [OF assms(7) [folded x_def] _ same_plan_refl]
  let ?y = "x\<lparr>ta_stage := stageProcessing\<rparr>"
  have "in_row c tid (fst (fireLegs c ?y (snd u))) (snd (fireLegs c ?y (snd u)))"
    using in_row_keeps [OF row [OF k2] keeps_same [OF loops_plan(2)], of "fst (fireLegs c ?y (snd u))" c ?y] loops_plan(1) [where t = ?y and c = c and w = "snd u"]
    by (simp add: same_plan_def)
  then have fwd: "in_row c tid (armTimeout (fst (fireLegs c ?y (snd u)))) (snd (fireLegs c ?y (snd u)))" by simp
  have st: "start c m t w = (case fst (db_call c w) of Failed e \<Rightarrow> (x, w1) | LostAck e \<Rightarrow> (x, snd u)
      | NoFault \<Rightarrow> if fst u = 0 then (x, Poison (snd u)) else if sm_Resume m then resume c x (snd u)
          else advance c (armTimeout (fst (fireLegs c ?y (snd u)))) (snd (fireLegs c ?y (snd u))))"
    using assms(3-6) unfolding start_def x_def w1_def u_def by (auto simp: split_beta Let_def split: fault.split)
  have ra: "ta_stage (fst (advance c (armTimeout (fst (fireLegs c ?y (snd u)))) v)) \<noteq> stageIdle" for v
    using advance_rank [of "armTimeout (fst (fireLegs c ?y (snd u)))" c v] by auto
  have rr: "keeps_rows w (snd (resume c x (snd u)))" if idle: "ta_stage (fst (resume c x (snd u))) = stageIdle"
  proof (cases "fst (db_call c (snd u))")
    case NoFault
    have stg: "ta_stage (fst (resume_reversing c z v)) \<noteq> stageIdle" "ta_stage (fst (resume_forward c z v)) \<noteq> stageIdle" for z v
      by (simp_all add: resume_reversing_def resume_forward_def fireLegs_def split_beta Let_def)
    obtain y v where y: "resume c x (snd u) = advance c (armTimeout y) v" "ta_stage y \<noteq> stageIdle"
    proof
      let ?w = "snd (db_call c (snd u))"
      let ?s = "seen c x ?w"
      let ?y = "if list_ex (\<lambda>tr. tr_reversalKey tr \<noteq> None) (ta_transfers ?s) then resume_reversing c ?s ?w else resume_forward c ?s ?w"
      show "resume c x (snd u) = advance c (armTimeout (fst ?y)) (snd ?y)"
        using NoFault by (simp add: resume_def seen_def split_beta Let_def)
      show "ta_stage (fst ?y) \<noteq> stageIdle" using stg by simp
    qed
    have "ta_stage (fst (advance c (armTimeout y) v)) \<noteq> stageIdle"
      using advance_rank [of "armTimeout y" c v] y(2) by (cases "ta_stage y") auto
    with idle y(1) show ?thesis by simp
  qed (use keeps_trans [OF k2 keeps_same] in \<open>simp_all add: resume_def split_beta Let_def\<close>)
  show ?thesis unfolding st
    using row [OF k1] row [OF k2] row [OF kp] k1 k2 kp advance_row [OF assms(1,2) fwd] ra resume_row [OF assms(1,2) row [OF k2]] rr
    by (auto split: fault.split)
qed

section \<open>The system\<close>

text \<open>Before the start: the row was made in the two minutes the start message names, and holds the plan the message carries.\<close>

definition row_ready :: "ctx \<Rightarrow> uuid \<Rightarrow> transfer_leg list \<Rightarrow> StartTransactionMsg \<Rightarrow> world \<Rightarrow> bool" where
  "row_ready c tid plan msg w \<longleftrightarrow>
     (case find (\<lambda>r. tx_ID r = tid) (txns w) of
        None \<Rightarrow> True
      | Some tx \<Rightarrow> (sm_CreatedAtUnix msg * second \<le> tx_CreatedAt tx \<and> tx_CreatedAt tx < sm_CreatedAtUnix msg * second + 2 * minute) \<and>
          (case DecodePlan c (tx_Transfers tx) of None \<Rightarrow> True | Some q \<Rightarrow> q = plan))"

definition plan_inv :: "ctx \<Rightarrow> uuid \<Rightarrow> transfer_leg list \<Rightarrow> StartTransactionMsg \<Rightarrow> bool \<times> system \<Rightarrow> bool" where
  "plan_inv c tid plan msg x \<longleftrightarrow>
     (if ta_stage (sy_ta (snd x)) \<noteq> stageIdle then in_row c tid (sy_ta (snd x)) (sy_world (snd x))
      else \<not> fst x \<longrightarrow> row_ready c tid plan msg (sy_world (snd x)))"

lemma row_ready_keeps: "keeps_rows w w' \<Longrightarrow> row_ready c tid plan msg w \<Longrightarrow> row_ready c tid plan msg w'"
  unfolding row_ready_def
  using find_keeps [where w = w and w' = w' and tid = tid and
      P = "\<lambda>i tr at. (sm_CreatedAtUnix msg * second \<le> at \<and> at < sm_CreatedAtUnix msg * second + 2 * minute) \<and>
      (case DecodePlan c tr of None \<Rightarrow> True | Some q \<Rightarrow> q = plan)"] by (simp only:)

lemma plan_inv_aside:
  assumes "plan_inv c tid plan msg (crashed, s)" "aside c s s'"
  shows "plan_inv c tid plan msg (crashed, s')"
proof -
  have "keeps_rows (sy_world s) (sy_world s')" "sy_ta s' = sy_ta s" using assms(2) by (auto simp: aside_def intro: keeps_same)
  then show ?thesis using assms(1) in_row_keeps [OF _ _ same_plan_refl] row_ready_keeps by (auto simp: plan_inv_def)
qed

lemma loaded_row:
  assumes "uuid_codec c" "map plan_core p = map plan_core plan" "list_all good_leg plan" "sm_Transfers m = PlanToProto c p"
    and "row_ready c tid p m w" "trs = snd (loadTransfers c (sm_Transfers m))"
  shows "loadTransfers c (sm_Transfers m) = (True, trs)"
    "in_row c tid (t\<lparr>ta_transactionID := tid, ta_createdAt := sm_CreatedAtUnix m * second, ta_transfers := trs\<rparr>) w"
proof -
  have load: "fst (loadTransfers c (PlanToProto c p))" "map plan_entry trs = p"
    using loaded_blank [OF assms(1-3)] assms(4,6) by simp_all
  then show "loadTransfers c (sm_Transfers m) = (True, trs)" using assms(4,6) by (metis prod.collapse)
  have "\<forall>l \<in> set p. is_int64 (tl_Amount l)"
  proof
    fix l assume "l \<in> set p"
    then have "plan_core l \<in> set (map plan_core plan)" using assms(2) by (metis image_eqI set_map)
    then show "is_int64 (tl_Amount l)" using assms(3) by (auto simp: list_all_iff good_leg_def plan_core_def amount_ok_def)
  qed
  then have amounts: "\<forall>x \<in> set (map tl_Amount (map plan_entry trs)). is_int64 x" unfolding load(2) by auto
  define x where "x = t\<lparr>ta_transactionID := tid, ta_createdAt := sm_CreatedAtUnix m * second, ta_transfers := trs\<rparr>"
  have x: "ta_transactionID x = tid" "ta_createdAt x = sm_CreatedAtUnix m * second" "ta_transfers x = trs" by (simp_all add: x_def)
  have "in_row c tid x w"
  proof (cases "find (\<lambda>r. tx_ID r = tid) (txns w)")
    case None
    with amounts show ?thesis unfolding in_row_def x by simp
  next
    case (Some tx)
    then have "tx_ID tx = tid" by (auto simp: find_Some_iff)
    with amounts assms(5) Some show ?thesis unfolding in_row_def row_ready_def x load(2) by simp
  qed
  then show "in_row c tid (t\<lparr>ta_transactionID := tid, ta_createdAt := sm_CreatedAtUnix m * second, ta_transfers := trs\<rparr>) w" by (simp only: x_def)
qed

lemma live_step_plan:
  assumes "uuid_codec c" "quiet c" "no_lost_writes c" "list_all good_leg plan" "start_of c tid plan msg" "foreign_ok c (reserved c plan n) tid ev"
    and "live_inv c op tid plan n s" "plan_inv c tid plan msg (crashed, s)" "\<not> (crashed \<and> ta_stage (sy_ta s) = stageIdle)"
  shows "plan_inv c tid plan msg (crashed, sys_step c msg ev s)"
proof (cases "outside ev")
  case True
  have inv: "sys_inv c op tid plan n s" using assms(7) by (simp add: live_inv_def)
  obtain A where "sys_flows c (set (reserved c plan n)) tid A s" using sys_inv_flows [OF inv] by blast
  from outside_step [OF assms(1,2) sys_inv_side [OF inv] assms(6) True this, of msg]
  show ?thesis using plan_inv_aside [OF assms(8)] by blast
next
  case False
  have inv: "sys_inv c op tid plan n s" using assms(7) by (simp add: live_inv_def)
  show ?thesis
  proof (cases "ta_stage (sy_ta s) = stageIdle")
    case ni: False
    have row: "in_row c tid (sy_ta s) (sy_world s)" using assms(8) ni by (simp add: plan_inv_def)
    have "in_row c tid (sy_ta (sys_step c msg ev s)) (sy_world (sys_step c msg ev s))"
    proof (cases ev)
      case (SysCollect m)
      show ?thesis
      proof (cases "m < length (sy_replies s)")
        case True
        have "actor_inv c (set (reserved c plan n)) tid (map plan_core plan) (sy_ta s) (sy_world s) (take m (sy_replies s) @ sy_replies s ! m # drop (Suc m) (sy_replies s))"
          using inv ni split_at [OF True] by (simp add: sys_inv_def)
        with collect_row [OF assms(1,3) _ this row] inv SysCollect True show ?thesis by (simp add: sys_inv_def)
      qed (use SysCollect row in simp)
    qed (use False ni row tick_row finalize_row redrive_row in \<open>simp_all add: outside_def\<close>)
    then show ?thesis using live_stays [OF ni, of c msg ev] by (simp add: plan_inv_def)
  next
    case True
    then have nc: "\<not> crashed" and rr: "row_ready c tid plan msg (sy_world s)" using assms(8,9) by (simp_all add: plan_inv_def)
    have tx: "ta_transactionID (sy_ta s) = uuid_Nil \<or> ta_transactionID (sy_ta s) = tid" "sy_replies s = []" using inv True by (simp_all add: sys_inv_def)
    show ?thesis
    proof (cases "ev = SysStart")
      case start: True
      have msg: "parse_uuid c (sm_TransactionId msg) = Some tid" "sm_Transfers msg = PlanToProto c plan" using assms(5) by (simp_all add: start_of_def)
      note ld = loaded_row [OF assms(1) refl assms(4) msg(2) rr refl]
      from start_row [OF assms(1,3) True msg(1) tx(1) ld(1,2)]
      show ?thesis using start nc rr row_ready_keeps [of "sy_world s"] by (auto simp: plan_inv_def)
    next
      case ne: False
      have "sy_ta (sys_step c msg ev s) = sy_ta s \<and> sy_world (sys_step c msg ev s) = sy_world s"
        using False ne True tx(2) by (cases ev) (simp_all add: outside_def tick_def finalize_def working_def)
      then show ?thesis using rr True nc by (simp add: plan_inv_def)
    qed
  qed
qed

lemma resume_plan:
  assumes "uuid_codec c" "no_lost_writes c" "list_all good_leg plan" "adrift c op tid plan n p s" "redrive_of c tid (sy_world s) = Some m"
  shows "in_row c tid (sy_ta (sys_actor c (StartTransaction m) s)) (sy_world (sys_actor c (StartTransaction m) s))"
proof -
  have ad: "ta_stage (sy_ta s) = stageIdle" "ta_transactionID (sy_ta s) = uuid_Nil \<or> ta_transactionID (sy_ta s) = tid"
    "map plan_core p = map plan_core plan" "stores c tid p (sy_world s)"
    using assms(4) unfolding adrift_def by auto
  obtain tx q where tx: "find (\<lambda>r. tx_ID r = tid) (txns (sy_world s)) = Some tx" "DecodePlan c (tx_Transfers tx) = Some q" "m = resume_message c tx q"
    using assms(5) by (auto simp: redrive_of_def split: option.splits if_splits)
  have q: "q = p" using ad(4) tx(1,2) by (simp add: stores_def)
  have id: "tx_ID tx = tid" using tx(1) by (auto simp: find_Some_iff)
  have msg: "parse_uuid c (sm_TransactionId m) = Some tid" "sm_Transfers m = PlanToProto c p"
    using uuid_codecD(1) [OF assms(1)] id by (simp_all add: tx(3) q resume_message_def)
  have rr: "row_ready c tid p m (sy_world s)"
    using unix_window [of "tx_CreatedAt tx"] tx(1,2) q by (simp add: row_ready_def tx(3) resume_message_def)
  note ld = loaded_row [OF assms(1) ad(3) assms(3) msg(2) rr refl]
  from start_row [OF assms(1,2) ad(1) msg(1) ad(2) ld(1,2)] show ?thesis by simp
qed

lemma life_step_plan:
  assumes "uuid_codec c" "quiet c" "no_lost_writes c" "list_all good_leg plan" "start_of c tid plan msg"
    and "life_event_ok c (reserved c plan n) tid ev" "life_inv c op tid plan n (crashed, s)" "plan_inv c tid plan msg (crashed, s)"
  shows "plan_inv c tid plan msg (life_step c tid msg ev (crashed, s))"
proof (cases ev)
  case (Act e)
  then have f: "foreign_ok c (reserved c plan n) tid e" using assms(6) by (simp add: life_event_ok_def)
  show ?thesis
  proof (cases "crashed \<and> ta_stage (sy_ta s) = stageIdle")
    case True
    then obtain p where p: "adrift c op tid plan n p s" using assms(7) by (auto simp: life_inv_def)
    have "adrift c op tid plan n p (orphan_step c msg e s)" by (rule orphan_adrift [OF assms(1,2) f p])
    then show ?thesis using True Act by (simp add: plan_inv_def adrift_def)
  next
    case False
    then have "live_inv c op tid plan n s" using assms(7) by (auto simp: life_inv_def)
    from live_step_plan [OF assms(1-5) f this assms(8) False] show ?thesis using False Act by auto
  qed
next
  case Crash
  show ?thesis
  proof (cases "ta_stage (sy_ta s) = stageIdle")
    case False
    then show ?thesis using Crash by (simp add: plan_inv_def) (simp add: NewTransactionActor_def)
  qed (use assms(8) Crash in simp)
next
  case Resume
  show ?thesis
  proof (cases "crashed \<and> ta_stage (sy_ta s) = stageIdle \<and> outbox (sy_world s) = []")
    case True
    then obtain p where p: "adrift c op tid plan n p s" using assms(7) by (auto simp: life_inv_def)
    show ?thesis
    proof (cases "redrive_of c tid (sy_world s)")
      case None
      with True Resume assms(8) show ?thesis by simp
    next
      case (Some m)
      from resume_plan [OF assms(1,3,4) p Some] True Resume Some show ?thesis by (simp add: plan_inv_def)
    qed
  next
    case False
    with Resume assms(8) show ?thesis by auto
  qed
qed

lemma covered_run:
  assumes "uuid_codec c" "quiet c" "no_lost_writes c" "list_all good_leg plan" "plan \<noteq> []" "distinct (reserved c plan n)" "start_of c tid plan msg"
    and "list_all (life_event_ok c (reserved c plan n) tid) evs" "life_inv c op tid plan n x" "plan_inv c tid plan msg x"
  shows "crashes_covered c tid msg evs x"
  using assms(8-10)
proof (induction evs arbitrary: x)
  case (Cons ev evs)
  obtain crashed s where x: "x = (crashed, s)" by fastforce
  have cov: "stores c tid (map plan_entry (ta_transfers (sy_ta s))) (sy_world s)" if "ta_stage (sy_ta s) \<noteq> stageIdle"
    using Cons.prems(3) that x in_row_stores by (simp add: plan_inv_def)
  have ok: "life_event_ok c (reserved c plan n) tid ev" using Cons.prems(1) by simp
  have "life_inv c op tid plan n (life_step c tid msg ev (crashed, s))"
    by (rule life_step_inv [OF assms(1,2,4-7) ok]) (use Cons.prems x cov in auto)
  moreover have "plan_inv c tid plan msg (life_step c tid msg ev (crashed, s))"
    by (rule life_step_plan [OF assms(1-4,7) ok]) (use Cons.prems x in auto)
  ultimately show ?case using Cons.IH Cons.prems(1) cov x by simp
qed simp

lemma fresh_covered:
  assumes "uuid_codec c" "quiet c" "no_lost_writes c" "sys_fresh c op0 tid plan s0" "plan \<noteq> []" "start_of c tid plan msg"
    and "row_ready c tid plan msg (sy_world s0)" "list_all (life_event_ok c (reserved c plan (n_uuid (sy_world s0))) tid) evs"
  shows "crashes_covered c tid msg evs (False, s0)"
proof (rule covered_run [OF assms(1-3) _ assms(5) _ assms(6,8)])
  have idle: "ta_stage (sy_ta s0) = stageIdle" using assms(4) by (simp add: sys_fresh_def NewTransactionActor_def)
  have "stamped c tid (sy_world s0)" using assms(4) by (auto simp: sys_fresh_def untouched_txn_def stamped_def)
  then show "life_inv c op0 tid plan (n_uuid (sy_world s0)) (False, s0)"
    using fresh_inv [OF assms(1,4)] idle by (simp add: life_inv_def live_inv_def)
  show "plan_inv c tid plan msg (False, s0)" using assms(7) idle by (simp add: plan_inv_def)
qed (use assms(4) in \<open>simp_all add: sys_fresh_def\<close>)

text \<open>
  Claim C4. The row is always up to date. If no write of the database is lost (calls may still fail after their effect), and the row the
  transaction starts from holds its plan, then at every crash of every run the row holds the plan of the actor that dies, with all reversal keys it has
  given: what \<open>crash_safe\<close> asks of a crash.
\<close>

theorem stored_plan_current:
  assumes "uuid_codec c" "quiet c" "no_lost_writes c" "sys_fresh c op0 tid plan s0" "plan \<noteq> []" "start_of c tid plan msg"
    and "row_ready c tid plan msg (sy_world s0)" "list_all (life_event_ok c (reserved c plan (n_uuid (sy_world s0))) tid) evs"
  shows "crashes_covered c tid msg evs (False, s0)"
  using fresh_covered [OF assms] .

text \<open>In the run the witness is for, the write of the plan takes effect and its answer is lost.\<close>

lemma gap_no_lost_writes: "no_lost_writes (gap_ctx (faulty_at n (LostAck m)))"
  by (simp add: no_lost_writes_def gap_ctx_def faulty_at_def)

lemma gap_row_ready: "row_ready (gap_ctx f) 7 gap_plan gap_start (sy_world (gap_system f))"
proof -
  have "DecodePlan (gap_ctx f) (Some (EncodePlan demo_ctx gap_plan)) = Some gap_plan"
    unfolding DecodePlan_def EncodePlan_def
    by (rule DecodeTransferLegs_Encode)
      (use uuid_codecD(1) [OF demo_codec] gap_legs(1) in \<open>auto simp: gap_ctx_def list_all_iff good_leg_def amount_ok_def\<close>)
  then show ?thesis
    by (simp add: row_ready_def gap_system_def gap_world_def empty_world_def gap_start_def demo_tx_def minute_def second_def)
qed

theorem stored_plan_current_witness:
  "let c = gap_ctx (faulty_at 6 (LostAck [])); s = gap_system (faulty_at 6 (LostAck [])) in
   no_lost_writes c \<and> crashes_covered c 7 gap_start gap_steps (False, s) \<and> crashes_covered c 7 gap_start topped_up_steps (False, s)"
  unfolding Let_def
  using stored_plan_current [OF gap_codec gap_quiet gap_no_lost_writes gap_fresh gap_legs(3) gap_start_of gap_row_ready gap_events(1)]
    stored_plan_current [OF gap_codec gap_quiet gap_no_lost_writes gap_fresh gap_legs(3) gap_start_of gap_row_ready gap_events(2)]
    gap_no_lost_writes by blast

end
