(* ===== verification/Initiated.thy ===== *)
theory Initiated
  imports Transaction_Guarantees Plan_Storage
begin

text \<open>
  From a request to its settlement. \<open>Initiate\<close> leaves the database and the start message in just the state \<open>Settlement\<close>,
  \<open>Resumption\<close> and \<open>Plan_Storage\<close> start from, so that what they show holds of every transaction a client gets accepted.
\<close>

section \<open>UUIDs\<close>

text \<open>The next \<open>k\<close> UUIDs are different from each other and from those in the ledger and the transactions table.\<close>

definition unused_uuids :: "ctx \<Rightarrow> nat \<Rightarrow> world \<Rightarrow> bool" where
  "unused_uuids c k w \<longleftrightarrow> distinct (map (new_uuid c) [n_uuid w..<n_uuid w + k]) \<and>
     (\<forall>u \<in> set (map (new_uuid c) [n_uuid w..<n_uuid w + k]).
        (\<forall>l \<in> set (ledgers w). l_TransactionID l \<noteq> u \<and> l_IdempotencyKey l \<noteq> Some u) \<and> (\<forall>r \<in> set (txns w). tx_ID r \<noteq> u))"

lemma draws_frame [simp]:
  "n_uuid (sv_world (snd (GenerateRrn_svc c s))) = n_uuid (sv_world s)" "n_uuid (sv_world (snd (uuid_New c s))) = Suc (n_uuid (sv_world s))"
  "fst (uuid_New c s) = new_uuid c (n_uuid (sv_world s))" "n_uuid (sv_world (with_cache f s)) = n_uuid (sv_world s)"
  by (simp_all add: GenerateRrn_svc_def uuid_New_def with_cache_def split_beta Let_def)

lemma reads_frame [simp]:
  "n_uuid (sv_world (snd (FindByID c i s))) = n_uuid (sv_world s)" "n_uuid (sv_world (snd (ValidateWallets c ids s))) = n_uuid (sv_world s)"
proof -
  have p: "n_uuid (sv_world (cacheProfile c p s)) = n_uuid (sv_world s)" for p s by (simp add: cacheProfile_def Let_def split: option.split)
  have m: "n_uuid (sv_world (cache_metas c rows s)) = n_uuid (sv_world s)" for rows s
    unfolding cache_metas_def by (induction rows arbitrary: s) simp_all
  show "n_uuid (sv_world (snd (FindByID c i s))) = n_uuid (sv_world s)"
    by (simp add: FindByID_def svc_query_def p split_beta Let_def split: option.split)
  show "n_uuid (sv_world (snd (ValidateWallets c ids s))) = n_uuid (sv_world s)"
    by (simp add: ValidateWallets_def svc_query_def m split_beta Let_def split: option.split)
qed

lemma create_frame: "n_uuid (sv_world (snd (create_attempts c k e tx s))) = n_uuid (sv_world s)"
proof (induction k arbitrary: e tx s)
  case (Suc k)
  have i: "n_uuid (sv_world (snd (insert_txn c tx s))) = n_uuid (sv_world s)"
    by (simp add: insert_txn_def split_beta Let_def split: fault.split)
  then show ?case
    by (cases "insert_txn c tx s"; cases "fst (insert_txn c tx s)") (simp_all add: Suc split_beta Let_def)
qed simp

lemma dispatch_frame: "n_uuid (sv_world (snd (dispatch c tx legs s))) = n_uuid (sv_world s)"
proof -
  have "n_uuid (sv_world (snd (txn_create c tx s))) = n_uuid (sv_world s)" for tx s by (simp add: txn_create_def create_frame)
  from this [of "tx\<lparr>tx_Transfers := Some (EncodePlan c legs)\<rparr>" "s\<lparr>sv_world := (sv_world s)\<lparr>n_pid := Suc (n_pid (sv_world s))\<rparr>\<rparr>"]
  show ?thesis by (auto simp: dispatch_def Let_def split: prod.splits sum.splits)
qed

lemma built_id: "tx_ID (fst (buildTransaction c payload pl ws s)) = new_uuid c (n_uuid (sv_world s))"
  and built_frame: "n_uuid (sv_world (snd (buildTransaction c payload pl ws s))) = Suc (n_uuid (sv_world s))"
proof -
  have p: "tx_ID (set_party ws tx e) = tx_ID tx" for tx e
    by (simp add: set_party_def set_sender_def set_receiver_def Let_def split: option.split)
  have "tx_ID (foldl (set_party ws) tx es) = tx_ID tx" for tx es by (induction es arbitrary: tx) (simp_all add: p)
  then show "tx_ID (fst (buildTransaction c payload pl ws s)) = new_uuid c (n_uuid (sv_world s))"
    by (simp add: buildTransaction_def split_beta Let_def)
  show "n_uuid (sv_world (snd (buildTransaction c payload pl ws s))) = Suc (n_uuid (sv_world s))"
    by (simp add: buildTransaction_def split_beta Let_def)
qed

section \<open>The accepted request\<close>

text \<open>What the types of the request and the \<open>oneof=debit credit\<close> rule of its validator give.\<close>

definition entries_typed :: "TransactionReqDto \<Rightarrow> bool" where
  "entries_typed payload \<longleftrightarrow> (\<forall>e \<in> set (rq_Transfers payload). (en_Action e = LedgerTypeDebit \<or> en_Action e = LedgerTypeCredit) \<and>
     is_int64 (m_units (en_Amount e)) \<and> m_scale (en_Amount e) \<le> 18)"

text \<open>The plan of a request: its entries in order, in minor units of its currency, with the next UUIDs as keys.\<close>

definition request_plan :: "ctx \<Rightarrow> TransactionReqDto \<Rightarrow> nat \<Rightarrow> transfer_leg list" where
  "request_plan c payload n =
     (case Lookup (unicode_upper c) (rq_Currency payload) of None \<Rightarrow> [] | Some cur \<Rightarrow> entry_legs c (c_Exponent cur) (rq_Transfers payload) n)"

lemma Minor_int64:
  assumes "is_int64 (m_units m)" "m_scale m \<le> 18" "Minor m e = Inr v"
  shows "is_int64 v"
proof -
  consider "m_scale m = e" | "m_scale m < e" | "e < m_scale m" by linarith
  then show ?thesis
  proof cases
    case 3
    define f where "f = pow10 (m_scale m - e)"
    have f: "0 < f" using assms(2) pow10_pos [of "m_scale m - e"] by (simp add: f_def)
    have v: "v = m_units m sdiv f" using assms(3) 3 by (simp add: Minor_def Let_def f_def split: if_splits)
    have "\<bar>m_units m\<bar> div f \<le> \<bar>m_units m\<bar>" using zdiv_mono2 [of "\<bar>m_units m\<bar>" 1 f] f by simp
    moreover have "0 \<le> \<bar>m_units m\<bar> div f" using f by (simp add: pos_imp_zdiv_nonneg_iff)
    ultimately show ?thesis using assms(1) f unfolding v signed_divide_int_def is_int64_def MinInt64_def MaxInt64_def
      by (cases "m_units m" "0 :: int" rule: linorder_cases) auto
  qed (use assms in \<open>auto simp: Minor_def Let_def split: if_splits\<close>)
qed

lemma Initiate_accepted:
  assumes "Initiate c payload s = (Inr d, s')"
  defines "n \<equiv> n_uuid (sv_world s)" and "k \<equiv> length (rq_Transfers payload)"
  obtains row ws mer cur grand fee where "request_ok c payload ws mer cur grand fee" "tx_ID row = new_uuid c (n + k)" "tx_CreatedAt row = now c"
    "tx_Transfers row = Some (EncodePlan c (request_plan c payload n))" "n_uuid (sv_world s') = Suc (n + k)"
    "txbox (sv_world s') = txbox (sv_world s) @ [(tx_ID row, start_message c row (request_plan c payload n))]"
    "txns (sv_world s') = txns (sv_world s) @ [row]" "wallets (sv_world s') = wallets (sv_world s)"
    "ledgers (sv_world s') = ledgers (sv_world s)" "outbox (sv_world s') = outbox (sv_world s)"
proof -
  let ?v = "ValidateWallets c (map en_WalletID (rq_Transfers payload)) s"
  obtain ws where ws: "fst ?v = Inr ws" using assms(1) by (cases "fst ?v") (auto simp: Initiate_def split: prod.splits)
  let ?f = "FindByID c (rq_MerchantID payload) (snd ?v)"
  obtain merchant where m: "fst ?f = Inr merchant"
    using assms(1) ws by (cases "fst ?f") (auto simp: Initiate_def split_beta)
  obtain r n' where val: "ValidateTransactionRequest c payload ws merchant n = (r, n')" by fastforce
  let ?s3 = "(snd ?f)\<lparr>sv_world := (sv_world (snd ?f))\<lparr>n_uuid := n'\<rparr>\<rparr>"
  have ini: "Initiate c payload s = (case r of Inl e \<Rightarrow> (Inl e, ?s3)
      | Inr pl \<Rightarrow> dispatch c (fst (buildTransaction c payload pl ws ?s3)) (pl_Legs pl) (snd (buildTransaction c payload pl ws ?s3)))"
    using ws m val by (cases r) (simp_all add: Initiate_def split_beta Let_def n_def)
  then obtain pl where pl: "r = Inr pl" using assms(1) by (cases r) auto
  from val [unfolded pl] obtain mer cur grand fee where ok: "request_ok c payload ws mer cur grand fee" "n' = n + k"
    and plan: "pl_Legs pl = entry_legs c (c_Exponent cur) (rq_Transfers payload) n"
    unfolding k_def by (rule accepted_plan) simp
  have rp: "request_plan c payload n = pl_Legs pl" using request_okD(1) [OF ok(1)] plan by (simp add: request_plan_def)
  let ?b = "buildTransaction c payload pl ws ?s3"
  have d: "dispatch c (fst ?b) (pl_Legs pl) (snd ?b) = (Inr d, s')" using ini pl assms(1) by simp
  have "db_view (snd ?b) = db_view s" by simp
  note bd = db_viewD [OF this]
  have nb: "n_uuid (sv_world s') = Suc (n + k)" using dispatch_frame [of c "fst ?b" "pl_Legs pl" "snd ?b"] d ok(2) by (simp add: built_frame)
  from d show thesis
  proof (cases rule: dispatch_spec)
    case (sent row)
    have "tx_ID row = new_uuid c (n + k)" "tx_CreatedAt row = now c" "tx_Transfers row = Some (EncodePlan c (pl_Legs pl))"
      using sent(2) ok(2) by (auto simp: row_of_def built_id)
    then show thesis using sent(3-7) bd nb by (intro that [OF ok(1)]) (simp_all add: rp)
  qed simp_all
qed

section \<open>Settlement of an accepted request\<close>

definition at_rest :: "ctx \<Rightarrow> world \<Rightarrow> system" where
  "at_rest c w = \<lparr>sy_ta = NewTransactionActor, sy_wallets = (\<lambda>i. activated c i w), sy_world = w, sy_replies = []\<rparr>"

lemma request_plan_good:
  assumes "entries_typed payload" "request_ok c payload ws mer cur grand fee"
  shows "list_all good_leg (request_plan c payload n)" "request_plan c payload n \<noteq> []" "length (request_plan c payload n) = length (rq_Transfers payload)"
    "map tl_IdempotencyKey (request_plan c payload n) = map (new_uuid c) [n..<n + length (rq_Transfers payload)]"
proof -
  let ?legs = "entry_legs c (c_Exponent cur) (rq_Transfers payload) n"
  have rp: "request_plan c payload n = ?legs" using request_okD(1) [OF assms(2)] by (simp add: request_plan_def)
  then show len: "length (request_plan c payload n) = length (rq_Transfers payload)"
    and "map tl_IdempotencyKey (request_plan c payload n) = map (new_uuid c) [n..<n + length (rq_Transfers payload)]" by simp_all
  show "request_plan c payload n \<noteq> []" using assms(2) len by (auto simp: request_ok_def)
  have entries: "list_all (entry_ok (c_Exponent cur) ws) (rq_Transfers payload)" using assms(2) by (simp add: request_ok_def list_all_iff)
  have "good_leg l" if l: "l \<in> set ?legs" for l
  proof -
    from entry_legs_sound [OF entries l] obtain e where e: "0 < tl_Amount l" "tl_ReversalKey l = None" "e \<in> set (rq_Transfers payload)"
      "Minor (en_Amount e) (c_Exponent cur) = Inr (tl_Amount l)" by blast
    have "is_int64 (tl_Amount l)" using assms(1) e(3,4) Minor_int64 by (auto simp: entries_typed_def)
    moreover have "tl_Action l \<in> set (map en_Action (rq_Transfers payload))"
      unfolding entry_legs_simps(3) [of c "c_Exponent cur" "rq_Transfers payload" n, symmetric] set_map using l by (rule imageI)
    ultimately show ?thesis using e(1,2) assms(1) by (auto simp: good_leg_def amount_ok_def entries_typed_def)
  qed
  then show "list_all good_leg (request_plan c payload n)" by (simp add: rp list_all_iff)
qed

lemma find_added: "find P rs = None \<Longrightarrow> P r \<Longrightarrow> find P (rs @ [r]) = Some r"
  by (induction rs) (auto split: if_splits)

text \<open>The state an accepted request leaves.\<close>

lemma initiated_ready:
  assumes "uuid_codec c" "books c op (sv_world s)" "outbox (sv_world s) = []" "entries_typed payload" "Initiate c payload s = (Inr d, s')"
    and "unused_uuids c (2 * length (rq_Transfers payload) + 1) (sv_world s)" "last (txbox (sv_world s')) = (tid, msg)"
  defines "plan \<equiv> request_plan c payload (n_uuid (sv_world s))"
  shows "sys_fresh c op tid plan (at_rest c (sv_world s'))" "plan \<noteq> []" "start_of c tid plan msg" "row_ready c tid plan msg (sv_world s')"
proof -
  define n k where "n = n_uuid (sv_world s)" and "k = length (rq_Transfers payload)"
  from assms(5) obtain row ws mer cur grand fee where ok: "request_ok c payload ws mer cur grand fee"
    and row: "tx_ID row = new_uuid c (n + k)" "tx_CreatedAt row = now c" "tx_Transfers row = Some (EncodePlan c plan)"
    and s': "n_uuid (sv_world s') = Suc (n + k)" "txbox (sv_world s') = txbox (sv_world s) @ [(tx_ID row, start_message c row plan)]"
      "txns (sv_world s') = txns (sv_world s) @ [row]" "wallets (sv_world s') = wallets (sv_world s)"
      "ledgers (sv_world s') = ledgers (sv_world s)" "outbox (sv_world s') = outbox (sv_world s)"
    unfolding plan_def n_def k_def by (rule Initiate_accepted)
  have plan: "list_all good_leg plan" "plan \<noteq> []" "length plan = k" "map tl_IdempotencyKey plan = map (new_uuid c) [n..<n + k]"
    using request_plan_good [OF assms(4) ok] by (simp_all add: plan_def n_def k_def)
  have tid: "tid = new_uuid c (n + k)" "msg = start_message c row plan" "tx_ID row = tid" using assms(7) s'(2) row(1) by simp_all
  let ?U = "[n..<n + (2 * k + 1)]"
  have res: "reserved c plan (n_uuid (sv_world s')) = map (new_uuid c) ([n..<n + k] @ [Suc (n + k)..<n + (2 * k + 1)])"
    by (simp add: reserved_def plan s' mult_2 add.assoc)
  have idx: "?U = [n..<n + k] @ (n + k) # [Suc (n + k)..<n + (2 * k + 1)]"
    using upt_add_eq_append [of n "n + k" "k + 1"] upt_conv_Cons [of "n + k" "n + (2 * k + 1)"] by (simp add: add.assoc mult_2)
  have dist: "distinct (map (new_uuid c) ?U)" and un: "\<forall>u \<in> set (map (new_uuid c) ?U).
      (\<forall>l \<in> set (ledgers (sv_world s)). l_TransactionID l \<noteq> u \<and> l_IdempotencyKey l \<noteq> Some u) \<and> (\<forall>r \<in> set (txns (sv_world s)). tx_ID r \<noteq> u)"
    using assms(6) unfolding unused_uuids_def n_def k_def by blast+
  have "distinct (reserved c plan (n_uuid (sv_world s')))" using dist unfolding res idx by auto
  moreover have "untouched_txn (set (reserved c plan (n_uuid (sv_world s')))) tid (sv_world s')"
    using un assms(3) unfolding res untouched_txn_def tid(1) idx by (auto simp: s')
  moreover have "books c op (sv_world s')" using assms(2) s' by (simp add: books_def)
  ultimately show "sys_fresh c op tid plan (at_rest c (sv_world s'))" using plan(1) by (simp add: sys_fresh_def at_rest_def)
  show "plan \<noteq> []" by (rule plan(2))
  show "start_of c tid plan msg" using uuid_codecD(1) [OF assms(1)] tid(2,3) by (simp add: start_of_def start_message_def)
  have "find (\<lambda>r. tx_ID r = tid) (txns (sv_world s)) = None" using un unfolding find_None_iff tid(1) idx by auto
  then have "find (\<lambda>r. tx_ID r = tid) (txns (sv_world s')) = Some row" using tid(3)
    unfolding s'(3) by (rule find_added)
  moreover have "DecodePlan c (Some (EncodePlan c plan)) = Some plan"
    unfolding DecodePlan_def EncodePlan_def
    by (rule DecodeTransferLegs_Encode) (use uuid_codecD(1) [OF assms(1)] plan(1) in \<open>auto simp: list_all_iff good_leg_def amount_ok_def\<close>)
  ultimately show "row_ready c tid plan msg (sv_world s')"
    using unix_window [of "tx_CreatedAt row"] row(3) by (simp add: row_ready_def tid(2) start_message_def)
qed


text \<open>A payment of 5 from wallet 1 to wallet 2, in two credits. The actor dies between the debit and its answer and is resumed.\<close>

definition order_ctx :: ctx where "order_ctx = gap_ctx calm"

lemma order_env [simp]: "fault order_ctx n = NoFault" "cache_fault order_ctx n = NoFault" "now order_ctx = 0" "placed order_ctx n i"
  "new_uuid order_ctx n = of_nat (8 + n)"
  by (simp_all add: order_ctx_def gap_ctx_def calm_def)

definition order_svc :: svc where "order_svc = demo_svc\<lparr>sv_world := gap_world\<lparr>txns := []\<rparr>, sv_cache := Start [] False 0\<rparr>"
definition order_owners :: "uuid \<Rightarrow> wallet option" where
  "order_owners = map_of (map (\<lambda>i. (i, meta_row [demo_profile] (gap_wallet i))) [1, 2])"
definition order_read :: "nat \<Rightarrow> svc" where "order_read n = order_svc\<lparr>sv_world := (gap_world\<lparr>txns := [], n_db := n\<rparr>)\<rparr>"

definition order_plan :: plan where
  "order_plan = \<lparr>pl_Currency = demo_KES, pl_TotalAmount = 5, pl_Fee = 0, pl_Legs = entry_legs order_ctx 2 (rq_Transfers (demo_request 5 [3, 2])) 0\<rparr>"

definition order_built :: "transaction \<times> svc" where
  "order_built = buildTransaction order_ctx (demo_request 5 [3, 2]) order_plan order_owners (order_read 2\<lparr>sv_world := (sv_world (order_read 2))\<lparr>n_uuid := 3\<rparr>\<rparr>)"

definition order_row :: transaction where
  "order_row = \<lparr>tx_ID = 11, tx_MerchantID = Some 9, tx_MerchantFrom = Some 9, tx_MerchantTo = Some 9, tx_ProfileFrom = Some 9, tx_ProfileTo = Some 9,
     tx_SenderName = Some ''Ann'', tx_ReceiverName = Some ''Ann'', tx_SenderMerchant = Some ''Ann'', tx_ReceiverMerchant = Some ''Ann'',
     tx_AccountFrom = Some ''W100000'', tx_AccountTo = Some ''W100000'', tx_WalletFrom = Some 1, tx_WalletTo = Some 2, tx_Amount = 5, tx_Currency = ''KES'',
     tx_Fee = 0, tx_Type = TransactionTypeTransfer, tx_Status = TransactionStatusPending, tx_Purpose = None, tx_RRN = ''RRN0'', tx_OrderID = Some ''o1'',
     tx_ProviderRef = Some ''p1'', tx_CallbackURL = Some ''http://m/cb'', tx_Transfers = Some (EncodePlan order_ctx (pl_Legs order_plan)),
     tx_Narration = ''Transaction accepted for processing'', tx_Description = None, tx_IsCompleted = False, tx_DateCompleted = None, tx_CreatedAt = 0,
     tx_UpdatedAt = 0\<rparr>"

definition order_sent :: world where
  "order_sent = gap_world\<lparr>txns := [order_row], txbox := [(11, start_message order_ctx order_row (pl_Legs order_plan))], n_db := 3, n_pid := 1, n_uuid := 4, n_rrn := 1\<rparr>"

lemma order_meta:
  assumes "order_owners i = Some wl"
  shows "w_ID wl = i" "w_Status wl = WalletStatusActive" "w_Currency wl = ''KES''" "w_MerchantID wl = Some 9"
  using assms by (auto simp: order_owners_def meta_row_def withOwners_def bare_wallet_def gap_wallet_def demo_wallet_def Let_def split: if_splits)

lemma order_known: obtains wl1 wl2 where "order_owners 1 = Some wl1" "order_owners 2 = Some wl2"
  by (simp add: order_owners_def)

lemma order_wallets: "ValidateWallets order_ctx [1, 2, 2] order_svc = (Inr order_owners, order_read 1)"
proof -
  have id: "w_ID (gap_wallet i) = i" for i by (simp add: gap_wallet_def)
  have own: "(\<lambda>i. case if i = 1 then Some None else [2 \<mapsto> None] i of None \<Rightarrow> None | Some None \<Rightarrow> None | Some (Some m) \<Rightarrow> Some (toWallet m))
       (2 \<mapsto> meta_row [demo_profile] (gap_wallet 2), 1 \<mapsto> meta_row [demo_profile] (gap_wallet 1)) = order_owners"
    by (rule ext) (simp add: order_owners_def)
  have chk: "checked order_ctx order_owners [1, 2, 2] = Inr order_owners"
    by (rule order_known) (simp add: checked_def order_meta(2))
  have cm: "cache_metas order_ctx rows s = s" if "sv_cache s = Start [] False 0" for rows s
    using that unfolding cache_metas_def by (induction rows arbitrary: s) (simp_all add: with_cache_def Cache_Set_def Enabled_def Start_def)
  show ?thesis
    by (simp add: ValidateWallets_def order_svc_def Cache_GetMany_def Start_def Enabled_def split_beta Let_def svc_query_def svc_call_def db_call_def demo_svc_def
        gap_world_def empty_world_def id own chk cm order_read_def)
qed

lemma order_merchant: "FindByID order_ctx 9 (order_read 1) = (Inr (Some demo_profile), order_read 2)"
  by (simp add: FindByID_def order_read_def order_svc_def demo_svc_def Cache_Get_def Start_def Enabled_def svc_query_def svc_call_def db_call_def first_by_def
      split_beta Let_def demo_profile_def cacheProfile_def Cache_Set_def with_cache_def gap_world_def empty_world_def)

lemma order_valid: "ValidateTransactionRequest order_ctx (demo_request 5 [3, 2]) order_owners (Some demo_profile) 0 = (Inr order_plan, 3)"
  by (rule order_known) (simp add: ValidateTransactionRequest_def demo_request_def demo_KES_Lookup Minor_def MoneyFromMinor_def demo_KES_def order_plan_def
      tally_leg_def tally0_def check_tally_def Let_def demo_KES_Normalize demo_profile_def wrap64_def plan_leg_def order_meta(3,4))

lemma order_row_built: "(fst order_built)\<lparr>tx_Transfers := Some (EncodePlan order_ctx (pl_Legs order_plan)), tx_CreatedAt := 0, tx_UpdatedAt := 0\<rparr> = order_row"
proof -
  have "new_rrn order_ctx 0 = ''RRN0''" by code_simp
  then show ?thesis
  by (simp add: order_built_def buildTransaction_def uuid_New_def GenerateRrn_svc_def order_read_def gap_world_def empty_world_def demo_request_def
    order_row_def set_party_def set_sender_def set_receiver_def order_owners_def order_plan_def Let_def meta_row_def withOwners_def bare_wallet_def gap_wallet_def
    demo_wallet_def demo_profile_def profile_by_id_def selectProfileName_def demo_KES_def)
qed

lemma order_accepted: "Initiate order_ctx (demo_request 5 [3, 2]) order_svc = (Inr (TransactionFromModel order_ctx order_row), order_svc\<lparr>sv_world := order_sent\<rparr>)"
proof -
  have q: "map en_WalletID (rq_Transfers (demo_request 5 [3, 2])) = [1, 2, 2]" "rq_MerchantID (demo_request 5 [3, 2]) = 9" by (simp_all add: demo_request_def)
  have "n_uuid (sv_world (order_read 2)) = 0" by (simp add: order_read_def gap_world_def empty_world_def)
  then have "Initiate order_ctx (demo_request 5 [3, 2]) order_svc = dispatch order_ctx (fst order_built) (pl_Legs order_plan) (snd order_built)"
    by (simp add: Initiate_def q order_wallets order_merchant [simplified One_nat_def] order_valid order_built_def split_beta Let_def)
  moreover have "tx_Amount (fst order_built) = 5" "tx_Fee (fst order_built) = 0" "tx_ID (fst order_built) = 11"
    by (simp_all add: order_built_def buildTransaction_fields order_plan_def built_id order_env)
  moreover have "snd order_built = order_svc\<lparr>sv_world := gap_world\<lparr>txns := [], n_db := 2, n_uuid := 4, n_rrn := 1\<rparr>\<rparr>"
    by (simp add: order_built_def buildTransaction_def uuid_New_def GenerateRrn_svc_def order_read_def gap_world_def empty_world_def)
  moreover have "tx_ID order_row = 11" by (simp add: order_row_def)
  ultimately show ?thesis
    by (simp add: dispatch_def txn_create_def insert_txn_def svc_call_def db_call_def Let_def numeral_3_eq_3 order_row_built order_sent_def
        gap_world_def empty_world_def)
qed

definition order_steps :: "life_event list" where
  "order_steps = [Act SysStart, Act (SysDeliver 0), Crash, Resume, Act (SysDeliver 0), Act (SysDeliver 0), Act (SysCollect 0), Act (SysCollect 0), Act SysFinalize]"

lemma order_settled:
  "outcome (snd (life_run order_ctx 11 (snd (last (txbox order_sent))) order_steps (False, at_rest order_ctx order_sent))) = (stageFinalized, False, False)"
  by code_simp


end
