(* ===== verification/Config.thy ===== *)
theory Config
  imports Go_Strings
begin

text \<open>
  The configuration of a process: \<open>config.go\<close> and the connection strings of \<open>internal/db/connection.go\<close>.

  The environment is a function from names to values, \<open>[]\<close> for an unset variable as \<open>os.Getenv\<close> has it, taken after
  \<open>godotenv.Load\<close>, which only sets variables. \<open>Atoi\<close>, \<open>ParseBool\<close>, \<open>ParseDuration\<close> and \<open>Split\<close> are the functions of Go's
  library; \<open>ParseDuration\<close> computes a fraction in floating point, so the nanoseconds that \<open>frac\<close> gives for a fraction
  of a unit are an argument. Malformed values fall back with a warning in the log, which is not modelled.
\<close>

section \<open>Go's library\<close>

text \<open>\<open>strconv.Atoi\<close>: an \<open>int\<close> has 64 bits, so it accepts what \<open>ParseInt(s, 10, 64)\<close> accepts.\<close>

definition Atoi :: "string \<Rightarrow> int64 option" where "Atoi s = ParseInt s"

definition ParseBool :: "string \<Rightarrow> bool option" where
  "ParseBool s =
     (if s \<in> set [''1'', ''t'', ''T'', ''true'', ''TRUE'', ''True''] then Some True
      else if s \<in> set [''0'', ''f'', ''F'', ''false'', ''FALSE'', ''False''] then Some False
      else None)"

text \<open>\<open>strings.Split\<close> with a one-byte separator.\<close>

fun Split :: "char \<Rightarrow> string \<Rightarrow> string list" where
  "Split sep [] = [[]]"
| "Split sep (c # cs) = (if c = sep then [] # Split sep cs else (c # hd (Split sep cs)) # tl (Split sep cs))"

text \<open>
  \<open>time.ParseDuration\<close>. \<open>leadingInt\<close> fails beyond \<open>2^63\<close>; \<open>leadingFraction\<close> stops counting digits there, and returns the
  digits it counted as a number and how many they were.
\<close>

fun leadingInt :: "nat \<Rightarrow> string \<Rightarrow> (nat \<times> string) option" where
  "leadingInt x [] = Some (x, [])"
| "leadingInt x (c # s) =
     (if \<not> is_digit c then Some (x, c # s)
      else if x > 2 ^ 63 div 10 then None
      else let x' = x * 10 + digit_val c in if x' > 2 ^ 63 then None else leadingInt x' s)"

fun leadingFraction :: "bool \<Rightarrow> nat \<Rightarrow> nat \<Rightarrow> string \<Rightarrow> nat \<times> nat \<times> string" where
  "leadingFraction overflow x n [] = (x, n, [])"
| "leadingFraction overflow x n (c # s) =
     (if \<not> is_digit c then (x, n, c # s)
      else if overflow then leadingFraction True x n s
      else if x > (2 ^ 63 - 1) div 10 then leadingFraction True x n s
      else let y = x * 10 + digit_val c in
           if y > 2 ^ 63 then leadingFraction True x n s else leadingFraction False y (n + 1) s)"

definition unitMap :: "string \<Rightarrow> nat option" where
  "unitMap u = map_of
     [(''ns'', 1), (''us'', 1000), ([char_of (194 :: nat), char_of (181 :: nat), CHR ''s''], 1000),
      ([char_of (206 :: nat), char_of (188 :: nat), CHR ''s''], 1000), (''ms'', 1000000),
      (''s'', 1000000000), (''m'', 60000000000), (''h'', 3600000000000)] u"

definition number_char :: "char \<Rightarrow> bool" where "number_char c \<longleftrightarrow> c = CHR ''.'' \<or> is_digit c"

text \<open>One number with its unit: the nanoseconds it adds, and the rest of the text.\<close>

definition duration_part :: "(nat \<Rightarrow> nat \<Rightarrow> nat \<Rightarrow> nat) \<Rightarrow> string \<Rightarrow> (nat \<times> string) option" where
  "duration_part frac s =
     (if s = [] \<or> \<not> number_char (hd s) then None
      else case leadingInt 0 s of
        None \<Rightarrow> None
      | Some (v, s1) \<Rightarrow>
          let pre = length s1 \<noteq> length s;
              point = (s1 \<noteq> [] \<and> hd s1 = CHR ''.'');
              (f, n, s2) = (if point then leadingFraction False 0 0 (tl s1) else (0, 0, s1));
              post = (point \<and> length s2 \<noteq> length (tl s1));
              u = takeWhile (\<lambda>c. \<not> number_char c) s2;
              s3 = dropWhile (\<lambda>c. \<not> number_char c) s2
          in if \<not> pre \<and> \<not> post then None
             else if u = [] then None
             else case unitMap u of
               None \<Rightarrow> None
             | Some unit \<Rightarrow>
                 if v > 2 ^ 63 div unit then None
                 else let v1 = v * unit; v2 = (if f > 0 then v1 + frac f n unit else v1) in
                      if v2 > 2 ^ 63 then None else Some (v2, s3))"

lemma leadingInt_length: "leadingInt x s = Some (v, s') \<Longrightarrow> length s' \<le> length s"
  by (induction x s rule: leadingInt.induct) (auto simp: Let_def split: if_splits)

lemma leadingFraction_length: "leadingFraction ov x n s = (v, k, s') \<Longrightarrow> length s' \<le> length s"
  by (induction ov x n s rule: leadingFraction.induct) (auto simp: Let_def split: if_splits)

lemma duration_part_shorter:
  assumes "duration_part frac s = Some (v, s')"
  shows "length s' < length s"
proof -
  from assms obtain w s1 where w: "leadingInt 0 s = Some (w, s1)"
    by (auto simp: duration_part_def split: if_splits option.splits)
  obtain f n s2 where f: "(if s1 \<noteq> [] \<and> hd s1 = CHR ''.'' then leadingFraction False 0 0 (tl s1) else (0, 0, s1)) = (f, n, s2)"
    by (metis prod_cases3)
  have "length s2 \<le> length s1"
    using f leadingFraction_length [of False 0 0 "tl s1" f n s2] by (auto split: if_splits)
  moreover have "s' = dropWhile (\<lambda>c. \<not> number_char c) s2" "takeWhile (\<lambda>c. \<not> number_char c) s2 \<noteq> []"
    using assms w f by (auto simp: duration_part_def Let_def split: if_splits option.splits)
  moreover from this have "length s' < length s2"
    by (metis append_Nil length_append length_greater_0_conv less_add_same_cancel2 takeWhile_dropWhile_id)
  ultimately show ?thesis using leadingInt_length [OF w] by linarith
qed

function duration_sum :: "(nat \<Rightarrow> nat \<Rightarrow> nat \<Rightarrow> nat) \<Rightarrow> nat \<Rightarrow> string \<Rightarrow> nat option" where
  "duration_sum frac d s =
     (if s = [] then Some d
      else case duration_part frac s of
        None \<Rightarrow> None
      | Some (v, s') \<Rightarrow> if d + v > 2 ^ 63 then None else duration_sum frac (d + v) s')"
  by pat_completeness auto
termination
  by (relation "measure (\<lambda>(frac, d, s). length s)") (auto dest: duration_part_shorter)

declare duration_sum.simps [simp del]

definition ParseDuration :: "(nat \<Rightarrow> nat \<Rightarrow> nat \<Rightarrow> nat) \<Rightarrow> string \<Rightarrow> time option" where
  "ParseDuration frac s =
     (let neg = (s \<noteq> [] \<and> hd s = CHR ''-'');
          s1 = (if s \<noteq> [] \<and> (hd s = CHR ''-'' \<or> hd s = CHR ''+'') then tl s else s)
      in if s1 = ''0'' then Some 0
         else if s1 = [] then None
         else case duration_sum frac 0 s1 of
           None \<Rightarrow> None
         | Some d \<Rightarrow> if neg then Some (wrap64 (- int d)) else if d > 2 ^ 63 - 1 then None else Some (int d))"

section \<open>Reading one variable\<close>

type_synonym environment = "string \<Rightarrow> string"

definition getEnv :: "environment \<Rightarrow> string \<Rightarrow> string \<Rightarrow> string" where
  "getEnv env key fallback = (let v = TrimSpace (env key) in if v \<noteq> [] then v else fallback)"

definition getEnvBool :: "environment \<Rightarrow> string \<Rightarrow> bool \<Rightarrow> bool" where
  "getEnvBool env key fallback =
     (let v = TrimSpace (env key) in
      if v \<noteq> [] then (case ParseBool v of Some b \<Rightarrow> b | None \<Rightarrow> fallback) else fallback)"

definition getEnvInt :: "environment \<Rightarrow> string \<Rightarrow> int64 \<Rightarrow> int64" where
  "getEnvInt env key fallback =
     (let v = TrimSpace (env key) in
      if v \<noteq> [] then (case Atoi v of Some i \<Rightarrow> i | None \<Rightarrow> fallback) else fallback)"

definition getEnvDuration :: "(nat \<Rightarrow> nat \<Rightarrow> nat \<Rightarrow> nat) \<Rightarrow> environment \<Rightarrow> string \<Rightarrow> time \<Rightarrow> time" where
  "getEnvDuration frac env key fallback =
     (let v = TrimSpace (env key) in
      if v \<noteq> [] then (case ParseDuration frac v of Some d \<Rightarrow> d | None \<Rightarrow> fallback) else fallback)"

definition getEnvList :: "environment \<Rightarrow> string \<Rightarrow> string list \<Rightarrow> string list" where
  "getEnvList env key fallback =
     (let v = TrimSpace (env key) in
      if v = [] then fallback else filter (\<lambda>p. p \<noteq> []) (map TrimSpace (Split CHR '','' v)))"

section \<open>The configuration\<close>

record config =
  Port :: string
  GrpcPort :: string
  CorsAllowedOrigins :: "string list"
  ShutdownTimeout :: time
  RedisAddr :: string
  RedisPassword :: string
  RedisDB :: int64
  CacheTTL :: time
  TransactionTimeout :: time
  RecoveryStaleAfter :: time
  RecoverySweepInterval :: time
  RecoveryMaxAttempts :: int64
  ClusterMode :: string
  ClusterName :: string
  ClusterPort :: int64
  AdvertisedHost :: string
  AutomanagedPort :: int64
  K8sNamespace :: string
  UsePgBouncer :: bool
  PgBouncerHost :: string
  PgBouncerPort :: string
  PgBouncerPoolMode :: string
  DbHost :: string
  DbUser :: string
  DbPassword :: string
  DbName :: string
  DbPort :: string
  DbSSLMode :: string
  DbMaxOpenConns :: int64
  DbMaxIdleConns :: int64

text \<open>\<open>unicode\<close> is the path of \<open>ToLower\<close> for text with a non-ASCII byte, as in \<open>Go_Strings\<close>.\<close>

definition Load :: "(string \<Rightarrow> string) \<Rightarrow> (nat \<Rightarrow> nat \<Rightarrow> nat \<Rightarrow> nat) \<Rightarrow> environment \<Rightarrow> config" where
  "Load unicode frac env =
     \<lparr>Port = getEnv env ''PORT'' ''3003'',
      GrpcPort = getEnv env ''GRPC_PORT'' ''3004'',
      CorsAllowedOrigins = getEnvList env ''CORS_ALLOWED_ORIGINS'' [''http://localhost:*''],
      ShutdownTimeout = getEnvDuration frac env ''SHUTDOWN_TIMEOUT'' (15 * second),
      RedisAddr = getEnv env ''REDIS_ADDR'' (getEnv env ''REDIS_URL'' []),
      RedisPassword = getEnv env ''REDIS_PASSWORD'' [],
      RedisDB = getEnvInt env ''REDIS_DB'' 0,
      CacheTTL = getEnvDuration frac env ''CACHE_TTL'' (5 * minute),
      TransactionTimeout = getEnvDuration frac env ''TRANSACTION_TIMEOUT'' (30 * second),
      RecoveryStaleAfter = getEnvDuration frac env ''RECOVERY_STALE_AFTER'' (2 * minute),
      RecoverySweepInterval = getEnvDuration frac env ''RECOVERY_SWEEP_INTERVAL'' (30 * second),
      RecoveryMaxAttempts = getEnvInt env ''RECOVERY_MAX_ATTEMPTS'' 5,
      ClusterMode = getEnv env ''CLUSTER_MODE'' ''single'',
      ClusterName = getEnv env ''CLUSTER_NAME'' ''wallet-cluster'',
      ClusterPort = getEnvInt env ''CLUSTER_PORT'' 8090,
      AdvertisedHost = getEnv env ''ADVERTISED_HOST'' ''127.0.0.1'',
      AutomanagedPort = getEnvInt env ''AUTOMANAGED_PORT'' 6330,
      K8sNamespace = getEnv env ''K8S_NAMESPACE'' ''default'',
      UsePgBouncer = getEnvBool env ''USE_PGBOUNCER'' False,
      PgBouncerHost = getEnv env ''PGBOUNCER_HOST'' ''127.0.0.1'',
      PgBouncerPort = getEnv env ''PGBOUNCER_PORT'' ''6432'',
      PgBouncerPoolMode = ToLower unicode (getEnv env ''PGBOUNCER_POOL_MODE'' ''transaction''),
      DbHost = getEnv env ''DB_HOST'' ''127.0.0.1'',
      DbUser = getEnv env ''DB_USER'' ''postgres'',
      DbPassword = getEnv env ''DB_PASSWORD'' [],
      DbName = getEnv env ''DB_NAME'' ''wallet_database'',
      DbPort = getEnv env ''DB_PORT'' ''5432'',
      DbSSLMode = getEnv env ''DB_SSLMODE'' ''disable'',
      DbMaxOpenConns = getEnvInt env ''DB_MAX_OPEN_CONNS'' 50,
      DbMaxIdleConns = getEnvInt env ''DB_MAX_IDLE_CONNS'' (getEnvInt env ''DB_MAX_OPEN_CONNS'' 50)\<rparr>"

section \<open>Connection strings\<close>

definition DSN :: "config \<Rightarrow> string" where
  "DSN cfg = ''host='' @ DbHost cfg @ '' port='' @ DbPort cfg @ '' user='' @ DbUser cfg @
     '' password='' @ DbPassword cfg @ '' dbname='' @ DbName cfg @ '' sslmode='' @ DbSSLMode cfg"

text \<open>The connection string of the application pool, and whether prepared statements may be cached.\<close>

definition AppDSN :: "config \<Rightarrow> string \<times> bool" where
  "AppDSN cfg =
     (if \<not> UsePgBouncer cfg then (DSN cfg @ '' plan_cache_mode=force_custom_plan'', True)
      else let dsn = ''host='' @ PgBouncerHost cfg @ '' port='' @ PgBouncerPort cfg @ '' user='' @ DbUser cfg @
                 '' password='' @ DbPassword cfg @ '' dbname='' @ DbName cfg @ '' sslmode='' @ DbSSLMode cfg
           in if PgBouncerPoolMode cfg = ''session'' then (dsn, True)
              else (dsn @ '' default_query_exec_mode=cache_describe'', False))"

section \<open>Blanks around a value\<close>

definition ascii_blank :: "char \<Rightarrow> bool" where
  "ascii_blank c \<longleftrightarrow> (of_char c :: nat) \<in> set [9, 10, 11, 12, 13, 32]"

lemma find_only:
  assumes "e \<in> set xs" "P e" "\<And>e'. e' \<in> set xs \<Longrightarrow> P e' \<Longrightarrow> e' = e"
  shows "find P xs = Some e"
proof -
  from assms(1,2) obtain e' where f: "find P xs = Some e'" by (cases "find P xs") (auto simp: find_None_iff)
  then have "e' \<in> set xs" "P e'" by (auto simp: find_Some_iff)
  with assms(3) f show ?thesis by simp
qed

lemma blank_is_space: "ascii_blank c \<Longrightarrow> [c] \<in> set go_spaces"
proof -
  assume "ascii_blank c"
  then have "(of_char c :: nat) \<in> set [9, 10, 11, 12, 13, 32]" by (simp add: ascii_blank_def)
  moreover have "[char_of n] \<in> set go_spaces" if "n \<in> set [9, 10, 11, 12, 13, 32 :: nat]" for n
    using that by (auto simp: go_spaces_def)
  ultimately show ?thesis by (metis char_of_char)
qed

lemma ascii_space_single: "\<forall>e \<in> set go_spaces. (is_ascii (hd e) \<or> is_ascii (last e)) \<longrightarrow> length e = 1"
  by (simp add: go_spaces_def is_ascii_def upt_rec)

lemma strip_blank:
  assumes "ascii_blank c" "encs = go_spaces \<or> encs = map rev go_spaces"
  shows "strip encs (c # s) = strip encs s"
proof -
  have ascii: "is_ascii c" using assms(1) by (auto simp: ascii_blank_def is_ascii_def)
  have mem: "[c] \<in> set encs" using assms blank_is_space [of c] by force
  have uniq: "e = [c]" if "e \<in> set encs" "e \<noteq> [] \<and> prefix e (c # s)" for e
  proof -
    have "hd e = c" using that(2) by (cases e) auto
    moreover have "length e = 1"
      using that ascii_space_single ascii \<open>hd e = c\<close> assms(2) by (auto simp: hd_rev)
    ultimately show ?thesis by (cases e) auto
  qed
  have "find (\<lambda>e. e \<noteq> [] \<and> prefix e (c # s)) encs = Some [c]"
    by (rule find_only [OF mem _ uniq]) auto
  then show ?thesis by (subst strip.simps) simp
qed

lemma strip_blanks:
  "list_all ascii_blank b \<Longrightarrow> encs = go_spaces \<or> encs = map rev go_spaces \<Longrightarrow> strip encs (b @ s) = strip encs s"
  by (induction b) (simp_all add: strip_blank)

lemma strip_Nil [simp]: "strip go_spaces [] = []" "strip (map rev go_spaces) [] = []"
  by (simp_all add: strip_id)

lemma TrimSpace_blanks: "list_all ascii_blank b \<Longrightarrow> TrimSpace b = []"
  using strip_blanks [of b go_spaces "[]"] by (simp add: TrimSpace_def)

lemma TrimSpace_padded:
  assumes "list_all ascii_blank l" "list_all ascii_blank r" "s \<noteq> []" "plain_char (hd s)" "plain_char (last s)"
  shows "TrimSpace (l @ s @ r) = s"
proof -
  have "strip go_spaces (l @ s @ r) = s @ r"
    using go_spaces_ends assms(1,3,4) by (simp add: strip_blanks strip_id) (metis (no_types, lifting) strip_id hd_append2)
  moreover have "strip (map rev go_spaces) (rev r @ rev s) = rev s"
  proof -
    have "strip (map rev go_spaces) (rev s) = rev s"
      using go_spaces_ends assms(3,5) by (intro strip_id) (auto simp: hd_rev)
    with assms(2) show ?thesis by (simp add: strip_blanks list_all_rev)
  qed
  ultimately show ?thesis by (simp add: TrimSpace_def)
qed

section \<open>Values read back\<close>

lemma leadingInt_digits:
  assumes "list_all is_digit ds" "u = [] \<or> \<not> is_digit (hd u)" "foldl (\<lambda>acc c. acc * 10 + digit_val c) x ds \<le> 2 ^ 63"
  shows "leadingInt x (ds @ u) = Some (foldl (\<lambda>acc c. acc * 10 + digit_val c) x ds, u)"
  using assms
proof (induction ds arbitrary: x)
  case Nil
  then show ?case by (cases u) auto
next
  case (Cons d ds)
  have le: "y \<le> foldl (\<lambda>acc c. acc * 10 + digit_val c) y zs" for y zs
  proof (induction zs arbitrary: y)
    case (Cons z zs)
    have "y \<le> y * 10 + digit_val z" by simp
    also note Cons.IH [of "y * 10 + digit_val z"]
    finally show ?case by simp
  qed simp
  have "x * 10 + digit_val d \<le> 2 ^ 63" using le [of "x * 10 + digit_val d" ds] Cons.prems(3) by simp
  moreover from this have "x \<le> 2 ^ 63 div 10" by simp
  ultimately show ?case using Cons by (simp add: Let_def)
qed

lemma unit_chars:
  assumes "unitMap u = Some unit"
  shows "u \<noteq> [] \<and> list_all (\<lambda>c. \<not> number_char c) u \<and> plain_char (last u) \<and> 0 < unit"
proof -
  have "(u, unit) \<in> set [(''ns'', 1), (''us'', 1000), ([char_of (194 :: nat), char_of (181 :: nat), CHR ''s''], 1000),
      ([char_of (206 :: nat), char_of (188 :: nat), CHR ''s''], 1000), (''ms'', 1000000),
      (''s'', 1000000000), (''m'', 60000000000), (''h'', 3600000000000)]"
    using assms unfolding unitMap_def by (rule map_of_SomeD)
  moreover have "char_of n \<noteq> CHR ''.''" if "46 < n" "n < 256" for n :: nat
    using that char_of_eq_iff [of n "CHR ''.''"] by (auto simp: take_bit_eq_mod)
  ultimately show ?thesis by (auto simp: number_char_def is_digit_def plain_char_def)
qed

lemma int64_nat: "int k \<le> MaxInt64 \<Longrightarrow> k < 2 ^ 63"
  by (simp add: MaxInt64_def)

lemma duration_part_whole:
  assumes "unitMap u = Some unit" "int (n * unit) \<le> MaxInt64"
  shows "duration_part frac (nat_digits n @ u) = Some (n * unit, [])"
proof -
  note u = unit_chars [OF assms(1)]
  note n = int64_nat [OF assms(2)]
  have "n \<le> n * unit" using u by simp
  then have "n \<le> 2 ^ 63" using n by linarith
  then have "leadingInt 0 (nat_digits n @ u) = Some (n, u)"
    using leadingInt_digits [OF nat_digits_digits, of u 0 n] u digits_value_nat_digits [of n]
    by (cases u) (auto simp: digits_value_def number_char_def)
  moreover have "hd u \<noteq> CHR ''.''" using u by (cases u) (auto simp: number_char_def)
  moreover have t: "takeWhile (\<lambda>c. \<not> number_char c) u = u"
    using u by (simp add: list_all_iff)
  moreover have d: "dropWhile (\<lambda>c. \<not> number_char c) u = []"
    using u by (simp add: list_all_iff)
  moreover have "number_char (hd (nat_digits n @ u))"
    using nat_digits_digits [of n] by (cases "nat_digits n") (auto simp: number_char_def)
  moreover have "n \<le> 2 ^ 63 div unit" using n u by (simp add: less_eq_div_iff_mult_less_eq)
  ultimately show ?thesis using u assms(1) n by (simp add: duration_part_def Let_def t d)
qed

lemma ParseDuration_whole:
  assumes "unitMap u = Some unit" "int (n * unit) \<le> MaxInt64"
  shows "ParseDuration frac (nat_digits n @ u) = Some (int (n * unit))"
proof -
  note bound = int64_nat [OF assms(2)]
  then have "duration_sum frac 0 (nat_digits n @ u) = Some (n * unit)"
    using duration_part_whole [OF assms] by (simp add: duration_sum.simps)
  moreover have "hd (nat_digits n @ u) \<noteq> CHR ''-'' \<and> hd (nat_digits n @ u) \<noteq> CHR ''+''"
    using nat_digits_digits [of n] is_digit_not_sign by (cases "nat_digits n") auto
  moreover have "nat_digits n @ u \<noteq> ''0''"
  proof
    assume eq: "nat_digits n @ u = ''0''"
    then have "u = ''0''" using unit_chars [OF assms(1)] by (cases "nat_digits n") auto
    then show False using unit_chars [OF assms(1)] by (simp add: number_char_def is_digit_def)
  qed
  ultimately show ?thesis using bound by (simp add: ParseDuration_def)
qed

lemma Split_nonempty [simp]: "Split sep s \<noteq> []"
  by (induction s) auto

lemma Split_plain: "sep \<notin> set s \<Longrightarrow> Split sep s = [s]"
  by (induction s) auto

lemma Split_append: "sep \<notin> set x \<Longrightarrow> Split sep (x @ sep # s) = x # Split sep s"
  by (induction x) auto

lemma Split_Join: "xs \<noteq> [] \<Longrightarrow> list_all (\<lambda>x. sep \<notin> set x) xs \<Longrightarrow> Split sep (Join xs [sep]) = xs"
proof (induction xs "[sep]" rule: Join.induct)
  case (3 x y xs)
  then show ?case using Split_append [of sep x "Join (y # xs) [sep]"] by simp
qed (auto simp: Split_plain)

definition list_item :: "string \<Rightarrow> bool" where
  "list_item x \<longleftrightarrow> x \<noteq> [] \<and> plain_char (hd x) \<and> plain_char (last x) \<and> CHR '','' \<notin> set x"

lemma Join_ends:
  "xs \<noteq> [] \<Longrightarrow> list_all list_item xs \<Longrightarrow>
   Join xs sep \<noteq> [] \<and> plain_char (hd (Join xs sep)) \<and> plain_char (last (Join xs sep))"
  by (induction xs sep rule: Join.induct) (auto simp: list_item_def)

lemma items_trimmed: "list_all list_item xs \<Longrightarrow> filter (\<lambda>p. p \<noteq> []) (map TrimSpace xs) = xs"
  by (induction xs) (auto simp: list_item_def TrimSpace_id)

lemma getEnvList_read:
  assumes "list_all ascii_blank l" "list_all ascii_blank r" "env key = l @ Join xs '','' @ r" "xs \<noteq> []" "list_all list_item xs"
  shows "getEnvList env key fallback = xs"
proof -
  have "list_all (\<lambda>x. CHR '','' \<notin> set x) xs" using assms(5) by (auto simp: list_all_iff list_item_def)
  with assms Join_ends [OF assms(4,5), of "'',''"] show ?thesis
    by (simp add: getEnvList_def TrimSpace_padded Split_Join items_trimmed)
qed

lemma FormatInt_ends: "FormatInt i \<noteq> [] \<and> plain_char (hd (FormatInt i)) \<and> plain_char (last (FormatInt i))"
proof -
  have "is_digit (hd (nat_digits n)) \<and> is_digit (last (nat_digits n))" for n
    using nat_digits_digits [of n] by (auto simp: list_all_iff)
  then show ?thesis using is_digit_plain by (auto simp: FormatInt_def plain_char_def)
qed

text \<open>
  Claim C32. What an operator writes is what the process runs with: blanks around a value are ignored, and an integer
  of 64 bits, a whole number of any unit up to \<open>MaxInt64\<close> nanoseconds, a boolean and a comma-separated list are read
  back exactly, whatever the fallback; a variable that is unset or blank, and a text that is not an integer, a
  boolean or a duration, gives the fallback.
\<close>

theorem settings_read_back:
  assumes "list_all ascii_blank l" "list_all ascii_blank r"
  shows "(env key = l @ FormatInt i @ r \<and> is_int64 i \<longrightarrow> getEnvInt env key fi = i) \<and>
         (env key = l @ nat_digits n @ u @ r \<and> unitMap u = Some unit \<and> int (n * unit) \<le> MaxInt64
            \<longrightarrow> getEnvDuration frac env key fd = int (n * unit)) \<and>
         (env key = l @ (if b then ''true'' else ''false'') @ r \<longrightarrow> getEnvBool env key fb = b) \<and>
         (env key = l @ Join xs '','' @ r \<and> xs \<noteq> [] \<and> list_all list_item xs \<longrightarrow> getEnvList env key fl = xs) \<and>
         (env key = l \<longrightarrow> getEnv env key fs = fs \<and> getEnvInt env key fi = fi \<and> getEnvBool env key fb = fb \<and>
            getEnvDuration frac env key fd = fd \<and> getEnvList env key fl = fl) \<and>
         (Atoi (TrimSpace (env key)) = None \<longrightarrow> getEnvInt env key fi = fi) \<and>
         (ParseBool (TrimSpace (env key)) = None \<longrightarrow> getEnvBool env key fb = fb) \<and>
         (ParseDuration frac (TrimSpace (env key)) = None \<longrightarrow> getEnvDuration frac env key fd = fd)"
proof (intro conjI impI; (elim conjE)?)
  note pad = TrimSpace_padded [OF assms]
  show "getEnvInt env key fi = i" if "env key = l @ FormatInt i @ r" "is_int64 i"
    using that FormatInt_ends [of i] by (simp add: getEnvInt_def pad Atoi_def FormatInt_ParseInt)
  show "getEnvDuration frac env key fd = int (n * unit)"
    if e: "env key = l @ nat_digits n @ u @ r" and u: "unitMap u = Some unit" "int (n * unit) \<le> MaxInt64"
  proof -
    have "plain_char (hd (nat_digits n @ u))"
      using FormatInt_ends [of "int n"] by (simp add: FormatInt_def)
    then have "TrimSpace (env key) = nat_digits n @ u" using pad [of "nat_digits n @ u"] unit_chars [OF u(1)] e by simp
    then show ?thesis using ParseDuration_whole [OF u, of frac] by (simp add: getEnvDuration_def)
  qed
  show "getEnvBool env key fb = b" if "env key = l @ (if b then ''true'' else ''false'') @ r"
    using that pad [of "''true''"] pad [of "''false''"] by (cases b) (simp_all add: getEnvBool_def plain_char_def ParseBool_def)
  show "getEnvList env key fl = xs" if "env key = l @ Join xs '','' @ r" "xs \<noteq> []" "list_all list_item xs"
    using getEnvList_read [OF assms, of env key xs] that by simp
  {
    assume "env key = l"
    then have "TrimSpace (env key) = []" using TrimSpace_blanks [OF assms(1)] by simp
    note unset = this
    show "getEnv env key fs = fs" "getEnvInt env key fi = fi" "getEnvBool env key fb = fb"
      "getEnvDuration frac env key fd = fd" "getEnvList env key fl = fl"
      using unset by (simp_all add: getEnv_def getEnvInt_def getEnvBool_def getEnvDuration_def getEnvList_def)
  }
  show "getEnvInt env key fi = fi" if "Atoi (TrimSpace (env key)) = None" using that by (simp add: getEnvInt_def Let_def)
  show "getEnvBool env key fb = fb" if "ParseBool (TrimSpace (env key)) = None" using that by (simp add: getEnvBool_def Let_def)
  show "getEnvDuration frac env key fd = fd" if "ParseDuration frac (TrimSpace (env key)) = None"
    using that by (simp add: getEnvDuration_def Let_def)
qed

theorem settings_read_back_witness:
  "getEnvInt (\<lambda>_. '' -7 '') ''REDIS_DB'' 0 = -7 \<and>
   getEnvDuration (\<lambda>f n unit. 0) (\<lambda>_. '' 90s '') ''TRANSACTION_TIMEOUT'' second = 90 * second"
proof
  have blank: "list_all ascii_blank '' ''" by (simp add: ascii_blank_def)
  have "nat_digits 7 = ''7''" "nat_digits 90 = ''90''" by (simp_all add: nat_digits.simps)
  then show "getEnvInt (\<lambda>_. '' -7 '') ''REDIS_DB'' 0 = -7"
    using settings_read_back [OF blank blank, of "\<lambda>_. '' -7 ''" "''REDIS_DB''" "-7" 0 0 "[]" 0]
    by (simp add: FormatInt_def is_int64_def MinInt64_def MaxInt64_def)
  show "getEnvDuration (\<lambda>f n unit. 0) (\<lambda>_. '' 90s '') ''TRANSACTION_TIMEOUT'' second = 90 * second"
    using settings_read_back [OF blank blank, of "\<lambda>_. '' 90s ''" "''TRANSACTION_TIMEOUT''" 0 0 90 "''s''" 1000000000
        "\<lambda>f n unit. 0" second] \<open>nat_digits 90 = ''90''\<close>
    by (simp add: unitMap_def MaxInt64_def second_def)
qed

end
