(* ===== verification/Logging.thy ===== *)
theory Logging
  imports Config
begin

text \<open>
  The loggers of \<open>dpk/logger\<close>: the choice of sinks at start (\<open>logger.go\<close>), the file of the day (\<open>rolling.go\<close>) and the
  queue in front of the request log (\<open>async.go\<close>).

  Lines are Go strings. The files of the log directory are a function from their names to what they hold; whether
  the directory can be made, a file be opened and a write be accepted is an argument of each operation, as is the day
  the clock shows. The mutex of the daily writer makes each of its operations one step.
\<close>

section \<open>The file of the day\<close>

type_synonym files = "string \<Rightarrow> string"

text \<open>\<open>dw_file\<close> is the name of the open file in \<open>dw_dir\<close>, \<open>None\<close> for the nil pointer.\<close>

record dailyWriter =
  dw_dir :: string
  dw_day :: string
  dw_file :: "string option"

definition fileName :: "string \<Rightarrow> string" where "fileName day = day @ ''-app.log''"

definition rotate :: "bool \<Rightarrow> string \<Rightarrow> dailyWriter \<Rightarrow> string option \<times> dailyWriter" where
  "rotate opens day w =
     (if \<not> opens then (Some ''open log file'', w) else (None, w\<lparr>dw_file := Some (fileName day), dw_day := day\<rparr>))"

definition newDailyWriter :: "bool \<Rightarrow> bool \<Rightarrow> string \<Rightarrow> string \<Rightarrow> string + dailyWriter" where
  "newDailyWriter makes opens dir day =
     (if \<not> makes then Inl (''create log dir '' @ dir)
      else case rotate opens day \<lparr>dw_dir = dir, dw_day = [], dw_file = None\<rparr> of
        (Some e, w) \<Rightarrow> Inl e
      | (None, w) \<Rightarrow> Inr w)"

text \<open>What one write meets: the day, whether the file of that day opens, whether the file takes the line.\<close>

record log_moment =
  lm_day :: string
  lm_opens :: bool
  lm_takes :: bool

text \<open>The error returned, the writer and the files; a failed rotation goes to standard error and the old file is kept.\<close>

definition daily_Write :: "log_moment \<Rightarrow> string \<Rightarrow> dailyWriter \<times> files \<Rightarrow> string option \<times> dailyWriter \<times> files" where
  "daily_Write now p s =
     (case s of (w, fs) \<Rightarrow>
        let w1 = (if lm_day now \<noteq> dw_day w then snd (rotate (lm_opens now) (lm_day now) w) else w) in
        case dw_file w1 of
          None \<Rightarrow> (Some ''invalid argument'', w1, fs)
        | Some f \<Rightarrow> if lm_takes now then (None, w1, fs(f := fs f @ p)) else (Some ''write'', w1, fs))"

definition daily_Close :: "dailyWriter \<Rightarrow> dailyWriter" where
  "daily_Close w = (case dw_file w of None \<Rightarrow> w | Some f \<Rightarrow> w\<lparr>dw_file := None\<rparr>)"

section \<open>The loggers\<close>

datatype sink = Stdout | DailyFile dailyWriter

text \<open>\<open>configure\<close> gives the three loggers the same sinks, in the order of the \<open>io.MultiWriter\<close>; a logger is its prefix and its sinks.\<close>

definition configure :: "sink list \<Rightarrow> (string \<times> sink list) list" where
  "configure w = [(''INFO  '', w), (''WARN  '', w), (''ERROR '', w)]"

definition StartLogger :: "environment \<Rightarrow> bool \<Rightarrow> bool \<Rightarrow> string \<Rightarrow> (string \<times> sink list) list" where
  "StartLogger env makes opens day =
     (let v = env ''LOG_TO_FILE'';
          toFile = (if v \<noteq> [] then (case ParseBool v of Some parsed \<Rightarrow> parsed | None \<Rightarrow> True) else True)
      in if \<not> toFile then configure [Stdout]
         else let dir = (if env ''LOG_DIR'' = [] then ''./logs'' else env ''LOG_DIR'')
              in case newDailyWriter makes opens dir day of
                   Inl e \<Rightarrow> configure [Stdout]
                 | Inr fw \<Rightarrow> configure [Stdout, DailyFile fw])"

section \<open>The asynchronous writer\<close>

text \<open>
  The channel is buffered and holds at most \<open>aw_cap\<close> lines (4096 where it is used); \<open>Write\<close> blocks while it is full
  (\<open>None\<close>: the send does not happen in this state). The goroutine takes one line at a time and hands it to the wrapped writer, whose error is dropped.
\<close>

record asyncWriter =
  aw_cap :: nat
  aw_lines :: "string list"
  aw_out :: "string list"

definition NewAsyncWriter :: "nat \<Rightarrow> asyncWriter" where
  "NewAsyncWriter queue = \<lparr>aw_cap = queue, aw_lines = [], aw_out = []\<rparr>"

definition async_Write :: "string \<Rightarrow> asyncWriter \<Rightarrow> asyncWriter option" where
  "async_Write p a = (if length (aw_lines a) < aw_cap a then Some (a\<lparr>aw_lines := aw_lines a @ [p]\<rparr>) else None)"

definition async_drain :: "asyncWriter \<Rightarrow> asyncWriter option" where
  "async_drain a = (case aw_lines a of [] \<Rightarrow> None | b # bs \<Rightarrow> Some (a\<lparr>aw_lines := bs, aw_out := aw_out a @ [b]\<rparr>))"

inductive async_run :: "nat \<Rightarrow> string list \<Rightarrow> asyncWriter \<Rightarrow> bool" where
  start: "async_run n [] (NewAsyncWriter n)"
| line: "async_run n ps a \<Longrightarrow> async_Write p a = Some a' \<Longrightarrow> async_run n (ps @ [p]) a'"
| drain: "async_run n ps a \<Longrightarrow> async_drain a = Some a' \<Longrightarrow> async_run n ps a'"

lemma async_fifo:
  "async_run n ps a \<Longrightarrow> aw_out a @ aw_lines a = ps \<and> length (aw_lines a) \<le> n \<and> aw_cap a = n"
  by (induction rule: async_run.induct)
     (auto simp: NewAsyncWriter_def async_Write_def async_drain_def split: if_splits list.splits)

lemma async_not_stuck: "0 < aw_cap a \<Longrightarrow> (\<exists>a'. async_Write p a = Some a') \<or> (\<exists>a'. async_drain a = Some a')"
  by (cases "aw_lines a") (auto simp: async_Write_def async_drain_def)

section \<open>Every line in the file of its day\<close>

primrec daily_writes :: "(log_moment \<times> string) list \<Rightarrow> dailyWriter \<times> files \<Rightarrow> dailyWriter \<times> files" where
  "daily_writes [] s = s"
| "daily_writes (x # xs) s = daily_writes xs (snd (daily_Write (fst x) (snd x) s))"

text \<open>The day whose file a line goes to: that of the line if its file opens, otherwise that of the line before.\<close>

fun filed_under :: "string \<Rightarrow> (log_moment \<times> string) list \<Rightarrow> (string \<times> string) list" where
  "filed_under day [] = []"
| "filed_under day ((now, p) # xs) =
     (let d = (if lm_opens now then lm_day now else day) in
      (if lm_takes now then [(d, p)] else []) @ filed_under d xs)"

definition writing :: "dailyWriter \<Rightarrow> bool" where "writing w \<longleftrightarrow> dw_file w = Some (fileName (dw_day w))"

lemma newDailyWriter_writing: "newDailyWriter makes opens dir day = Inr w \<Longrightarrow> writing w \<and> dw_day w = day"
  by (auto simp: newDailyWriter_def rotate_def writing_def split: if_splits)

lemma daily_Write_step:
  assumes "writing w"
  shows "let d = (if lm_opens now then lm_day now else dw_day w) in
         \<exists>w'. snd (daily_Write now p (w, fs)) = (w', if lm_takes now then fs(fileName d := fs (fileName d) @ p) else fs) \<and>
              writing w' \<and> dw_day w' = d"
  using assms by (auto simp: daily_Write_def rotate_def writing_def Let_def)

lemma fileName_inj [simp]: "fileName a = fileName b \<longleftrightarrow> a = b"
  by (simp add: fileName_def)

lemma daily_writes_files:
  "writing w \<Longrightarrow> snd (daily_writes xs (w, fs)) (fileName day) =
     fs (fileName day) @ concat (map snd (filter (\<lambda>x. fst x = day) (filed_under (dw_day w) xs)))"
proof (induction xs arbitrary: w fs)
  case (Cons x xs)
  obtain now p where x: "x = (now, p)" by fastforce
  define d where "d = (if lm_opens now then lm_day now else dw_day w)"
  obtain w' where w': "snd (daily_Write now p (w, fs)) = (w', if lm_takes now then fs(fileName d := fs (fileName d) @ p) else fs)"
    "writing w'" "dw_day w' = d"
    using daily_Write_step [OF Cons.prems, of now p fs] by (auto simp: Let_def d_def)
  show ?case using Cons.IH [OF w'(2)] w'(1,3) by (simp add: x Let_def d_def [symmetric])
qed simp

lemma filed_under_opened:
  "\<forall>x \<in> set xs. lm_opens (fst x) \<and> lm_takes (fst x) \<Longrightarrow> filed_under day xs = map (\<lambda>x. (lm_day (fst x), snd x)) xs"
  by (induction day xs rule: filed_under.induct) (auto simp: Let_def)

text \<open>
  A daily writer that was created files every line the disk takes under exactly one day, in order, and
  changes no other file: each file ends up as what it held followed by the lines filed under its day. As long as
  the files open, that day is the day of the line, so no file mixes two days; a line whose file does not open goes
  to the file of the line before it rather than being lost.
\<close>

theorem lines_filed_by_day:
  assumes "newDailyWriter makes opens dir start = Inr w"
  shows "snd (daily_writes xs (w, fs)) (fileName day) =
           fs (fileName day) @ concat (map snd (filter (\<lambda>x. fst x = day) (filed_under start xs))) \<and>
         ((\<forall>x \<in> set xs. lm_opens (fst x) \<and> lm_takes (fst x)) \<longrightarrow>
            filed_under start xs = map (\<lambda>x. (lm_day (fst x), snd x)) xs) \<and>
         ((\<forall>x \<in> set xs. lm_takes (fst x)) \<longrightarrow> map snd (filed_under start xs) = map snd xs)"
proof (intro conjI impI)
  show "snd (daily_writes xs (w, fs)) (fileName day) =
      fs (fileName day) @ concat (map snd (filter (\<lambda>x. fst x = day) (filed_under start xs)))"
    using newDailyWriter_writing [OF assms] daily_writes_files [of w xs fs day] by simp
  show "filed_under start xs = map (\<lambda>x. (lm_day (fst x), snd x)) xs"
    if "\<forall>x \<in> set xs. lm_opens (fst x) \<and> lm_takes (fst x)"
    using filed_under_opened [OF that] .
  show "map snd (filed_under start xs) = map snd xs" if "\<forall>x \<in> set xs. lm_takes (fst x)"
    using that by (induction start xs rule: filed_under.induct) (auto simp: Let_def)
qed

theorem lines_filed_by_day_witness:
  "let xs = [(\<lparr>lm_day = ''2024-01-01'', lm_opens = True, lm_takes = True\<rparr>, ''a''),
             (\<lparr>lm_day = ''2024-01-02'', lm_opens = False, lm_takes = True\<rparr>, ''b''),
             (\<lparr>lm_day = ''2024-01-02'', lm_opens = True, lm_takes = True\<rparr>, ''c'')];
       w = \<lparr>dw_dir = ''logs'', dw_day = ''2024-01-01'', dw_file = Some (fileName ''2024-01-01'')\<rparr>
   in snd (daily_writes xs (w, \<lambda>f. [])) (fileName ''2024-01-01'') = ''ab''"
  using lines_filed_by_day [of True True "''logs''" "''2024-01-01''"
      "\<lparr>dw_dir = ''logs'', dw_day = ''2024-01-01'', dw_file = Some (fileName ''2024-01-01'')\<rparr>"
      "[(\<lparr>lm_day = ''2024-01-01'', lm_opens = True, lm_takes = True\<rparr>, ''a''),
        (\<lparr>lm_day = ''2024-01-02'', lm_opens = False, lm_takes = True\<rparr>, ''b''),
        (\<lparr>lm_day = ''2024-01-02'', lm_opens = True, lm_takes = True\<rparr>, ''c'')]" "\<lambda>f. []" "''2024-01-01''"]
  by (simp add: newDailyWriter_def rotate_def Let_def)

end
