(* ===== verification/Partitions.thy ===== *)
theory Partitions
  imports Day_Window
begin

text \<open>
  The monthly partitions of the \<open>transactions\<close> and \<open>ledgers\<close> tables (\<open>internal/db/partitions.go\<close>). The database side is what
  PostgreSQL documents of it: \<open>CREATE TABLE IF NOT EXISTS ... PARTITION OF\<close> does nothing when a table of the name exists and is refused when
  the range overlaps another partition of the table; an error inside a transaction aborts it, so that every later statement fails and
  a commit rolls back. \<open>pe_fault\<close> chooses further errors, by call. \<open>now\<close> is given by its year and month; bounds are in days
  from 1 January 1970, as the statement writes them.
\<close>

section \<open>The database side\<close>

record partition =
  pn_name :: string
  pn_table :: string
  pn_from :: int
  pn_to :: int

record pg_txn =
  pt_parts :: "partition list"
  pt_aborted :: bool
  pt_calls :: nat

type_synonym pg_faults = "nat \<Rightarrow> string option"

definition pg_overlaps :: "partition \<Rightarrow> partition \<Rightarrow> bool" where
  "pg_overlaps p q \<longleftrightarrow> pn_table p = pn_table q \<and> pn_from p < pn_to q \<and> pn_from q < pn_to p"

text \<open>One statement in a transaction: its error code, if any.\<close>

definition pg_exec :: "pg_faults \<Rightarrow> (partition list \<Rightarrow> string + partition list) \<Rightarrow> pg_txn \<Rightarrow> string option \<times> pg_txn" where
  "pg_exec pe stmt x =
     (let x1 = x\<lparr>pt_calls := Suc (pt_calls x)\<rparr> in
      if pt_aborted x then (Some ''25P02'', x1)
      else (case pe (pt_calls x) of
          Some code \<Rightarrow> (Some code, x1\<lparr>pt_aborted := True\<rparr>)
        | None \<Rightarrow> (case stmt (pt_parts x) of
              Inl code \<Rightarrow> (Some code, x1\<lparr>pt_aborted := True\<rparr>)
            | Inr ps \<Rightarrow> (None, x1\<lparr>pt_parts := ps\<rparr>))))"

definition pg_create :: "partition \<Rightarrow> partition list \<Rightarrow> string + partition list" where
  "pg_create p ps =
     (if list_ex (\<lambda>q. pn_name q = pn_name p) ps then Inr ps
      else if list_ex (pg_overlaps p) ps then Inl ''42P17'' else Inr (ps @ [p]))"

section \<open>The program\<close>

definition partitionedTables :: "string list" where "partitionedTables = [''transactions'', ''ledgers'']"
definition MonthsAhead :: nat where "MonthsAhead = 2"

definition pad_int :: "nat \<Rightarrow> nat \<Rightarrow> string" where
  "pad_int k n = replicate (k - length (nat_digits n)) (CHR ''0'') @ nat_digits n"

text \<open>A month as a number: \<open>AddDate(0, i, 0)\<close> on the first of a month is the first of the month i later.\<close>

definition month_index :: "nat \<Rightarrow> nat \<Rightarrow> nat" where "month_index y m = 12 * y + (m - 1)"

definition month_start :: "nat \<Rightarrow> int" where "month_start k = day_number (k div 12) (k mod 12 + 1) 1"

definition month_partition :: "string \<Rightarrow> nat \<Rightarrow> partition" where
  "month_partition table k =
     \<lparr>pn_name = table @ ''_'' @ pad_int 4 (k div 12) @ ''_'' @ pad_int 2 (k mod 12 + 1), pn_table = table,
      pn_from = month_start k, pn_to = month_start (k + 1)\<rparr>"

definition alreadyExists :: "string \<Rightarrow> bool" where "alreadyExists code \<longleftrightarrow> code = ''42P07'' \<or> code = ''23505''"

definition createPartition :: "pg_faults \<Rightarrow> string \<Rightarrow> nat \<Rightarrow> pg_txn \<Rightarrow> string option \<times> pg_txn" where
  "createPartition pe table k x =
     (case pg_exec pe (pg_create (month_partition table k)) x of
        (Some code, x1) \<Rightarrow> if alreadyExists code then (None, x1) else (Some (''create partition '' @ pn_name (month_partition table k)), x1)
      | (None, x1) \<Rightarrow> (None, x1))"

fun create_all :: "pg_faults \<Rightarrow> (string \<times> nat) list \<Rightarrow> pg_txn \<Rightarrow> string option \<times> pg_txn" where
  "create_all pe [] x = (None, x)"
| "create_all pe ((table, k) # tks) x =
     (case createPartition pe table k x of (Some e, x1) \<Rightarrow> (Some e, x1) | (None, x1) \<Rightarrow> create_all pe tks x1)"

definition partition_targets :: "nat \<Rightarrow> (string \<times> nat) list" where
  "partition_targets k = concat (map (\<lambda>i. map (\<lambda>table. (table, k + i)) partitionedTables) [0..<MonthsAhead + 1])"

text \<open>The error returned, and the partitions afterwards: a transaction that fails, or that is aborted at commit, leaves none of its own.\<close>

definition EnsurePartitions :: "pg_faults \<Rightarrow> nat \<Rightarrow> nat \<Rightarrow> partition list \<Rightarrow> string option \<times> partition list" where
  "EnsurePartitions pe y m ps =
     (case pg_exec pe Inr \<lparr>pt_parts = ps, pt_aborted = False, pt_calls = 0\<rparr> of
        (Some code, x) \<Rightarrow> (Some ''partition lock'', ps)
      | (None, x) \<Rightarrow>
          (case create_all pe (partition_targets (month_index y m)) x of
             (Some e, x1) \<Rightarrow> (Some e, ps)
           | (None, x1) \<Rightarrow> if pt_aborted x1 then (Some ''commit unexpectedly resulted in rollback'', ps) else (None, pt_parts x1)))"

text \<open>The daily runs of \<open>RunPartitionMaintenance\<close>, at the given year and month; an error is only logged.\<close>

fun RunPartitionMaintenance :: "pg_faults list \<Rightarrow> (nat \<times> nat) list \<Rightarrow> partition list \<Rightarrow> partition list" where
  "RunPartitionMaintenance (pe # pes) ((y, m) # nows) ps = RunPartitionMaintenance pes nows (snd (EnsurePartitions pe y m ps))"
| "RunPartitionMaintenance pes nows ps = ps"

section \<open>Months\<close>

lemma month_step: "month_start (k + 1) = month_start k + int (daysIn (k mod 12 + 1) (k div 12))"
proof (cases "k mod 12 = 11")
  case True
  then have k: "(k + 1) div 12 = Suc (k div 12)" "(k + 1) mod 12 = 0" by (simp_all add: div_Suc mod_Suc)
  have "int (days_before_month (k div 12) 12) + int (daysIn 12 (k div 12)) = (if leap_year (k div 12) then 366 else 365)"
    using arg_cong [OF year_length [of "k div 12"], of int] by simp
  then show ?thesis using days_before_year_Suc [of "k div 12"] True k by (simp add: month_start_def day_number_def)
next
  case False
  then have k: "(k + 1) div 12 = k div 12" "(k + 1) mod 12 = Suc (k mod 12)" by (simp_all add: div_Suc mod_Suc)
  then show ?thesis by (simp add: month_start_def day_number_def)
qed

lemma month_start_less: "j < k \<Longrightarrow> month_start j < month_start k"
proof (induction k)
  case (Suc k)
  have "0 < int (daysIn (k mod 12 + 1) (k div 12))" by (simp add: daysIn_def)
  with month_step [of k] Suc show ?case by (cases "j = k") auto
qed simp

lemma month_start_le: "j \<le> k \<Longrightarrow> month_start j \<le> month_start k"
  using month_start_less [of j k] by (cases "j = k") auto

lemma months_overlap: "pg_overlaps (month_partition a j) (month_partition b k) \<longleftrightarrow> a = b \<and> j = k"
  using month_start_le [of "j + 1" k] month_start_le [of "k + 1" j] month_start_less [of k "k + 1"]
  by (cases j k rule: linorder_cases) (auto simp: pg_overlaps_def month_partition_def)

lemma pad_value: "digits_value (pad_int k n) = n"
proof -
  have "digits_value (replicate i (CHR ''0'') @ s) = digits_value s" for i s
    by (induction i) simp_all
  then show ?thesis by (simp add: pad_int_def)
qed

lemma month_names:
  assumes "a \<in> set partitionedTables" "b \<in> set partitionedTables"
  shows "pn_name (month_partition a j) = pn_name (month_partition b k) \<longleftrightarrow> a = b \<and> j = k"
proof
  assume eq: "pn_name (month_partition a j) = pn_name (month_partition b k)"
  then have ab: "a = b" using assms by (auto simp: month_partition_def partitionedTables_def)
  have len: "length (pad_int 2 (i mod 12 + 1)) = 2" for i :: nat
  proof -
    have "length (nat_digits (i mod 12 + 1)) \<le> 2" by (simp add: nat_digits.simps)
    then show ?thesis by (simp add: pad_int_def)
  qed
  from eq ab have "pad_int 4 (j div 12) @ ''_'' @ pad_int 2 (j mod 12 + 1) = pad_int 4 (k div 12) @ ''_'' @ pad_int 2 (k mod 12 + 1)"
    by (simp add: month_partition_def)
  then have "pad_int 4 (j div 12) = pad_int 4 (k div 12) \<and> pad_int 2 (j mod 12 + 1) = pad_int 2 (k mod 12 + 1)"
    using len by (simp add: append_eq_append_conv)
  then have "j div 12 = k div 12" "j mod 12 + 1 = k mod 12 + 1" by (metis pad_value)+
  then have "j = k" by (metis add_right_cancel div_mult_mod_eq)
  with ab show "a = b \<and> j = k" by simp
qed simp

section \<open>Properties\<close>

text \<open>A database whose partitions are monthly ones, each made once.\<close>

definition monthly :: "partition list \<Rightarrow> bool" where
  "monthly ps \<longleftrightarrow> (\<forall>p \<in> set ps. \<exists>table \<in> set partitionedTables. \<exists>k. p = month_partition table k) \<and> distinct ps"

definition holds_day :: "string \<Rightarrow> int \<Rightarrow> partition \<Rightarrow> bool" where
  "holds_day table d p \<longleftrightarrow> pn_table p = table \<and> pn_from p \<le> d \<and> d < pn_to p"

lemma create_month:
  assumes "monthly ps" "table \<in> set partitionedTables"
  shows "pg_create (month_partition table k) ps = Inr (if month_partition table k \<in> set ps then ps else ps @ [month_partition table k])"
proof -
  have same: "q = month_partition table k" if "q \<in> set ps" "pn_name q = pn_name (month_partition table k) \<or> pg_overlaps (month_partition table k) q" for q
    using assms that month_names [OF _ assms(2)] by (auto simp: monthly_def months_overlap)
  show ?thesis
  proof (cases "month_partition table k \<in> set ps")
    case True
    then show ?thesis by (auto simp: pg_create_def list_ex_iff)
  next
    case False
    then have "\<not> list_ex (\<lambda>q. pn_name q = pn_name (month_partition table k)) ps" "\<not> list_ex (pg_overlaps (month_partition table k)) ps"
      using same by (auto simp: list_ex_iff)
    with False show ?thesis by (simp add: pg_create_def)
  qed
qed

lemma monthly_snoc: "monthly ps \<Longrightarrow> table \<in> set partitionedTables \<Longrightarrow> month_partition table k \<notin> set ps \<Longrightarrow> monthly (ps @ [month_partition table k])"
  by (auto simp: monthly_def)

lemma create_all_months:
  assumes "\<And>n. pe n = None" "monthly (pt_parts x)" "\<not> pt_aborted x" "\<forall>(table, k) \<in> set tks. table \<in> set partitionedTables"
  shows "\<exists>x'. create_all pe tks x = (None, x') \<and> \<not> pt_aborted x' \<and> monthly (pt_parts x') \<and>
    set (pt_parts x') = set (pt_parts x) \<union> (\<lambda>(table, k). month_partition table k) ` set tks \<and>
    ((\<lambda>(table, k). month_partition table k) ` set tks \<subseteq> set (pt_parts x) \<longrightarrow> pt_parts x' = pt_parts x)"
  using assms(2-4)
proof (induction tks arbitrary: x)
  case (Cons tk tks)
  obtain table k where tk: "tk = (table, k)" by force
  let ?p = "month_partition table k"
  let ?x = "x\<lparr>pt_calls := Suc (pt_calls x), pt_parts := if ?p \<in> set (pt_parts x) then pt_parts x else pt_parts x @ [?p]\<rparr>"
  have tb: "table \<in> set partitionedTables" using Cons.prems(3) tk by simp
  have step: "createPartition pe table k x = (None, ?x)"
    using create_month [OF Cons.prems(1) tb] Cons.prems(2) by (simp add: createPartition_def pg_exec_def assms(1) Let_def)
  have "monthly (pt_parts ?x)" using Cons.prems(1) tb monthly_snoc by simp
  from Cons.IH [OF this] Cons.prems(2,3) obtain x' where "create_all pe tks ?x = (None, x')" "\<not> pt_aborted x'" "monthly (pt_parts x')"
    "set (pt_parts x') = set (pt_parts ?x) \<union> (\<lambda>(table, k). month_partition table k) ` set tks"
    "(\<lambda>(table, k). month_partition table k) ` set tks \<subseteq> set (pt_parts ?x) \<longrightarrow> pt_parts x' = pt_parts ?x"
    by auto
  then show ?case by (auto simp: tk step)
qed simp

lemma holds_once:
  assumes "monthly ps" "p \<in> set ps" "q \<in> set ps" "holds_day table d p" "holds_day table d q"
  shows "p = q"
proof -
  have "pg_overlaps p q" using assms(4,5) by (auto simp: holds_day_def pg_overlaps_def)
  moreover obtain a j b k where "p = month_partition a j" "q = month_partition b k" using assms(1-3) unfolding monthly_def by metis
  ultimately show ?thesis by (simp add: months_overlap)
qed

lemma targets_set: "set (partition_targets k) = set partitionedTables \<times> {k, k + 1, k + 2}"
  by (auto simp: partition_targets_def MonthsAhead_def eval_nat_numeral)

lemma EnsurePartitions_runs:
  assumes "monthly qs" "\<And>n. pe n = None"
  shows "\<exists>qs'. EnsurePartitions pe y m qs = (None, qs') \<and> monthly qs' \<and>
    set qs' = set qs \<union> (\<lambda>(table, k). month_partition table k) ` set (partition_targets (month_index y m)) \<and>
    ((\<lambda>(table, k). month_partition table k) ` set (partition_targets (month_index y m)) \<subseteq> set qs \<longrightarrow> qs' = qs)"
proof -
  let ?k = "month_index y m"
  let ?T = "(\<lambda>(table, k). month_partition table k) ` set (partition_targets ?k)"
  let ?x = "\<lparr>pt_parts = qs, pt_aborted = False, pt_calls = 1\<rparr>"
  have tabs: "\<forall>(table, k) \<in> set (partition_targets ?k). table \<in> set partitionedTables" by (auto simp: targets_set)
  have m: "monthly (pt_parts ?x)" "\<not> pt_aborted ?x" using assms(1) by simp_all
  from create_all_months [where pe = pe and x = ?x, OF assms(2) m tabs]
  obtain x' where "create_all pe (partition_targets ?k) ?x = (None, x')" "\<not> pt_aborted x'" "monthly (pt_parts x')"
    "set (pt_parts x') = set qs \<union> ?T" "?T \<subseteq> set qs \<longrightarrow> pt_parts x' = qs" by auto
  then show ?thesis by (simp add: EnsurePartitions_def pg_exec_def assms(2) Let_def)
qed

text \<open>
  Claim C30. Partitions are there before they are needed. On a database whose partitions are monthly ones and that reports no error, for any
  \<open>now\<close>, the run succeeds and keeps what there was; afterwards, for both tables, every day from the first of the current month to the end of the
  second month after it lies in exactly one partition, and a second run changes nothing.
\<close>

theorem partitions_ready:
  assumes "monthly ps" "\<And>n. pe n = None" "EnsurePartitions pe y m ps = (err, ps')"
  shows "err = None \<and> monthly ps' \<and> set ps \<subseteq> set ps' \<and> EnsurePartitions pe y m ps' = (None, ps') \<and>
    (\<forall>table \<in> set partitionedTables. \<forall>d. month_start (month_index y m) \<le> d \<and> d < month_start (month_index y m + 3) \<longrightarrow>
       (\<exists>!p. p \<in> set ps' \<and> holds_day table d p))"
proof -
  let ?k = "month_index y m"
  let ?T = "(\<lambda>(table, k). month_partition table k) ` set (partition_targets ?k)"
  note run = EnsurePartitions_runs [where pe = pe and y = y and m = m, OF _ assms(2)]
  from run [OF assms(1)] assms(3) have r: "err = None" "monthly ps'" "set ps' = set ps \<union> ?T" by auto
  have twice: "EnsurePartitions pe y m ps' = (None, ps')" using run [OF r(2)] r(3) by auto
  have "\<exists>!p. p \<in> set ps' \<and> holds_day table d p"
    if "table \<in> set partitionedTables" "month_start ?k \<le> d" "d < month_start (?k + 3)" for table d
  proof -
    have "\<exists>j \<in> {?k, ?k + 1, ?k + 2}. month_start j \<le> d \<and> d < month_start (j + 1)"
      using that(2,3) by (auto simp: eval_nat_numeral not_less)
    then obtain j where j: "j \<in> {?k, ?k + 1, ?k + 2}" "month_start j \<le> d" "d < month_start (j + 1)" by blast
    then have "month_partition table j \<in> set ps'" "holds_day table d (month_partition table j)"
      using r(3) that(1) by (auto simp: targets_set holds_day_def month_partition_def)
    then show ?thesis using holds_once [OF r(2)] by blast
  qed
  then show ?thesis using r twice by auto
qed

theorem partitions_ready_witness:
  "fst (EnsurePartitions (\<lambda>n. None) 2024 12 []) = None \<and>
   (\<exists>!p. p \<in> set (snd (EnsurePartitions (\<lambda>n. None) 2024 12 [])) \<and> holds_day ''ledgers'' (month_start (month_index 2024 12 + 1)) p)"
proof -
  obtain err ps' where e: "EnsurePartitions (\<lambda>n. None) 2024 12 [] = (err, ps')" by fastforce
  have d: "month_start (month_index 2024 12) \<le> month_start (month_index 2024 12 + 1)"
    "month_start (month_index 2024 12 + 1) < month_start (month_index 2024 12 + 3)" by (rule month_start_le month_start_less, simp)+
  have "monthly []" by (simp add: monthly_def)
  from partitions_ready [OF this refl e] d show ?thesis by (simp add: e partitionedTables_def)
qed

text \<open>A partition made by a peer at the same time is not ignored: the error aborts the transaction, and nothing is created.\<close>

lemma create_all_faulty:
  assumes "pt_aborted x \<or> pt_calls x \<le> n \<and> n < pt_calls x + length tks" "pe n = Some code" "create_all pe tks x = (r, x')"
  shows "r \<noteq> None \<or> pt_aborted x'"
  using assms(1,3)
proof (induction tks arbitrary: x)
  case (Cons tk tks)
  obtain table k where tk: "tk = (table, k)" by force
  obtain e x1 where c: "createPartition pe table k x = (e, x1)" by force
  have "e \<noteq> None \<or> pt_aborted x1 \<or> \<not> pt_aborted x \<and> pt_calls x1 = Suc (pt_calls x) \<and> pt_calls x \<noteq> n"
    using c assms(2) by (auto simp: createPartition_def pg_exec_def Let_def split: if_splits option.splits sum.splits)
  then have "e \<noteq> None \<or> pt_aborted x1 \<or> pt_calls x1 \<le> n \<and> n < pt_calls x1 + length tks" using Cons.prems(1) by auto
  then consider "e \<noteq> None" | "e = None" "pt_aborted x1 \<or> pt_calls x1 \<le> n \<and> n < pt_calls x1 + length tks" by blast
  then show ?case
  proof cases
    case 1
    then show ?thesis using Cons.prems(2) c by (auto simp: tk)
  next
    case 2
    then show ?thesis using Cons.IH [OF 2(2)] Cons.prems(2) c by (simp add: tk)
  qed
qed auto

lemma racing_peer_not_ignored:
  assumes "1 \<le> n" "n \<le> 6" "pe n = Some ''42P07''"
  shows "\<exists>e. EnsurePartitions pe y m ps = (Some e, ps)"
proof -
  obtain r x where l: "pg_exec pe Inr \<lparr>pt_parts = ps, pt_aborted = False, pt_calls = 0\<rparr> = (r, x)" by force
  obtain r' x' where a: "create_all pe (partition_targets (month_index y m)) x = (r', x')" by force
  have "pt_calls x = 1" using l by (auto simp: pg_exec_def Let_def split: option.splits)
  moreover have "length (partition_targets (month_index y m)) = 6"
    by (simp add: partition_targets_def MonthsAhead_def partitionedTables_def eval_nat_numeral)
  ultimately have "r' \<noteq> None \<or> pt_aborted x'" using create_all_faulty [OF _ assms(3) a] assms(1,2) by simp
  then show ?thesis using l a by (cases r; cases r') (auto simp: EnsurePartitions_def)
qed

end
