(* ===== verification/Startup.thy ===== *)
theory Startup
  imports Config Partitions Recovery Http_Api
begin

text \<open>
  How a process comes up and goes down: \<open>cmd/main.go\<close>, \<open>cmd/servers\<close>, the database pool of
  \<open>internal/db/connection.go\<close>, the migrator, and the wiring of the cluster (\<open>internal/cluster\<close>, \<open>internal/actors/resolver.go\<close>).

  A run is the list of what it did to the outside, in order, with its exit code. What the outside answers is the
  record \<open>surroundings\<close>: errors are their texts, \<open>None\<close> no error. The packages that are only configured here (gorm,
  golang-migrate, Proto.Actor, chi, gRPC, go-redis) are this record's fields and the actions' arguments. A call of
  \<open>Fatalf\<close> ends the run with code 1 and runs no deferred call.
\<close>

section \<open>What the outside answers\<close>

datatype migrate_error = ErrNoChange | MigrateError string

text \<open>What the \<open>select\<close> of \<open>Run\<close> returns for: the signal, the gRPC server or the HTTP server.\<close>

datatype stop_cause = ShutdownSignal | GrpcEnded "string option" | HttpEnded string

record surroundings =
  on_open :: "string \<Rightarrow> string option"
  on_handle :: "string option"
  on_ping :: "string option"
  on_sql_open :: "string \<Rightarrow> string option"
  on_source :: "string option"
  on_driver :: "string option"
  on_instance :: "string option"
  on_up :: "migrate_error option"
  on_steps :: "migrate_error option"
  on_parts :: pg_faults
  on_month :: "nat \<times> nat"
  on_tables :: "partition list"
  on_k8s :: "string option"
  on_grpc_listen :: "string option"
  on_stop :: stop_cause

section \<open>The database\<close>

record pool =
  pl_dsn :: string
  pl_PrepareStmt :: bool
  pl_MaxOpenConns :: int64
  pl_MaxIdleConns :: int64
  pl_ConnMaxLifetime :: time

definition Open :: "surroundings \<Rightarrow> string \<Rightarrow> bool \<Rightarrow> int64 \<Rightarrow> int64 \<Rightarrow> string + pool" where
  "Open w dsn prepared maxOpen maxIdle =
     (case on_open w dsn of
        Some e \<Rightarrow> Inl (''open database: '' @ e)
      | None \<Rightarrow>
          (case on_handle w of
             Some e \<Rightarrow> Inl (''unwrap sql.DB: '' @ e)
           | None \<Rightarrow>
               (case on_ping w of
                  Some e \<Rightarrow> Inl (''ping database: '' @ e)
                | None \<Rightarrow> Inr \<lparr>pl_dsn = dsn, pl_PrepareStmt = prepared, pl_MaxOpenConns = maxOpen,
                    pl_MaxIdleConns = min maxIdle maxOpen, pl_ConnMaxLifetime = 30 * minute\<rparr>)))"

definition Connect :: "surroundings \<Rightarrow> config \<Rightarrow> string + pool" where
  "Connect w cfg = (case AppDSN cfg of (dsn, prepared) \<Rightarrow> Open w dsn prepared (DbMaxOpenConns cfg) (DbMaxIdleConns cfg))"

text \<open>\<open>newMigrator\<close>: the connection, the embedded files, the driver and the migrator, in this order; the error of the first that fails.\<close>

definition newMigrator :: "surroundings \<Rightarrow> string \<Rightarrow> string option" where
  "newMigrator w dsn =
     (case on_sql_open w dsn of Some e \<Rightarrow> Some (''migrator connect: '' @ e)
      | None \<Rightarrow> (case on_source w of Some e \<Rightarrow> Some (''migration source: '' @ e)
      | None \<Rightarrow> (case on_driver w of Some e \<Rightarrow> Some (''migration driver: '' @ e)
      | None \<Rightarrow> (case on_instance w of Some e \<Rightarrow> Some (''migrator: '' @ e) | None \<Rightarrow> None))))"

definition unless_unchanged :: "string \<Rightarrow> migrate_error option \<Rightarrow> string option" where
  "unless_unchanged what r = (case r of Some (MigrateError e) \<Rightarrow> Some (what @ e) | _ \<Rightarrow> None)"

definition Migrate :: "surroundings \<Rightarrow> string \<Rightarrow> string option" where
  "Migrate w dsn = (case newMigrator w dsn of Some e \<Rightarrow> Some e | None \<Rightarrow> unless_unchanged ''migrate up: '' (on_up w))"

definition Rollback :: "surroundings \<Rightarrow> string \<Rightarrow> string option" where
  "Rollback w dsn = (case newMigrator w dsn of Some e \<Rightarrow> Some e | None \<Rightarrow> unless_unchanged ''migrate down: '' (on_steps w))"

section \<open>The cluster\<close>

definition KindWallet :: string where "KindWallet = ''Wallet''"
definition KindTransaction :: string where "KindTransaction = ''Transaction''"

datatype grain = WalletGrain wallet_actor | TransactionGrain tactor

definition Kinds :: "time \<Rightarrow> (string \<times> grain) list" where
  "Kinds replyTimeout =
     [(KindWallet, WalletGrain NewWalletActor),
      (KindTransaction, TransactionGrain (WithReplyTimeout replyTimeout NewTransactionActor))]"

datatype provider = K8s | Automanaged time int64 string

definition newProvider :: "surroundings \<Rightarrow> config \<Rightarrow> string + provider" where
  "newProvider w cfg =
     (if ClusterMode cfg = ''cluster'' then (case on_k8s w of Some e \<Rightarrow> Inl e | None \<Rightarrow> Inr K8s)
      else Inr (Automanaged (2 * second) (AutomanagedPort cfg) (''localhost:'' @ FormatInt (AutomanagedPort cfg))))"

record member =
  me_name :: string
  me_provider :: provider
  me_host :: string
  me_port :: int64
  me_kinds :: "(string \<times> grain) list"
  me_requestTimeout :: time

definition cluster_New :: "surroundings \<Rightarrow> config \<Rightarrow> (string \<times> grain) list \<Rightarrow> string + member" where
  "cluster_New w cfg kinds =
     (case newProvider w cfg of
        Inl e \<Rightarrow> Inl e
      | Inr p \<Rightarrow> Inr \<lparr>me_name = ClusterName cfg, me_provider = p, me_host = AdvertisedHost cfg, me_port = ClusterPort cfg,
          me_kinds = kinds, me_requestTimeout = 10 * second\<rparr>)"

definition errClusterUnavailable :: string where
  "errClusterUnavailable = ''cluster could not place wallet actor''"

text \<open>\<open>ClusterResolver.WalletPID\<close>: the first argument is the cluster of the actor system, if there is one, as its placement of an identity and a kind.\<close>

definition WalletPID :: "(string \<Rightarrow> string \<Rightarrow> 'pid option) option \<Rightarrow> ctx \<Rightarrow> uuid \<Rightarrow> string + 'pid" where
  "WalletPID cl c walletID =
     (case cl of
        None \<Rightarrow> Inl errClusterUnavailable
      | Some get \<Rightarrow> (case get (str_uuid c walletID) KindWallet of None \<Rightarrow> Inl errClusterUnavailable | Some pid \<Rightarrow> Inr pid))"

section \<open>The servers\<close>

record http_server =
  hs_Addr :: string
  hs_ReadHeaderTimeout :: time
  hs_ReadTimeout :: time
  hs_WriteTimeout :: time
  hs_IdleTimeout :: time
  hs_AllowedOrigins :: "string list"

datatype boot_action =
    DbOpened pool
  | MigratedUp string
  | MigratedDown string
  | PartitionsEnsured "partition list"
  | CacheStarted string int64 time
  | CacheClosed
  | TimeoutWarning
  | ClusterStarted member
  | RecoveryStarted manager
  | PartitionMaintenanceStarted
  | GrpcListening string
  | HttpListening http_server
  | HttpShutdown time
  | GrpcStopped
  | ClusterShutdown

definition startGrpc :: "surroundings \<Rightarrow> config \<Rightarrow> boot_action list" where
  "startGrpc w cfg = (case on_grpc_listen w of Some e \<Rightarrow> [] | None \<Rightarrow> [GrpcListening ('':'' @ GrpcPort cfg)])"

definition startHTTP :: "config \<Rightarrow> boot_action list" where
  "startHTTP cfg =
     [HttpListening \<lparr>hs_Addr = '':'' @ Port cfg, hs_ReadHeaderTimeout = 5 * second, hs_ReadTimeout = 15 * second,
        hs_WriteTimeout = 30 * second, hs_IdleTimeout = 60 * second, hs_AllowedOrigins = CorsAllowedOrigins cfg\<rparr>]"

text \<open>
  The routes that \<open>startHTTP\<close> adds to those of \<open>Router\<close>: the probes, which skip the content type check of the API,
  and the API under \<open>/v1\<close>. \<open>ping\<close> is the database's answer, \<open>typed\<close> the verdict of \<open>AllowContentType\<close>.
\<close>

datatype served = Plain int string | ToApi route | WrongContentType | NoRoute

definition server_routes :: "string option \<Rightarrow> bool \<Rightarrow> string \<Rightarrow> string list \<Rightarrow> served" where
  "server_routes ping typed m path =
     (if m = ''GET'' \<and> path = [''healthz''] then Plain 200 ''ok''
      else if m = ''GET'' \<and> path = [''readyz''] then
        (case ping of Some e \<Rightarrow> Plain 503 ''database unavailable'' | None \<Rightarrow> Plain 200 ''ready'')
      else case path of
        [] \<Rightarrow> NoRoute
      | v # rest \<Rightarrow>
          if v = ''v1'' then (if \<not> typed then WrongContentType
            else case Router m rest of None \<Rightarrow> NoRoute | Some r \<Rightarrow> ToApi r)
          else NoRoute)"

text \<open>The error of the event that ends the wait; a gRPC listener that could not open has put its error in the channel.\<close>

definition stop_error :: "surroundings \<Rightarrow> string option" where
  "stop_error w =
     (case on_stop w of
        ShutdownSignal \<Rightarrow> None
      | GrpcEnded r \<Rightarrow> (case on_grpc_listen w of Some e \<Rightarrow> Some e | None \<Rightarrow> r)
      | HttpEnded e \<Rightarrow> Some e)"

definition recovery_options :: "config \<Rightarrow> options" where
  "recovery_options cfg =
     \<lparr>op_MaxAttempts = RecoveryMaxAttempts cfg, op_Cooldown = 0, op_StaleAfter = RecoveryStaleAfter cfg,
      op_SweepInterval = RecoverySweepInterval cfg, op_Lookback = 0\<rparr>"

definition timeouts_warned :: "config \<Rightarrow> bool" where
  "timeouts_warned cfg \<longleftrightarrow> wrap64 (TransactionTimeout cfg * 2) > RecoveryStaleAfter cfg"

definition Run :: "surroundings \<Rightarrow> config \<Rightarrow> boot_action list \<times> string option" where
  "Run w cfg =
     (let warn = (if timeouts_warned cfg then [TimeoutWarning] else []) in
      case cluster_New w cfg (Kinds (TransactionTimeout cfg)) of
        Inl e \<Rightarrow> (warn, Some e)
      | Inr cl \<Rightarrow>
          (warn @ [ClusterStarted cl, RecoveryStarted (NewManager (recovery_options cfg)), PartitionMaintenanceStarted] @
           startGrpc w cfg @ startHTTP cfg @ [HttpShutdown (ShutdownTimeout cfg), GrpcStopped, ClusterShutdown], stop_error w))"

section \<open>The command\<close>

definition migrate_command :: "string list \<Rightarrow> bool" where
  "migrate_command args \<longleftrightarrow> length args > 2 \<and> args ! 1 = ''migrate''"

definition main_migrate :: "surroundings \<Rightarrow> config \<Rightarrow> string \<Rightarrow> boot_action list \<times> nat" where
  "main_migrate w cfg cmd =
     (if cmd = ''up'' then (case Migrate w (DSN cfg) of Some e \<Rightarrow> ([], 1) | None \<Rightarrow> ([MigratedUp (DSN cfg)], 0))
      else if cmd = ''down'' then (case Rollback w (DSN cfg) of Some e \<Rightarrow> ([], 1) | None \<Rightarrow> ([MigratedDown (DSN cfg)], 0))
      else ([], 1))"

definition main_serve :: "surroundings \<Rightarrow> config \<Rightarrow> boot_action list \<times> nat" where
  "main_serve w cfg =
     (case Migrate w (DSN cfg) of
        Some e \<Rightarrow> ([], 1)
      | None \<Rightarrow>
          (case EnsurePartitions (on_parts w) (fst (on_month w)) (snd (on_month w)) (on_tables w) of
             (Some e, ps) \<Rightarrow> ([MigratedUp (DSN cfg)], 1)
           | (None, ps) \<Rightarrow>
               let before = [MigratedUp (DSN cfg), PartitionsEnsured ps, CacheStarted (RedisAddr cfg) (RedisDB cfg) (CacheTTL cfg)] in
               (case Run w cfg of
                  (acts, Some e) \<Rightarrow> (before @ acts, 1)
                | (acts, None) \<Rightarrow> (before @ acts @ [CacheClosed], 0))))"

definition main :: "(string \<Rightarrow> string) \<Rightarrow> (nat \<Rightarrow> nat \<Rightarrow> nat \<Rightarrow> nat) \<Rightarrow> environment \<Rightarrow> surroundings \<Rightarrow> string list \<Rightarrow> boot_action list \<times> nat" where
  "main unicode frac env w args =
     (let cfg = Load unicode frac env in
      case Connect w cfg of
        Inl e \<Rightarrow> ([], 1)
      | Inr p \<Rightarrow>
          (case (if migrate_command args then main_migrate w cfg (args ! 2) else main_serve w cfg) of
             (acts, code) \<Rightarrow> (DbOpened p # acts, code)))"

section \<open>Properties\<close>

definition listening :: "boot_action \<Rightarrow> bool" where
  "listening a = (case a of GrpcListening p \<Rightarrow> True | HttpListening s \<Rightarrow> True | _ \<Rightarrow> False)"

lemma Run_shape:
  "(\<exists>e. Run w cfg = (if timeouts_warned cfg then [TimeoutWarning] else [], Some e)) \<or>
   (\<exists>up. Run w cfg = (up @ startGrpc w cfg @ startHTTP cfg @ [HttpShutdown (ShutdownTimeout cfg), GrpcStopped, ClusterShutdown], stop_error w) \<and>
      filter listening up = [])"
  by (cases "cluster_New w cfg (Kinds (TransactionTimeout cfg))") (auto simp: Run_def Let_def listening_def)

lemma listening_stops [simp]:
  "filter listening [HttpShutdown d, GrpcStopped, ClusterShutdown] = []" "\<not> listening CacheClosed" "\<not> listening (DbOpened p)"
  "\<not> listening (MigratedUp s)" "\<not> listening (MigratedDown s)" "\<not> listening (PartitionsEnsured ps)" "\<not> listening (CacheStarted a b t)"
  "\<not> listening TimeoutWarning"
  by (simp_all add: listening_def)

lemma main_migrate_silent: "main_migrate w cfg cmd = (acts, code) \<Longrightarrow> filter listening acts = []"
  by (auto simp: main_migrate_def split: if_splits option.splits)

lemma main_serve_listening:
  assumes "main_serve w cfg = (acts, code)" "list_ex listening acts"
  shows "\<exists>ps up. EnsurePartitions (on_parts w) (fst (on_month w)) (snd (on_month w)) (on_tables w) = (None, ps) \<and>
    Migrate w (DSN cfg) = None \<and> filter listening up = [] \<and> code = (if stop_error w = None then 0 else 1) \<and>
    acts = [MigratedUp (DSN cfg), PartitionsEnsured ps, CacheStarted (RedisAddr cfg) (RedisDB cfg) (CacheTTL cfg)] @ up @
      startGrpc w cfg @ startHTTP cfg @ [HttpShutdown (ShutdownTimeout cfg), GrpcStopped, ClusterShutdown] @
      (if code = 0 then [CacheClosed] else [])"
proof -
  obtain r ps where ep: "EnsurePartitions (on_parts w) (fst (on_month w)) (snd (on_month w)) (on_tables w) = (r, ps)" by fastforce
  have mig: "Migrate w (DSN cfg) = None" and r: "r = None"
    using assms ep by (auto simp: main_serve_def split: option.splits)
  from Run_shape [of w cfg] consider
      (failed) e where "Run w cfg = (if timeouts_warned cfg then [TimeoutWarning] else [], Some e)"
    | (ran) up where "Run w cfg = (up @ startGrpc w cfg @ startHTTP cfg @ [HttpShutdown (ShutdownTimeout cfg), GrpcStopped, ClusterShutdown], stop_error w)"
        "filter listening up = []" by blast
  then show ?thesis
  proof cases
    case failed
    with assms ep mig r show ?thesis by (auto simp: main_serve_def split: if_splits)
  next
    case ran
    then have "acts = [MigratedUp (DSN cfg), PartitionsEnsured ps, CacheStarted (RedisAddr cfg) (RedisDB cfg) (CacheTTL cfg)] @ up @
      startGrpc w cfg @ startHTTP cfg @ [HttpShutdown (ShutdownTimeout cfg), GrpcStopped, ClusterShutdown] @
      (if code = 0 then [CacheClosed] else []) \<and> code = (if stop_error w = None then 0 else 1)"
      using assms(1) ep mig r by (cases "stop_error w") (auto simp: main_serve_def Let_def)
    with ran(2) mig r ep show ?thesis by blast
  qed
qed

text \<open>
  Claim C31. A process that listens has its database in order, and stops what it started. If a run opens a
  listener at all, then it was not a migration command, the pool had been opened and pinged, the migrations were applied
  over the direct connection and the partitions ensured before anything else; nothing listens before the cluster and
  the recovery are up; and the run ends by shutting down HTTP, then gRPC, then the cluster, with exit code 0 exactly
  when what ended it was no error.
\<close>

theorem listening_process_is_set_up:
  assumes "main unicode frac env w args = (acts, code)" "list_ex listening acts"
  shows "\<exists>p ps up. \<not> migrate_command args \<and>
    Connect w (Load unicode frac env) = Inr p \<and> Migrate w (DSN (Load unicode frac env)) = None \<and>
    EnsurePartitions (on_parts w) (fst (on_month w)) (snd (on_month w)) (on_tables w) = (None, ps) \<and>
    filter listening up = [] \<and> code = (if stop_error w = None then 0 else 1) \<and>
    acts = [DbOpened p, MigratedUp (DSN (Load unicode frac env)), PartitionsEnsured ps] @ up @
      startGrpc w (Load unicode frac env) @ startHTTP (Load unicode frac env) @
      [HttpShutdown (ShutdownTimeout (Load unicode frac env)), GrpcStopped, ClusterShutdown] @ (if code = 0 then [CacheClosed] else [])"
proof -
  define cfg where "cfg = Load unicode frac env"
  obtain p where p: "Connect w cfg = Inr p"
    using assms by (cases "Connect w cfg") (auto simp: main_def Let_def cfg_def [symmetric])
  obtain acts' where acts': "acts = DbOpened p # acts'"
    "(if migrate_command args then main_migrate w cfg (args ! 2) else main_serve w cfg) = (acts', code)"
    using assms(1) p by (auto simp: main_def Let_def cfg_def [symmetric] split: prod.splits)
  have ex: "list_ex listening acts'" using assms(2) acts'(1) by simp
  have nm: "\<not> migrate_command args"
    using acts'(2) ex main_migrate_silent [of w cfg "args ! 2" acts' code] by (auto simp: filter_empty_conv list_ex_iff)
  from acts'(2) nm have "main_serve w cfg = (acts', code)" by simp
  from main_serve_listening [OF this ex] obtain ps up where
    "EnsurePartitions (on_parts w) (fst (on_month w)) (snd (on_month w)) (on_tables w) = (None, ps)"
    "Migrate w (DSN cfg) = None" "filter listening up = []" "code = (if stop_error w = None then 0 else 1)"
    "acts' = [MigratedUp (DSN cfg), PartitionsEnsured ps] @ (CacheStarted (RedisAddr cfg) (RedisDB cfg) (CacheTTL cfg) # up) @
      startGrpc w cfg @ startHTTP cfg @ [HttpShutdown (ShutdownTimeout cfg), GrpcStopped, ClusterShutdown] @
      (if code = 0 then [CacheClosed] else [])"
    by auto
  with nm p acts'(1) show ?thesis
    unfolding cfg_def [symmetric]
    by (intro exI [of _ p] exI [of _ ps] exI [of _ "CacheStarted (RedisAddr cfg) (RedisDB cfg) (CacheTTL cfg) # up"]) simp
qed

definition demo_surroundings :: surroundings where
  "demo_surroundings = \<lparr>on_open = (\<lambda>_. None), on_handle = None, on_ping = None, on_sql_open = (\<lambda>_. None), on_source = None,
     on_driver = None, on_instance = None, on_up = Some ErrNoChange, on_steps = None, on_parts = (\<lambda>_. None), on_month = (2024, 1),
     on_tables = [], on_k8s = None, on_grpc_listen = None, on_stop = ShutdownSignal\<rparr>"

lemma unset_environment:
  "getEnv (\<lambda>_. []) k fs = fs" "getEnvInt (\<lambda>_. []) k fi = fi" "getEnvBool (\<lambda>_. []) k fb = fb"
  "getEnvDuration frac (\<lambda>_. []) k fd = fd" "getEnvList (\<lambda>_. []) k fl = fl"
  using TrimSpace_blanks [of "[]"]
  by (simp_all add: getEnv_def getEnvInt_def getEnvBool_def getEnvDuration_def getEnvList_def)

theorem listening_process_is_set_up_witness:
  "\<exists>acts. main id (\<lambda>f n u. 0) (\<lambda>_. []) demo_surroundings [''wallet''] = (acts, 0) \<and> list_ex listening acts \<and>
     MigratedUp (DSN (Load id (\<lambda>f n u. 0) (\<lambda>_. []))) \<in> set acts"
proof -
  let ?cfg = "Load id (\<lambda>f n u. 0) (\<lambda>_. [])"
  obtain ps where ps: "EnsurePartitions (on_parts demo_surroundings) 2024 1 [] = (None, ps)"
    using EnsurePartitions_runs [of "[]" "on_parts demo_surroundings" 2024 1] by (auto simp: monthly_def demo_surroundings_def)
  obtain p where p: "Connect demo_surroundings ?cfg = Inr p"
    by (cases "AppDSN ?cfg") (simp add: Connect_def Open_def demo_surroundings_def)
  have mig: "Migrate demo_surroundings (DSN ?cfg) = None"
    by (simp add: Migrate_def newMigrator_def unless_unchanged_def demo_surroundings_def)
  have mode: "ClusterMode ?cfg = ''single''" by (simp add: Load_def unset_environment)
  obtain acts where run: "Run demo_surroundings ?cfg = (acts, None)" "list_ex listening acts"
    by (auto simp: Run_def Let_def cluster_New_def newProvider_def mode stop_error_def startGrpc_def startHTTP_def demo_surroundings_def listening_def)
  from ps p mig run obtain acts' where m: "main id (\<lambda>f n u. 0) (\<lambda>_. []) demo_surroundings [''wallet''] = (acts', 0)"
    "list_ex listening acts'"
    by (auto simp: main_def main_serve_def migrate_command_def Let_def demo_surroundings_def)
  from listening_process_is_set_up [OF m] m show ?thesis by auto
qed

text \<open>
  The warning of \<open>Run\<close> compares the configured durations, the actors and the recovery use their defaults for durations that
  are not positive. With the environment unset the reply timeout fits; with \<open>TRANSACTION_TIMEOUT=0s\<close> it may not, unwarned.
\<close>

lemma default_timeouts_fit:
  "\<not> timeouts_warned (Load unicode frac (\<lambda>_. []))"
  by (simp add: timeouts_warned_def Load_def unset_environment second_def minute_def wrap64_def)

lemma zero_timeout_not_warned:
  assumes "TransactionTimeout cfg = 0" "RecoveryStaleAfter cfg = 30 * second"
  shows "\<not> timeouts_warned cfg \<and>
    (\<exists>t. (KindTransaction, TransactionGrain t) \<in> set (Kinds (TransactionTimeout cfg)) \<and>
       ta_replyTimeout t * 2 > op_StaleAfter (mg_opts (NewManager (recovery_options cfg))))"
  using assms
  by (simp add: timeouts_warned_def wrap64_def Kinds_def WithReplyTimeout_def NewTransactionActor_def DefaultReplyTimeout_def
      NewManager_def withDefaults_def recovery_options_def second_def)

lemma AppDSN_prepared:
  "snd (AppDSN cfg) \<longleftrightarrow> \<not> UsePgBouncer cfg \<or> PgBouncerPoolMode cfg = ''session''"
  by (simp add: AppDSN_def Let_def)

end
