(* ===== verification/Spec2Isabelle.thy ===== *)
theory Spec2Isabelle
  imports Wallet_Actor Transaction_Outcome Transaction_Rows Dead_Letter Recovery Transaction_Request
    Wallet_Guarantees Reversal Random_Reference Webhook Api_Guarantees Ledger_Statement Initiated Logging Startup
begin

text \<open>
  A verification library for the distributed wallet service (the Go sources under \<open>src/\<close>).

  \<^bold>\<open>The program.\<close> Clients call an HTTP or a gRPC API. The services behind it register profiles, create and list wallets, and accept
  transactions: a transaction is a plan of debits and credits on wallets that must balance. An accepted transaction is a row in the
  database and a start message to a TransactionActor, which runs the plan: debits first, credits once every debit has applied, and a reversal of
  every applied leg when one is refused. Each wallet belongs to one WalletActor, which applies operations one at a time, each once per idempotency
  key, with a version-guarded update and a ledger row in one database transaction. Undeliverable messages go to a
  dead-letter handler; transactions that stay incomplete are found by the recovery manager, which re-drives or abandons them. The outcome is
  posted to the client's callback URL. Redis caches reads.

  \<^bold>\<open>The model.\<close> A handler is a function from the state it acts on to a result and the state afterwards. \<open>world\<close> (Store) is the
  database tables and the messages sent; \<open>svc\<close> (Service_State) adds the profiles table and the cache. \<open>ctx\<close> (Store) holds what comes from outside
  the repository: the text form of UUIDs, Unicode case mapping, SHA-256, fresh UUIDs and reference numbers, whether the cluster can place an actor, and the
  outcome of every database and cache call, by the number of the call. A database call can fail before or after its effect. Hypotheses on a \<open>ctx\<close>
  are named: \<open>uuid_codec\<close> (parsing inverts printing), \<open>quiet\<close> (nobody writes to the wallets table behind the actors), \<open>faultless\<close>. \<open>int64\<close> values are
  integers with every operation wrapped (\<open>wrap64\<close>).

  \<^bold>\<open>Which theory models what.\<close>
    \<^item> Wallet_Prelude, Go_Strings: int64 arithmetic; the functions of strings and strconv the sources use.
    \<^item> Currency, Money (\<open>internal/currency\<close>, \<open>internal/types/money.go\<close>): the currency registry; decimal amounts, their text and JSON form, their
      conversion to minor units.
    \<^item> Models, Store (\<open>internal/models\<close>, \<open>internal/actors/types.go\<close>, \<open>dpk/cache/keys.go\<close>): rows and messages, error codes, cache keys.
    \<^item> Keyed_Service: the contract of a service with idempotency keys, a locale that Wallet_Actor interprets.
    \<^item> Wallet_Actor, Ledger_Statement (\<open>internal/actors/wallet.go\<close>): the WalletActor. The books stay right under every message sequence and fault, an
      operation takes effect once, a refusal moves nothing; the ledger is a gapless statement.
    \<^item> Transaction_Actor, Transaction_Outcome, Transaction_Rows (\<open>internal/actors/transaction.go\<close>, \<open>plan.go\<close>): the TransactionActor; its invariant, what
      it may send when, how it ends, and that an outcome is written once.
    \<^item> Dead_Letter (\<open>internal/actors/dead_letter.go\<close>), Recovery (\<open>internal/recovery/recovery.go\<close>): dead letters cost a retry; re-drives carry the stored plan
      and end after the configured number.
    \<^item> Leg_Slots, Leg_Flows, Actor_Flows, Settlement: the actors and the database together, with requests and replies on their way. \<open>slot_ok\<close> is the invariant of one
      idempotency key, \<open>flows\<close> of all keys of a transaction, \<open>sys_inv\<close> of the system; the abstract specification is a transfer that happens whole or not at all.
    \<^item> Resumption, Plan_Storage (with \<open>resume\<close>, \<open>persistPlan\<close> of \<open>transaction.go\<close> and the re-drive of \<open>recovery.go\<close>): the same system when the TransactionActor dies
      and another one resumes from the row and the ledger. It stays all or nothing if the row holds the plan at each crash, and the row does
      unless a write is lost; then money can be created.
    \<^item> Initiated: the composition. The state and the message an accepted request leaves are those Settlement and Resumption start from, so what a client gets
      accepted happens whole or not at all.
    \<^item> Service_Types, Validation (\<open>internal/types\<close>, \<open>internal/services/errors.go\<close>, \<open>internal/validation\<close>): request and response types, pagination, field errors.
    \<^item> Cache, Service_State (\<open>dpk/cache\<close>): the cache with expiry and faults; the state of the services.
    \<^item> Profile_Service, Wallet_Service, Wallet_Reads, Wallet_Guarantees (\<open>internal/services/profile.go\<close>, \<open>wallet.go\<close>): every operation of the two services; what
      is cached agrees with the tables, a balance change reaches the next read.
    \<^item> Transaction_Request, Day_Window, Transaction_Service, Transaction_Lookup, Transaction_Guarantees, Reversal
      (\<open>internal/services/transaction.go\<close>, \<open>balances.go\<close>): validation of a request, initiating, looking up and reversing transactions.
    \<^item> Webhook (\<open>internal/webhook\<close>), Random_Reference (\<open>dpk/utils\<close>), Partitions (\<open>internal/db/partitions.go\<close>): callbacks, reference numbers, monthly partitions.
    \<^item> Http_Api, Grpc_Api, Api_Guarantees (\<open>internal/handlers\<close>, \<open>internal/routers\<close>): every route and RPC; the status codes, what a refused request leaves, and
      that both transports do the same.
    \<^item> Config (\<open>config/config.go\<close>, the connection strings of \<open>internal/db/connection.go\<close>), Logging (\<open>dpk/logger\<close>): reading settings; daily log files and the
      queue in front of them.
    \<^item> Startup (\<open>cmd\<close>, \<open>internal/db/connection.go\<close>, \<open>migrator.go\<close>, \<open>internal/cluster\<close>): connecting and migrating the database, the actor kinds, and the order in
      which a process sets itself up, listens and shuts down.

  \<^bold>\<open>Loops and bounds.\<close> The retry loops have the bounds of the source and are recursions on the number of attempts left: \<open>maxVersionRetries\<close> (3 attempts of a wallet
  operation), \<open>finalizeAttempts\<close> (3), 3 attempts to create a row, \<open>maxAttempts\<close> (3 callback posts, with its termination proof). The only
  loop without a bound, in \<open>GenerateRrn\<close>, is a partial function; it is shown to return once enough bytes were read. Nothing runs on fuel. A run of
  the system is a list of events of any length.

  \<^bold>\<open>Findings.\<close> Some theorems state what the code does although it should not: a request whose sums overflow is accepted, a malformed first entry is recorded
  as success, so is a resumed reversal, giving up can announce a failure for a successful transaction, a client can have a foreign transaction marked as reversed, and reversals are sent although
  the write of their keys failed, so that a crash at that moment makes a resumed transaction create money.

  \<^bold>\<open>Not modelled.\<close> The generated protobuf code; its messages are records here. \<open>Money.Float\<close>, floating point that nothing in the service calls. \<open>reports.go\<close>, which is
  empty. The rules of the request validator, JSON decoding of a body, RFC 3339 times, the SQL of the migration files, and what listening sockets,
  the database driver, Redis and the actor framework do are parameters of the definitions that use them. The middleware in front of the
  HTTP handlers (request ids, logging, recovering from panics, CORS, a timeout, a check of the content type) is third-party code; the model starts where it
  calls a handler. Concurrency is the interleaving of whole handlers, as
  actors and database transactions give it. Settlement and Resumption leave out messages delivered twice (Keyed_Service and Wallet_Actor cover
  them for one wallet), a resume while requests of the dead actor are still on their way, and two TransactionActors of one transaction at a time.
\<close>

end
